(* ===== verification/GRS_Prelude.thy ===== *)
theory GRS_Prelude
  imports Main "HOL-Library.AList" "HOL-Library.Multiset" "HOL-Library.Word"
begin

text \<open>
  What every component shares: the ways a Go program can fail, Go maps and their unspecified
  iteration order, \<open>sort.Search\<close> of the standard library, and generic lemmas on lists.
  A Go map is an association list with distinct keys (\<open>gm_wf\<close>); the list order carries no
  meaning, because every \<open>for range\<close> over a map takes the order in which the entries are
  visited as an argument \<open>ord\<close> that satisfies \<open>range_order\<close> and nothing else.
\<close>

named_theorems gomap_simps \<open>lookup and length of Go maps after an update\<close>
named_theorems wf_intros \<open>well-formedness of what an operation returns\<close>

section \<open>Failures\<close>

datatype go_panic = IndexOutOfRange | NilDereference | NilMapWrite | NegativeWaitGroup | ExplicitPanic

section \<open>Go maps\<close>

type_synonym ('k, 'v) gomap = "('k \<times> 'v) list"

definition gm_empty :: "('k, 'v) gomap" where
  "gm_empty = []"

definition gm_get :: "('k, 'v) gomap \<Rightarrow> 'k \<Rightarrow> 'v option" where
  "gm_get m k = map_of m k"

definition gm_put :: "'k \<Rightarrow> 'v \<Rightarrow> ('k, 'v) gomap \<Rightarrow> ('k, 'v) gomap" where
  "gm_put k v m = AList.update k v m"

definition gm_delete :: "'k \<Rightarrow> ('k, 'v) gomap \<Rightarrow> ('k, 'v) gomap" where
  "gm_delete k m = AList.delete k m"

definition gm_keys :: "('k, 'v) gomap \<Rightarrow> 'k list" where
  "gm_keys m = map fst m"

definition gm_len :: "('k, 'v) gomap \<Rightarrow> nat" where
  "gm_len m = length m"

definition gm_wf :: "('k, 'v) gomap \<Rightarrow> bool" where
  "gm_wf m \<longleftrightarrow> distinct (map fst m)"

lemma gm_get_empty [simp]: "gm_get gm_empty k = None"
  by (simp add: gm_get_def gm_empty_def)

lemma gm_get_Nil [simp]: "gm_get [] k = None"
  by (simp add: gm_get_def)

lemma gm_get_Cons [simp]: "gm_get ((k', v) # m) k = (if k = k' then Some v else gm_get m k)"
  by (simp add: gm_get_def)

lemma gm_put_Nil [simp]: "gm_put k v [] = [(k, v)]"
  by (simp add: gm_put_def)

lemma gm_put_Cons [simp]:
  "gm_put k v ((k', v') # m) = (if k = k' then (k, v) # m else (k', v') # gm_put k v m)"
  by (auto simp: gm_put_def)

lemma gm_wf_empty [simp]: "gm_wf gm_empty" "gm_wf []"
  by (simp_all add: gm_wf_def gm_empty_def)

lemma gm_get_put [gomap_simps]: "gm_get (gm_put k v m) k' = (if k' = k then Some v else gm_get m k')"
  by (simp add: gm_get_def gm_put_def update_conv')

lemma gm_get_delete [gomap_simps]:
  "gm_get (gm_delete k m) k' = (if k' = k then None else gm_get m k')"
  by (simp add: gm_get_def gm_delete_def delete_conv')

lemma gm_wf_put [wf_intros, simp]: "gm_wf m \<Longrightarrow> gm_wf (gm_put k v m)"
  by (simp add: gm_wf_def gm_put_def distinct_update)

lemma gm_wf_delete [wf_intros, simp]: "gm_wf m \<Longrightarrow> gm_wf (gm_delete k m)"
  by (simp add: gm_wf_def gm_delete_def distinct_delete)

lemma gm_keys_set: "set (gm_keys m) = {k. gm_get m k \<noteq> None}"
  by (auto simp: gm_keys_def gm_get_def map_of_eq_None_iff)

lemma gm_get_in: "gm_get m k = Some v \<Longrightarrow> (k, v) \<in> set m"
  by (simp add: gm_get_def map_of_SomeD)

lemma gm_in_get: "gm_wf m \<Longrightarrow> (k, v) \<in> set m \<Longrightarrow> gm_get m k = Some v"
  by (simp add: gm_wf_def gm_get_def)

lemma gm_in_iff: "gm_wf m \<Longrightarrow> (k, v) \<in> set m \<longleftrightarrow> gm_get m k = Some v"
  by (blast intro: gm_in_get gm_get_in)

lemma gm_wf_distinct: "gm_wf m \<Longrightarrow> distinct m"
  by (simp add: gm_wf_def distinct_map)

lemma gm_put_fresh: "gm_get m k = None \<Longrightarrow> gm_put k v m = m @ [(k, v)]"
  by (induction m) (auto simp: gm_get_def gm_put_def split: if_splits)

lemma gm_len_put [gomap_simps]:
  "gm_len (gm_put k v m) = (if gm_get m k = None then Suc (gm_len m) else gm_len m)"
  by (induction m) (auto simp: gm_len_def split: if_splits)

lemma gm_put_in: "(k', v') \<in> set (gm_put k v m) \<Longrightarrow> (k', v') = (k, v) \<or> (k', v') \<in> set m"
  by (induction m) (auto split: if_splits)

lemma gm_get_map_value: "gm_get (map (\<lambda>(k, v). (k, f v)) m) k = map_option f (gm_get m k)"
  by (induction m) auto

lemma gm_get_mset:
  assumes "gm_wf m" "mset m' = mset m"
  shows "gm_get m' = gm_get m"
proof -
  have "distinct (map fst m')"
    using assms by (metis gm_wf_def mset_map mset_eq_imp_distinct_iff)
  moreover have "set m' = set m"
    using assms by (metis set_mset_mset)
  ultimately show ?thesis
    using assms(1) by (auto simp: fun_eq_iff gm_get_def gm_wf_def intro: map_of_eqI
        dest: map_of_inject_set)
qed

section \<open>The map interface\<close>

text \<open>
  What the components rely on when they use a map: lookup after an insertion and after a deletion.
  The client lemma is the loop every copy, conversion and replacement in the code runs: a
  \<open>for range\<close> over a list of entries that stores each one.
\<close>

locale kv_map =
  fixes lookup :: "'m \<Rightarrow> 'k \<Rightarrow> 'v option"
    and put :: "'k \<Rightarrow> 'v \<Rightarrow> 'm \<Rightarrow> 'm"
    and del :: "'k \<Rightarrow> 'm \<Rightarrow> 'm"
    and invar :: "'m \<Rightarrow> bool"
  assumes lookup_put: "lookup (put k v m) k' = (if k' = k then Some v else lookup m k')"
    and lookup_del: "lookup (del k m) k' = (if k' = k then None else lookup m k')"
    and invar_put: "invar m \<Longrightarrow> invar (put k v m)"
    and invar_del: "invar m \<Longrightarrow> invar (del k m)"
begin

lemma invar_fold: "invar m \<Longrightarrow> invar (fold (\<lambda>x. put (f x) (g x)) xs m)"
  by (induction xs arbitrary: m) (simp_all add: invar_put)

lemma lookup_fold_other:
  "k \<notin> f ` set xs \<Longrightarrow> lookup (fold (\<lambda>x. put (f x) (g x)) xs m) k = lookup m k"
  by (induction xs arbitrary: m) (auto simp: lookup_put)

lemma lookup_fold_unique:
  "x \<in> set xs \<Longrightarrow> distinct (map f xs) \<Longrightarrow>
    lookup (fold (\<lambda>x. put (f x) (g x)) xs m) (f x) = Some (g x)"
proof (induction xs arbitrary: m)
  case Nil
  then show ?case by simp
next
  case (Cons y ys)
  show ?case
  proof (cases "x \<in> set ys")
    case True
    with Cons show ?thesis by simp
  next
    case False
    with Cons.prems have "x = y" by simp
    then show ?thesis
      using Cons.prems lookup_fold_other [of "f y" f ys g "put (f y) (g y) m"]
      by (simp add: lookup_put)
  qed
qed

end

interpretation gm: kv_map gm_get gm_put gm_delete gm_wf
  by unfold_locales (simp_all add: gomap_simps)

section \<open>Iteration order\<close>

text \<open>
  The Go specification leaves the iteration order of a map open, and it may differ from one
  iteration to the next. An operation that ranges over a map visits \<open>ord m\<close>.
\<close>

definition range_order :: "('a list \<Rightarrow> 'a list) \<Rightarrow> bool" where
  "range_order ord \<longleftrightarrow> (\<forall>xs. mset (ord xs) = mset xs)"

lemma range_order_id [simp]: "range_order (\<lambda>xs. xs)"
  by (simp add: range_order_def)

lemma range_order_rev [simp]: "range_order rev"
  by (simp add: range_order_def)

lemma range_order_mset: "range_order ord \<Longrightarrow> mset (ord xs) = mset xs"
  by (simp add: range_order_def)

lemma range_order_set [simp]: "range_order ord \<Longrightarrow> set (ord xs) = set xs"
  by (metis range_order_mset set_mset_mset)

lemma range_order_length [simp]: "range_order ord \<Longrightarrow> length (ord xs) = length xs"
  by (metis range_order_mset size_mset)

lemma range_order_distinct [simp]: "range_order ord \<Longrightarrow> distinct (ord xs) = distinct xs"
  by (metis range_order_mset mset_eq_imp_distinct_iff)

lemma range_order_wf [simp]: "range_order ord \<Longrightarrow> gm_wf (ord m) = gm_wf m"
  by (metis gm_wf_def mset_map range_order_mset mset_eq_imp_distinct_iff)

lemma range_order_sum: "range_order ord \<Longrightarrow> sum_list (map f (ord xs)) = sum_list (map f xs)"
  for f :: "'a \<Rightarrow> nat"
proof -
  assume "range_order ord"
  then have "mset (map f (ord xs)) = mset (map f xs)"
    by (simp add: range_order_mset)
  then show ?thesis by (metis sum_mset_sum_list)
qed

section \<open>\<open>sort.Search\<close>\<close>

text \<open>
  \<open>sort.Search(n, f)\<close> of the Go library: the loop keeps \<open>f(i-1) == false\<close> and
  \<open>f(j) == true\<close> and halves the interval.
\<close>

function go_search_loop :: "(nat \<Rightarrow> bool) \<Rightarrow> nat \<Rightarrow> nat \<Rightarrow> nat" where
  "go_search_loop f i j =
     (if i < j then
        let h = (i + j) div 2 in
        if \<not> f h then go_search_loop f (h + 1) j else go_search_loop f i h
      else i)"
  by pat_completeness auto
termination
  by (relation "measure (\<lambda>(f, i, j). j - i)") auto

declare go_search_loop.simps [simp del]

lemma go_search_loop_done: "j \<le> i \<Longrightarrow> go_search_loop f i j = i"
  by (subst go_search_loop.simps) simp

lemma go_search_loop_right:
  "i < j \<Longrightarrow> \<not> f ((i + j) div 2) \<Longrightarrow> go_search_loop f i j = go_search_loop f ((i + j) div 2 + 1) j"
  by (subst go_search_loop.simps) simp

lemma go_search_loop_left:
  "i < j \<Longrightarrow> f ((i + j) div 2) \<Longrightarrow> go_search_loop f i j = go_search_loop f i ((i + j) div 2)"
  by (subst go_search_loop.simps) simp

definition go_search :: "nat \<Rightarrow> (nat \<Rightarrow> bool) \<Rightarrow> nat" where
  "go_search n f = go_search_loop f 0 n"

definition up_closed :: "(nat \<Rightarrow> bool) \<Rightarrow> nat \<Rightarrow> bool" where
  "up_closed f n \<longleftrightarrow> (\<forall>i j. i \<le> j \<longrightarrow> j < n \<longrightarrow> f i \<longrightarrow> f j)"

lemma go_search_loop_bounds: "i \<le> j \<Longrightarrow> i \<le> go_search_loop f i j \<and> go_search_loop f i j \<le> j"
proof (induction f i j rule: go_search_loop.induct)
  case (1 f i j)
  show ?case
  proof (cases "i < j")
    case True
    then have "i \<le> (i + j) div 2" "(i + j) div 2 < j" by auto
    with "1.IH" [OF True refl] True show ?thesis
      by (cases "f ((i + j) div 2)") (auto simp: go_search_loop_left go_search_loop_right)
  next
    case False
    with "1.prems" show ?thesis by (simp add: go_search_loop_done)
  qed
qed

lemma go_search_le: "go_search n f \<le> n"
  using go_search_loop_bounds [of 0 n f] by (simp add: go_search_def)

lemma go_search_loop_correct:
  assumes "up_closed f n" "i \<le> j" "j \<le> n"
    and "\<forall>k < i. \<not> f k" and "\<forall>k. j \<le> k \<longrightarrow> k < n \<longrightarrow> f k"
  shows "(\<forall>k < go_search_loop f i j. \<not> f k) \<and> (\<forall>k. go_search_loop f i j \<le> k \<longrightarrow> k < n \<longrightarrow> f k)"
  using assms
proof (induction f i j rule: go_search_loop.induct)
  case (1 f i j)
  show ?case
  proof (cases "i < j")
    case True
    define h where "h = (i + j) div 2"
    have h: "i \<le> h" "h < j" using True by (auto simp: h_def)
    show ?thesis
    proof (cases "f h")
      case True
      have eq: "go_search_loop f i j = go_search_loop f i h"
        using \<open>i < j\<close> True by (simp add: h_def go_search_loop_left)
      have "\<forall>k. h \<le> k \<longrightarrow> k < n \<longrightarrow> f k"
        using "1.prems"(1) True by (auto simp: up_closed_def)
      then show ?thesis
        unfolding eq using "1.IH"(2) [OF \<open>i < j\<close> h_def] "1.prems"(1,3,4) True h
        by (meson less_imp_le order.trans)
    next
      case False
      have eq: "go_search_loop f i j = go_search_loop f (h + 1) j"
        using \<open>i < j\<close> False by (simp add: h_def go_search_loop_right)
      have "\<forall>k < h + 1. \<not> f k"
      proof (intro allI impI notI)
        fix k assume "k < h + 1" "f k"
        then have "k \<le> h" "h < n" using "1.prems"(3) h by auto
        with \<open>f k\<close> have "f h"
          using "1.prems"(1) unfolding up_closed_def by blast
        with False show False by simp
      qed
      moreover have "h + 1 \<le> j" using h by simp
      ultimately show ?thesis
        unfolding eq using "1.IH"(1) [OF \<open>i < j\<close> h_def False] "1.prems"(1,3,5)
        by blast
    qed
  next
    case False
    with "1.prems" show ?thesis by (simp add: go_search_loop_done)
  qed
qed

lemma go_search_correct:
  assumes "up_closed f n"
  shows "\<forall>k < go_search n f. \<not> f k" "\<And>k. go_search n f \<le> k \<Longrightarrow> k < n \<Longrightarrow> f k"
  using go_search_loop_correct [of f n 0 n] assms by (auto simp: go_search_def)

lemma go_search_unique:
  assumes "up_closed f n" "r \<le> n" "\<forall>k < r. \<not> f k" "\<forall>k. r \<le> k \<longrightarrow> k < n \<longrightarrow> f k"
  shows "go_search n f = r"
proof (rule linorder_cases [of "go_search n f" r])
  assume "go_search n f < r"
  with assms go_search_correct(2) [OF assms(1), of "go_search n f"] show ?thesis by force
next
  assume "r < go_search n f"
  with assms go_search_correct(1) [OF assms(1)] go_search_le [of n f] show ?thesis by force
qed

section \<open>Lists\<close>

lemma nth_update_map:
  "i < length xs \<Longrightarrow> f x = f (xs ! i) \<Longrightarrow> map f (xs[i := x]) = map f xs"
  by (simp add: map_update list_update_same_conv)

lemma sum_list_update_nat:
  "i < length xs \<Longrightarrow> sum_list (map f (xs[i := x])) + f (xs ! i) = sum_list (map f xs) + (f x :: nat)"
  by (induction xs arbitrary: i) (auto split: nat.splits)

lemma concat_chunks_length: "length (concat (map f xs)) = sum_list (map (length \<circ> f) xs)"
  by (simp add: length_concat)

lemma concat_nth_chunk:
  assumes "\<forall>xs\<in>set xss. length xs = n" "k < length xss" "i < n"
  shows "concat xss ! (k * n + i) = xss ! k ! i"
  using assms
proof (induction xss arbitrary: k)
  case (Cons xs xss)
  then show ?case by (cases k) (simp_all add: nth_append add.assoc)
qed simp

lemma concat_chunk_total: "\<forall>xs\<in>set xss. length xs = n \<Longrightarrow> length (concat xss) = length xss * n"
  by (induction xss) simp_all

end
