(* ===== verification/Go_Strconv.thy ===== *)
theory Go_Strconv
  imports GRS_Prelude
begin

text \<open>
  The functions of Go's \<open>strconv\<close> and \<open>strings\<close> packages the program calls, on byte strings:
  \<open>ParseUint(s, 10, 64)\<close>, \<open>Atoi\<close>, the decimal verb of \<open>fmt.Sprintf\<close>, \<open>strings.Split\<close> and
  \<open>strings.Contains\<close>. Failures are \<open>None\<close>; the callers only test for an error.
\<close>

type_synonym uint64 = "64 word"

section \<open>Decimal numbers\<close>

definition byte_of :: "char \<Rightarrow> nat" where
  "byte_of c = of_char c"

definition is_digit :: "char \<Rightarrow> bool" where
  "is_digit c \<longleftrightarrow> 48 \<le> byte_of c \<and> byte_of c \<le> 57"

definition digit_val :: "char \<Rightarrow> nat" where
  "digit_val c = byte_of c - 48"

definition digit_char :: "nat \<Rightarrow> char" where
  "digit_char d = char_of (48 + d)"

fun parse_digits :: "nat \<Rightarrow> nat \<Rightarrow> string \<Rightarrow> nat option" where
  "parse_digits bound acc [] = Some acc"
| "parse_digits bound acc (c # cs) =
     (if is_digit c then
        let n = acc * 10 + digit_val c in
        if n < bound then parse_digits bound n cs else None
      else None)"

definition ParseUint :: "string \<Rightarrow> uint64 option" where
  "ParseUint s = (if s = [] then None else map_option of_nat (parse_digits (2 ^ 64) 0 s))"

definition Atoi :: "string \<Rightarrow> int option" where
  "Atoi s =
     (case s of
        [] \<Rightarrow> None
      | c # cs \<Rightarrow>
          if c = CHR ''-'' then
            (if cs = [] then None else map_option (\<lambda>n. - int n) (parse_digits (2 ^ 63 + 1) 0 cs))
          else if c = CHR ''+'' then
            (if cs = [] then None else map_option int (parse_digits (2 ^ 63) 0 cs))
          else map_option int (parse_digits (2 ^ 63) 0 s))"

fun decimal :: "nat \<Rightarrow> string" where
  "decimal n = (if n < 10 then [digit_char n] else decimal (n div 10) @ [digit_char (n mod 10)])"

declare decimal.simps [simp del]

definition Itoa :: "int \<Rightarrow> string" where
  "Itoa i = (if i < 0 then CHR ''-'' # decimal (nat (- i)) else decimal (nat i))"

lemma digit_char_byte: "d < 10 \<Longrightarrow> byte_of (digit_char d) = 48 + d"
  by (simp add: byte_of_def digit_char_def)

lemma is_digit_char [simp]: "d < 10 \<Longrightarrow> is_digit (digit_char d)"
  by (simp add: is_digit_def digit_char_byte)

lemma digit_val_char [simp]: "d < 10 \<Longrightarrow> digit_val (digit_char d) = d"
  by (simp add: digit_val_def digit_char_byte)

lemma parse_digits_append:
  "parse_digits b acc (xs @ ys) = Option.bind (parse_digits b acc xs) (\<lambda>a. parse_digits b a ys)"
  by (induction b acc xs rule: parse_digits.induct) (auto simp: Let_def)

lemma decimal_nonempty [simp]: "decimal n \<noteq> []"
  by (subst decimal.simps) simp

lemma decimal_digits: "c \<in> set (decimal n) \<Longrightarrow> is_digit c"
proof (induction n rule: decimal.induct)
  case (1 n)
  then show ?case
    by (cases "n < 10") (auto simp: decimal.simps [of n])
qed

lemma parse_decimal: "n < b \<Longrightarrow> parse_digits b 0 (decimal n) = Some n"
proof (induction n rule: decimal.induct)
  case (1 n)
  show ?case
  proof (cases "n < 10")
    case True
    with "1.prems" show ?thesis by (simp add: decimal.simps [of n])
  next
    case False
    have "n div 10 * 10 + n mod 10 = n" by simp
    moreover have "n div 10 < b" using "1.prems" by linarith
    ultimately show ?thesis
      using "1.IH" [OF False] "1.prems" False
      by (simp add: decimal.simps [of n] parse_digits_append)
  qed
qed

lemma parse_digits_digits: "parse_digits b acc s = Some n \<Longrightarrow> (\<forall>c\<in>set s. is_digit c)"
  by (induction b acc s rule: parse_digits.induct) (auto simp: Let_def split: if_splits)

lemma parse_digits_bound: "parse_digits b acc s = Some n \<Longrightarrow> acc < b \<Longrightarrow> n < b"
  by (induction b acc s rule: parse_digits.induct) (auto simp: Let_def split: if_splits)

lemma is_digit_simps [simp]: "\<not> is_digit CHR ''-''" "\<not> is_digit CHR ''+''" "\<not> is_digit CHR ''R''"
  by (simp_all add: is_digit_def byte_of_def)

lemma Atoi_decimal: "n < 2 ^ 63 \<Longrightarrow> Atoi (decimal n) = Some (int n)"
proof -
  assume n: "n < 2 ^ 63"
  obtain c cs where d: "decimal n = c # cs" by (cases "decimal n") auto
  then have "is_digit c" using decimal_digits [of c n] by simp
  then have "c \<noteq> CHR ''-''" "c \<noteq> CHR ''+''" by auto
  then show ?thesis
    using parse_decimal [OF n] by (simp add: Atoi_def d)
qed

lemma ParseUint_decimal: "n < 2 ^ 64 \<Longrightarrow> ParseUint (decimal n) = Some (of_nat n)"
  by (simp add: ParseUint_def parse_decimal)

section \<open>Substrings\<close>

fun has_prefix :: "string \<Rightarrow> string \<Rightarrow> bool" where
  "has_prefix [] s = True"
| "has_prefix (p # ps) [] = False"
| "has_prefix (p # ps) (c # cs) = (p = c \<and> has_prefix ps cs)"

fun str_contains :: "string \<Rightarrow> string \<Rightarrow> bool" where
  "str_contains [] sub = (sub = [])"
| "str_contains (c # cs) sub = (has_prefix sub (c # cs) \<or> str_contains cs sub)"

text \<open>\<open>strings.Split(s, sep)\<close> for a separator that is not empty.\<close>

function split_loop :: "string \<Rightarrow> string \<Rightarrow> string \<Rightarrow> string list" where
  "split_loop sep acc s =
     (if s = [] \<or> sep = [] then [rev acc @ s]
      else if has_prefix sep s then rev acc # split_loop sep [] (drop (length sep) s)
      else split_loop sep (hd s # acc) (tl s))"
  by pat_completeness auto
termination
  by (relation "measure (\<lambda>(sep, acc, s). length s)") auto

declare split_loop.simps [simp del]

definition Split :: "string \<Rightarrow> string \<Rightarrow> string list" where
  "Split s sep = split_loop sep [] s"

lemma has_prefix_iff: "has_prefix p s \<longleftrightarrow> (\<exists>t. s = p @ t)"
  by (induction p s rule: has_prefix.induct) auto

lemma split_loop_none:
  "c \<notin> set s \<Longrightarrow> split_loop (c # sep) acc s = [rev acc @ s]"
proof (induction s arbitrary: acc)
  case Nil
  then show ?case by (simp add: split_loop.simps [of _ _ "[]"])
next
  case (Cons d s)
  then show ?case by (subst split_loop.simps) auto
qed

lemma split_loop_join:
  assumes "sep \<noteq> []"
  shows "concat (map (\<lambda>x. sep @ x) (split_loop sep acc s)) = sep @ rev acc @ s"
  using assms
proof (induction sep acc s rule: split_loop.induct)
  case (1 sep acc s)
  consider "s = []" | "s \<noteq> []" "has_prefix sep s" | "s \<noteq> []" "\<not> has_prefix sep s" by blast
  then show ?case
  proof cases
    case 1
    then show ?thesis by (simp add: split_loop.simps [of sep acc "[]"])
  next
    case 2
    then obtain t where "s = sep @ t" by (auto simp: has_prefix_iff)
    moreover have "split_loop sep acc s = rev acc # split_loop sep [] (drop (length sep) s)"
      using 2 "1.prems" by (subst split_loop.simps) simp
    ultimately show ?thesis
      using 2 "1.IH"(1) "1.prems" by simp
  next
    case 3
    with "1.IH"(2) "1.prems" show ?thesis
      by (simp add: split_loop.simps [of sep acc s])
  qed
qed

end
