(* ===== verification/GRS_Hash.thy ===== *)
theory GRS_Hash
  imports Go_Strconv
begin

unbundle bit_operations_syntax

text \<open>
  \<open>common-lib/hash/hash.go\<close>: node ids are placed on the ring by the 64-bit FNV-1a hash of
  \<open>hash/fnv\<close>. A byte is mixed in by exclusive or, then the state is multiplied by the FNV prime
  modulo the word size.
\<close>

definition fnv64a_step :: "uint64 \<Rightarrow> char \<Rightarrow> uint64" where
  "fnv64a_step h c = (h XOR of_nat (byte_of c)) * 1099511628211"

definition fnv32a_step :: "32 word \<Rightarrow> char \<Rightarrow> 32 word" where
  "fnv32a_step h c = (h XOR of_nat (byte_of c)) * 16777619"

definition HashStrToUInt32 :: "string \<Rightarrow> 32 word" where
  "HashStrToUInt32 s = fold (\<lambda>c h. fnv32a_step h c) s 2166136261"

definition HashStrToUInt64 :: "string \<Rightarrow> uint64" where
  "HashStrToUInt64 s = fold (\<lambda>c h. fnv64a_step h c) s 14695981039346656037"

lemma HashStrToUInt64_append:
  "HashStrToUInt64 (s @ t) = fold (\<lambda>c h. fnv64a_step h c) t (HashStrToUInt64 s)"
  by (simp add: HashStrToUInt64_def)

end
