(* ===== verification/Go_Float.thy ===== *)
theory Go_Float
  imports Complex_Main "HOL-Library.Log_Nat"
begin

text \<open>
  The part of Go's \<open>float64\<close> (IEEE 754 binary64) the program uses: finite values as rationals,
  each operation the exact result rounded to 53 significant bits, ties to even (\<open>fl\<close>).
  The exponent range is not bounded: every value the program computes is 0 or has a magnitude
  between \<open>2 powi -64\<close> and \<open>2 powi 64\<close>, where neither overflow nor gradual underflow occurs.
  The lemmas give the three facts the components use: rounding is monotone, it leaves
  representable values alone, and its relative error is at most \<open>2 powi -53\<close>.
\<close>

type_synonym f64 = rat

section \<open>Rounding\<close>

definition round_even :: "rat \<Rightarrow> int" where
  "round_even x =
     (let f = \<lfloor>x\<rfloor>; d = x - of_int f in
      if d < 1/2 then f else if d > 1/2 then f + 1 else if even f then f else f + 1)"

text \<open>The exponent of a positive rational: \<open>2 powi ilog x \<le> x < 2 powi (ilog x + 1)\<close>.\<close>

definition ilog :: "rat \<Rightarrow> int" where
  "ilog x =
     (let (a, b) = quotient_of x; d = int (floorlog 2 (nat a)) - int (floorlog 2 (nat b)) in
      if x < 2 powi d then d - 1 else d)"

definition fl_pos :: "rat \<Rightarrow> rat" where
  "fl_pos x = (let e = ilog x - 52 in of_int (round_even (x / 2 powi e)) * 2 powi e)"

definition fl :: "rat \<Rightarrow> f64" where
  "fl x = (if x = 0 then 0 else if x > 0 then fl_pos x else - fl_pos (- x))"

definition f64_add :: "f64 \<Rightarrow> f64 \<Rightarrow> f64" where
  "f64_add a b = fl (a + b)"

definition f64_sub :: "f64 \<Rightarrow> f64 \<Rightarrow> f64" where
  "f64_sub a b = fl (a - b)"

definition f64_mul :: "f64 \<Rightarrow> f64 \<Rightarrow> f64" where
  "f64_mul a b = fl (a * b)"

definition f64_div :: "f64 \<Rightarrow> f64 \<Rightarrow> f64" where
  "f64_div a b = fl (a / b)"

definition f64_of_int :: "int \<Rightarrow> f64" where
  "f64_of_int n = fl (of_int n)"

section \<open>Rounding to an integer\<close>

lemma round_even_mono: "x \<le> y \<Longrightarrow> round_even x \<le> round_even y"
proof -
  assume le: "x \<le> y"
  then have f: "\<lfloor>x\<rfloor> \<le> \<lfloor>y\<rfloor>" by (rule floor_mono)
  show ?thesis
  proof (cases "\<lfloor>x\<rfloor> = \<lfloor>y\<rfloor>")
    case True
    with le show ?thesis by (auto simp: round_even_def Let_def)
  next
    case False
    with f have "\<lfloor>x\<rfloor> + 1 \<le> \<lfloor>y\<rfloor>" by simp
    moreover have "round_even x \<le> \<lfloor>x\<rfloor> + 1" "\<lfloor>y\<rfloor> \<le> round_even y"
      by (auto simp: round_even_def Let_def)
    ultimately show ?thesis by linarith
  qed
qed

lemma round_even_of_int [simp]: "round_even (of_int n) = n"
  by (simp add: round_even_def)

lemma round_even_err: "\<bar>of_int (round_even x) - x\<bar> \<le> 1/2"
proof -
  have "of_int \<lfloor>x\<rfloor> \<le> x" "x < of_int \<lfloor>x\<rfloor> + 1"
    by (simp, linarith)
  then show ?thesis by (auto simp: round_even_def Let_def abs_le_iff)
qed

lemma round_even_eqI:
  assumes "\<bar>x - of_int n\<bar> < 1/2"
  shows "round_even x = n"
proof -
  have "\<bar>of_int (round_even x) - of_int n\<bar> < (1::rat)"
    using assms round_even_err [of x] by linarith
  then have "\<bar>round_even x - n\<bar> < 1"
    by (metis of_int_abs of_int_diff of_int_less_1_iff)
  then show ?thesis by simp
qed

section \<open>Exponents\<close>

lemma floorlog_bounds_nat:
  assumes "n > 0"
  shows "2 ^ (floorlog 2 n - 1) \<le> n" "n < 2 ^ floorlog 2 n" "floorlog 2 n > 0"
  using floorlog_bounds [of n 2] assms floorlog_eq_zero_iff [of 2 n] by (auto intro: Nat.gr0I)

lemma powi2_less_D: "(2 :: rat) powi m < 2 powi n \<Longrightarrow> m < n"
  using power_int_increasing [of n m "2 :: rat"] by (meson leD not_le one_le_numeral)

lemma ilog_bounds:
  assumes "x > 0"
  shows "2 powi ilog x \<le> x" "x < 2 powi (ilog x + 1)"
proof -
  obtain a b where q: "quotient_of x = (a, b)" by (cases "quotient_of x")
  have b: "b > 0" using q by (rule quotient_of_denom_pos)
  have x: "x = of_int a / of_int b" using q by (rule quotient_of_div)
  then have a: "a > 0" using assms b by (simp add: zero_less_divide_iff)
  define la lb where "la = floorlog 2 (nat a)" and "lb = floorlog 2 (nat b)"
  define d where "d = int la - int lb"
  have na: "2 ^ (la - 1) \<le> nat a" "nat a < 2 ^ la" "la > 0"
    using floorlog_bounds_nat [of "nat a"] a by (auto simp: la_def)
  have nb: "2 ^ (lb - 1) \<le> nat b" "nat b < 2 ^ lb" "lb > 0"
    using floorlog_bounds_nat [of "nat b"] b by (auto simp: lb_def)
  have ra: "2 ^ (la - 1) \<le> (of_int a :: rat)" "(of_int a :: rat) < 2 ^ la"
    using na(1,2) a by (metis of_nat_le_iff of_nat_less_iff of_nat_nat of_nat_numeral of_nat_power
        less_imp_le)+
  have rb: "2 ^ (lb - 1) \<le> (of_int b :: rat)" "(of_int b :: rat) < 2 ^ lb"
    using nb(1,2) b by (metis of_nat_le_iff of_nat_less_iff of_nat_nat of_nat_numeral of_nat_power
        less_imp_le)+
  have pa: "(2 :: rat) ^ la = 2 * 2 ^ (la - 1)" and pb: "(2 :: rat) ^ lb = 2 * 2 ^ (lb - 1)"
    using na(3) nb(3) by (simp_all add: power_eq_if)
  have d2: "(2 :: rat) powi d = 2 ^ la / 2 ^ lb"
    by (simp add: d_def power_int_diff)
  have "x < 2 ^ la / 2 ^ (lb - 1)"
    unfolding x using ra rb b a by (intro frac_less) auto
  then have hi: "x < 2 powi (d + 1)"
    using pb by (simp add: d2 power_int_add)
  have "2 ^ (la - 1) / 2 ^ lb < x"
    unfolding x using ra rb b a by (intro frac_less2) auto
  then have lo: "2 powi (d - 1) < x"
    using pa by (simp add: d2 power_int_diff)
  have il: "ilog x = (if x < 2 powi d then d - 1 else d)"
    by (simp add: ilog_def q la_def lb_def d_def Let_def)
  show "2 powi ilog x \<le> x" "x < 2 powi (ilog x + 1)"
    using hi lo by (auto simp: il)
qed

lemma ilog_eqI:
  assumes "2 powi e \<le> x" "x < 2 powi (e + 1)"
  shows "ilog x = e"
proof -
  have "x > 0" using assms(1) by (rule less_le_trans [rotated]) simp
  note b = ilog_bounds [OF this]
  have "(2 :: rat) powi e < 2 powi (ilog x + 1)" "(2 :: rat) powi ilog x < 2 powi (e + 1)"
    using b assms by linarith+
  then have "e < ilog x + 1" "ilog x < e + 1"
    by (blast dest: powi2_less_D)+
  then show ?thesis by simp
qed

lemma ilog_mono:
  assumes "0 < x" "x \<le> y"
  shows "ilog x \<le> ilog y"
proof -
  have "(2 :: rat) powi ilog x < 2 powi (ilog y + 1)"
    using ilog_bounds [of x] ilog_bounds [of y] assms by linarith
  then have "ilog x < ilog y + 1" by (rule powi2_less_D)
  then show ?thesis by simp
qed

section \<open>Properties of the rounding\<close>

lemma powi_53: "(2 :: rat) powi (k - 52) * 2 ^ 53 = 2 powi (k + 1)"
proof -
  have "(2 :: rat) powi (k - 52) * 2 powi 53 = 2 powi (k - 52 + 53)"
    by (subst power_int_add [symmetric]) simp_all
  then show ?thesis by (simp add: add.commute)
qed

lemma powi_52: "(2 :: rat) powi (k - 52) * 2 ^ 52 = 2 powi k"
proof -
  have "(2 :: rat) powi (k - 52) * 2 powi 52 = 2 powi (k - 52 + 52)"
    by (subst power_int_add [symmetric]) simp_all
  then show ?thesis by (simp add: add.commute)
qed

text \<open>The significand of a positive number, scaled to \<open>[2 ^ 52, 2 ^ 53)\<close>.\<close>

lemma scaled_bounds:
  assumes "x > 0"
  shows "2 ^ 52 \<le> x / 2 powi (ilog x - 52)" "x / 2 powi (ilog x - 52) < 2 ^ 53"
  using ilog_bounds [OF assms] powi_52 [of "ilog x"] powi_53 [of "ilog x"]
  by (simp_all add: pos_le_divide_eq pos_divide_less_eq mult.commute)

lemma round_scaled_bounds:
  assumes "x > 0"
  shows "2 ^ 52 \<le> round_even (x / 2 powi (ilog x - 52))" "round_even (x / 2 powi (ilog x - 52)) \<le> 2 ^ 53"
proof -
  have "round_even (of_int (2 ^ 52)) \<le> round_even (x / 2 powi (ilog x - 52))"
    using scaled_bounds [OF assms] by (intro round_even_mono) simp
  then show "2 ^ 52 \<le> round_even (x / 2 powi (ilog x - 52))" by (simp only: round_even_of_int)
  have "round_even (x / 2 powi (ilog x - 52)) \<le> round_even (of_int (2 ^ 53))"
    using scaled_bounds [OF assms] by (intro round_even_mono) simp
  then show "round_even (x / 2 powi (ilog x - 52)) \<le> 2 ^ 53" by (simp only: round_even_of_int)
qed

lemma fl_pos_bounds:
  assumes "x > 0"
  shows "2 powi ilog x \<le> fl_pos x" "fl_pos x \<le> 2 powi (ilog x + 1)"
proof -
  let ?r = "round_even (x / 2 powi (ilog x - 52))"
  have r: "(2 :: rat) ^ 52 \<le> of_int ?r" "of_int ?r \<le> (2 :: rat) ^ 53"
    using round_scaled_bounds [OF assms]
    by (metis of_int_le_iff of_int_numeral of_int_power)+
  have "2 ^ 52 * 2 powi (ilog x - 52) \<le> of_int ?r * (2 :: rat) powi (ilog x - 52)"
    using r(1) by (rule mult_right_mono) simp
  then show "2 powi ilog x \<le> fl_pos x"
    using powi_52 [of "ilog x"] by (simp only: fl_pos_def Let_def mult.commute [of "2 ^ 52"])
  have "of_int ?r * (2 :: rat) powi (ilog x - 52) \<le> 2 ^ 53 * 2 powi (ilog x - 52)"
    using r(2) by (rule mult_right_mono) simp
  then show "fl_pos x \<le> 2 powi (ilog x + 1)"
    using powi_53 [of "ilog x"] by (simp only: fl_pos_def Let_def mult.commute [of "2 ^ 53"])
qed

lemma fl_pos_pos: "x > 0 \<Longrightarrow> fl_pos x > 0"
  using fl_pos_bounds(1) [of x] by (rule less_le_trans [rotated]) simp_all

lemma fl_pos_mono:
  assumes "0 < x" "x \<le> y"
  shows "fl_pos x \<le> fl_pos y"
proof (cases "ilog x = ilog y")
  case True
  have "x / 2 powi (ilog y - 52) \<le> y / 2 powi (ilog y - 52)"
    using assms by (intro divide_right_mono) simp_all
  then show ?thesis
    unfolding fl_pos_def True Let_def
    by (intro mult_right_mono) (simp_all add: round_even_mono)
next
  case False
  then have "ilog x + 1 \<le> ilog y" using ilog_mono [OF assms] by simp
  then have "(2 :: rat) powi (ilog x + 1) \<le> 2 powi ilog y"
    by (intro power_int_increasing) simp_all
  then show ?thesis
    using fl_pos_bounds(2) [of x] fl_pos_bounds(1) [of y] assms by linarith
qed

lemma fl_0 [simp]: "fl 0 = 0"
  by (simp add: fl_def)

lemma fl_of_pos: "x > 0 \<Longrightarrow> fl x = fl_pos x"
  by (simp add: fl_def)

lemma fl_minus: "fl (- x) = - fl x"
  by (simp add: fl_def)

lemma fl_mono: "x \<le> y \<Longrightarrow> fl x \<le> fl y"
proof -
  assume le: "x \<le> y"
  consider "0 < x" | "x \<le> 0" "0 \<le> y" | "y < 0" by linarith
  then show ?thesis
  proof cases
    case 1
    with le show ?thesis by (simp add: fl_def fl_pos_mono)
  next
    case 2
    then show ?thesis
      using fl_pos_pos [of y] fl_pos_pos [of "- x"] by (auto simp: fl_def)
  next
    case 3
    with le fl_pos_mono [of "- y" "- x"] show ?thesis by (simp add: fl_def)
  qed
qed

lemma fl_pos_err:
  assumes "x > 0"
  shows "\<bar>fl_pos x - x\<bar> \<le> x / 2 ^ 53"
proof -
  let ?u = "2 powi (ilog x - 52) :: rat" and ?s = "x / 2 powi (ilog x - 52)"
  have "fl_pos x - x = (of_int (round_even ?s) - ?s) * ?u"
    by (simp add: fl_pos_def Let_def left_diff_distrib)
  then have "\<bar>fl_pos x - x\<bar> = \<bar>of_int (round_even ?s) - ?s\<bar> * ?u"
    by (simp add: abs_mult)
  also have "\<dots> \<le> 1/2 * ?u"
    using round_even_err [of ?s] by (intro mult_right_mono) simp_all
  also have "\<dots> = 2 powi ilog x / 2 ^ 53"
    using powi_52 [of "ilog x"] by (simp add: field_simps)
  also have "\<dots> \<le> x / 2 ^ 53"
    using ilog_bounds(1) [OF assms] by (intro divide_right_mono) simp_all
  finally show ?thesis .
qed

lemma fl_upper: "x > 0 \<Longrightarrow> fl x \<le> x + x / 2 ^ 53"
  and fl_lower: "x > 0 \<Longrightarrow> x - x / 2 ^ 53 \<le> fl x"
proof -
  assume "x > 0"
  then have "\<bar>fl x - x\<bar> \<le> x / 2 ^ 53"
    using fl_pos_err [of x] by (simp only: fl_of_pos)
  then show "fl x \<le> x + x / 2 ^ 53" "x - x / 2 ^ 53 \<le> fl x"
    unfolding abs_le_iff by linarith+
qed

section \<open>Representable values\<close>

definition f64_rep :: "rat \<Rightarrow> bool" where
  "f64_rep x \<longleftrightarrow> (\<exists>m e. 0 < m \<and> m \<le> 2 ^ 53 \<and> x = of_int m * 2 powi e)"

lemma f64_repI: "0 < m \<Longrightarrow> m \<le> 2 ^ 53 \<Longrightarrow> x = of_int m * 2 powi e \<Longrightarrow> f64_rep x"
  unfolding f64_rep_def by blast

lemma f64_rep_fl: "x > 0 \<Longrightarrow> f64_rep (fl x)"
  using round_scaled_bounds [of x]
  by (intro f64_repI [of "round_even (x / 2 powi (ilog x - 52))"]) (simp_all add: fl_of_pos fl_pos_def Let_def)

text \<open>Every representable value has a significand in \<open>[2 ^ 52, 2 ^ 53)\<close>.\<close>

lemma f64_rep_normal:
  assumes "f64_rep x"
  obtains m where "2 ^ 52 \<le> m" "m < 2 ^ 53" "x = of_int m * 2 powi (ilog x - 52)"
proof -
  obtain m e where m: "0 < m" "m \<le> 2 ^ 53" "x = of_int m * 2 powi e"
    using assms by (auto simp: f64_rep_def)
  then have pos: "x > 0" by simp
  have "of_int m \<le> (2 :: rat) ^ 53"
    using m(2) by (metis of_int_le_iff of_int_numeral of_int_power)
  then have "of_int m * 2 powi e \<le> 2 ^ 53 * (2 :: rat) powi e"
    by (intro mult_right_mono) simp_all
  then have xle: "x \<le> 2 powi (e + 53)"
    by (simp add: m(3) power_int_add mult.commute)
  show ?thesis
  proof (cases "x = 2 powi (e + 53)")
    case True
    then have "ilog x = e + 53" by (intro ilog_eqI) (simp_all add: power_int_add)
    then show ?thesis
      using that [of "2 ^ 52"] True powi_52 [of "e + 53"] by (simp add: mult.commute)
  next
    case False
    with xle have "x < 2 powi (e + 53)" by simp
    then have "(2 :: rat) powi ilog x < 2 powi (e + 53)"
      using ilog_bounds(1) [OF pos] by linarith
    then have k: "ilog x - 52 \<le> e" using powi2_less_D by fastforce
    define n where "n = m * 2 ^ nat (e - (ilog x - 52))"
    have "(2 :: rat) powi e = 2 ^ nat (e - (ilog x - 52)) * 2 powi (ilog x - 52)"
    proof -
      have "(2 :: rat) powi e = 2 powi ((e - (ilog x - 52)) + (ilog x - 52))" by simp
      also have "\<dots> = 2 powi (e - (ilog x - 52)) * 2 powi (ilog x - 52)"
        by (subst power_int_add) simp_all
      finally show ?thesis using k by (simp add: power_int_def)
    qed
    then have x: "x = of_int n * 2 powi (ilog x - 52)"
      by (simp add: m(3) n_def)
    then have "x / 2 powi (ilog x - 52) = of_int n" by (metis nonzero_mult_div_cancel_right
          power_int_not_zero zero_neq_numeral)
    then have "(2 :: rat) ^ 52 \<le> of_int n" "of_int n < (2 :: rat) ^ 53"
      using scaled_bounds [OF pos] by simp_all
    then have "2 ^ 52 \<le> n" "n < 2 ^ 53"
      by (metis of_int_le_iff of_int_less_iff of_int_numeral of_int_power)+
    with x that show ?thesis by blast
  qed
qed

lemma f64_rep_pos: "f64_rep x \<Longrightarrow> x > 0"
  by (auto simp: f64_rep_def)

lemma fl_rep: "f64_rep x \<Longrightarrow> fl x = x"
proof -
  assume a: "f64_rep x"
  then obtain m where m: "x = of_int m * 2 powi (ilog x - 52)" by (rule f64_rep_normal)
  have "x / 2 powi (ilog x - 52) = of_int m"
    by (subst m) simp
  then have "fl_pos x = of_int m * 2 powi (ilog x - 52)"
    by (simp add: fl_pos_def Let_def)
  with m show ?thesis using f64_rep_pos [OF a] by (simp add: fl_of_pos)
qed

lemma f64_rep_int: "0 < n \<Longrightarrow> n \<le> 2 ^ 53 \<Longrightarrow> f64_rep (of_int n)"
  by (rule f64_repI [of n _ 0]) simp_all

lemma fl_int: "0 \<le> n \<Longrightarrow> n \<le> 2 ^ 53 \<Longrightarrow> fl (of_int n) = of_int n"
  by (cases "n = 0") (simp_all add: fl_rep f64_rep_int)

text \<open>Two different representable values are a relative \<open>2 powi -53\<close> apart.\<close>

lemma f64_rep_gap:
  assumes "f64_rep x" "f64_rep y" "x < y"
  shows "x \<le> y - y / 2 ^ 53"
proof -
  obtain m where m: "2 ^ 52 \<le> m" "m < 2 ^ 53" "x = of_int m * 2 powi (ilog x - 52)"
    using assms(1) by (rule f64_rep_normal)
  obtain n where n: "2 ^ 52 \<le> n" "n < 2 ^ 53" "y = of_int n * 2 powi (ilog y - 52)"
    using assms(2) by (rule f64_rep_normal)
  have pos: "0 < x" "0 < y" using assms by (auto dest: f64_rep_pos)
  let ?u = "2 powi (ilog y - 52) :: rat"
  have yu: "y / 2 ^ 53 \<le> ?u"
    using scaled_bounds(2) [OF pos(2)] by (simp add: field_simps)
  show ?thesis
  proof (cases "ilog x = ilog y")
    case True
    then have x: "x = of_int m * ?u" using m(3) by simp
    then have "of_int m * ?u < of_int n * ?u" using n(3) assms(3) by simp
    then have "m < n" by simp
    then have "of_int m \<le> (of_int n - 1 :: rat)"
      by (metis of_int_1 of_int_diff of_int_le_iff zle_diff1_eq)
    then have "of_int m * ?u \<le> (of_int n - 1) * ?u" by (rule mult_right_mono) simp
    also have "(of_int n - 1) * ?u = of_int n * ?u - ?u" by (simp add: left_diff_distrib)
    also have "of_int n * ?u = y" using n(3) by simp
    finally have "x \<le> y - ?u" using x by simp
    with yu show ?thesis by linarith
  next
    case False
    then have lt: "ilog x + 1 \<le> ilog y" using ilog_mono [of x y] pos assms(3) by simp
    have "rat_of_int m \<le> rat_of_int (2 ^ 53 - 1)"
      using m(2) by (simp only: of_int_le_iff zle_diff1_eq)
    then have "of_int m \<le> (2 ^ 53 - 1 :: rat)" by simp
    then have "x \<le> (2 ^ 53 - 1) * 2 powi (ilog x - 52)"
      by (subst m(3)) (rule mult_right_mono, simp_all)
    also have "\<dots> = 2 powi (ilog x - 52) * 2 ^ 53 * (1 - 1 / 2 ^ 53)"
      by simp
    also have "\<dots> = 2 powi (ilog x + 1) * (1 - 1 / 2 ^ 53)"
      by (simp only: powi_53)
    also have "\<dots> \<le> 2 powi ilog y * (1 - 1 / 2 ^ 53)"
      using lt by (intro mult_right_mono power_int_increasing) simp_all
    also have "\<dots> \<le> y * (1 - 1 / 2 ^ 53)"
      using ilog_bounds(1) [OF pos(2)] by (intro mult_right_mono) simp_all
    finally show ?thesis by (simp add: right_diff_distrib)
  qed
qed

lemma f64_rep_powi: "f64_rep (2 powi k)"
  by (rule f64_repI [of 1 _ k]) simp_all

text \<open>A number closer to a representable one than half the gap below it rounds to it.\<close>

lemma fl_near:
  assumes y: "f64_rep y" and near: "\<bar>x - y\<bar> < y / 2 ^ 54"
  shows "fl x = y"
proof -
  have pos: "0 < y" using y by (rule f64_rep_pos)
  then have "y / 2 ^ 54 < y" by simp
  then have x: "0 < x" using near by linarith
  let ?u = "2 powi (ilog x - 52) :: rat"
  have up: "x < 2 powi (ilog x + 1)" and dn: "2 powi ilog x \<le> x"
    using ilog_bounds [OF x] by simp_all
  have half: "y / 2 ^ 54 \<le> y / 2 ^ 53" using pos by simp
  have eq: "fl x = y" if n: "y = of_int n * ?u" and le: "y \<le> 2 powi (ilog x + 1)" for n
  proof -
    have "y / 2 ^ 54 \<le> ?u / 2"
      using le powi_53 [of "ilog x"] by (simp add: field_simps)
    then have "\<bar>x - of_int n * ?u\<bar> < ?u / 2" using near n by linarith
    moreover have "x - of_int n * ?u = (x / ?u - of_int n) * ?u"
      by (simp add: left_diff_distrib)
    ultimately have "\<bar>x / ?u - of_int n\<bar> * ?u < 1/2 * ?u"
      by (simp add: abs_mult)
    then have "\<bar>x / ?u - of_int n\<bar> < 1/2"
      by (rule mult_right_less_imp_less) simp
    then have "round_even (x / ?u) = n" by (rule round_even_eqI)
    then show ?thesis using x n by (simp add: fl_of_pos fl_pos_def Let_def)
  qed
  consider "ilog y = ilog x" | "ilog y < ilog x" | "ilog x < ilog y" by linarith
  then show ?thesis
  proof cases
    case 1
    obtain n where "y = of_int n * ?u" using y 1 by (auto elim: f64_rep_normal)
    then show ?thesis using ilog_bounds(2) [OF pos] 1 by (intro eq) simp_all
  next
    case 2
    then have "(2 :: rat) powi (ilog y + 1) \<le> 2 powi ilog x"
      by (intro power_int_increasing) simp_all
    then have lt: "y < 2 powi ilog x" using ilog_bounds(2) [OF pos] by linarith
    have "y \<le> 2 powi ilog x - 2 powi ilog x / 2 ^ 53"
      using y f64_rep_powi lt by (rule f64_rep_gap)
    moreover have "y / 2 ^ 53 < 2 powi ilog x / 2 ^ 53"
      using lt by (rule divide_strict_right_mono) simp
    ultimately have False using near half dn by linarith
    then show ?thesis ..
  next
    case 3
    then have "(2 :: rat) powi (ilog x + 1) \<le> 2 powi ilog y"
      by (intro power_int_increasing) simp_all
    then have le: "2 powi (ilog x + 1) \<le> y" using ilog_bounds(1) [OF pos] by linarith
    show ?thesis
    proof (cases "y = 2 powi (ilog x + 1)")
      case True
      then show ?thesis
        using powi_53 [of "ilog x"] by (intro eq [of "2 ^ 53"]) (simp_all add: mult.commute)
    next
      case False
      with le have "2 powi (ilog x + 1) < y" by simp
      with f64_rep_powi y have "2 powi (ilog x + 1) \<le> y - y / 2 ^ 53"
        by (rule f64_rep_gap)
      then have False using near half up by linarith
      then show ?thesis ..
    qed
  qed
qed

end
