(* ===== verification/GRS_Location.thy ===== *)
theory GRS_Location
  imports Go_Float Go_Strconv
begin

text \<open>
  \<open>common-lib/types/location/location.go\<close>: regions, resource partitions, and the arc of the hash
  ring each location owns. \<open>init\<close> fills the arc table with two nested loops of floating-point
  additions; the lemmas show that none of them rounds, so that location \<open>(r, p)\<close> owns exactly
  the arc from \<open>40 r + p\<close> to \<open>40 r + p + 1\<close>.
\<close>

section \<open>Regions and partitions\<close>

type_synonym Region = int
type_synonym ResourcePartition = int

definition RingRange :: f64 where
  "RingRange = 360"

record Location =
  loc_region :: Region
  loc_partition :: ResourcePartition

lemma Location_eta [simp]: "\<lparr>loc_region = loc_region l, loc_partition = loc_partition l\<rparr> = l"
  by (cases l) simp

definition NewLocation :: "Region \<Rightarrow> ResourcePartition \<Rightarrow> Location" where
  "NewLocation region rp = \<lparr>loc_region = region, loc_partition = rp\<rparr>"

record arc =
  arc_lower :: f64
  arc_upper :: f64

definition regionToRegionName :: "(Region, string) gomap" where
  "regionToRegionName =
     [(0, ''Beijing''), (1, ''Shanghai''), (2, ''Wulan''), (3, ''Guizhou''), (4, ''Reserved1''),
      (5, ''Reserved2''), (6, ''Reserved3''), (7, ''Reserved4''), (8, ''Reserved5'')]"

definition regionNameToRegion :: "(string, Region) gomap" where
  "regionNameToRegion =
     [(''Beijing'', 0), (''Shanghai'', 1), (''Wulan'', 2), (''Guizhou'', 3), (''Reserved1'', 4),
      (''Reserved2'', 5), (''Reserved3'', 6), (''Reserved4'', 7), (''Reserved5'', 8)]"

text \<open>A lookup of a missing key yields the zero value, the empty string.\<close>

definition Region_String :: "Region \<Rightarrow> string" where
  "Region_String r = (case gm_get regionToRegionName r of Some s \<Rightarrow> s | None \<Rightarrow> '''')"

definition GetRegionFromRegionName :: "string \<Rightarrow> Region" where
  "GetRegionFromRegionName regionName =
     (case gm_get regionNameToRegion regionName of Some r \<Rightarrow> r | None \<Rightarrow> -1)"

definition ResourcePartitionMax :: nat where
  "ResourcePartitionMax = 40"

definition GetPartitionName :: "ResourcePartition \<Rightarrow> string" where
  "GetPartitionName rp = ''RP'' @ Itoa (rp + 1)"

definition GetPartitionFromPartitionName :: "string \<Rightarrow> ResourcePartition option" where
  "GetPartitionFromPartitionName partitionName =
     (let values = Split partitionName ''RP'' in
      if length values \<noteq> 2 \<or> values ! 0 \<noteq> '''' then None
      else case Atoi (values ! 1) of
             None \<Rightarrow> None
           | Some num \<Rightarrow>
               if num > int ResourcePartitionMax \<or> num < 1 then None else Some (num - 1))"

section \<open>Initialisation of the arc table\<close>

definition Regions :: "Region list" where
  "Regions = map int [0..<length regionToRegionName]"

definition ResourcePartitions :: "ResourcePartition list" where
  "ResourcePartitions = map int [0..<ResourcePartitionMax]"

definition GetRegionNum :: nat where
  "GetRegionNum = length Regions"

definition GetRPNum :: nat where
  "GetRPNum = length ResourcePartitions"

definition GetRPsForRegion :: "Region \<Rightarrow> ResourcePartition list" where
  "GetRPsForRegion region = map (\<lambda>i. ResourcePartitions ! i) [0..<length ResourcePartitions]"

text \<open>The inner loop of \<open>init\<close>: the last partition of a region ends where the region ends.\<close>

fun init_rps ::
  "bool \<Rightarrow> Region \<Rightarrow> f64 \<Rightarrow> f64 \<Rightarrow> ResourcePartition list \<Rightarrow> f64 \<Rightarrow> f64 \<Rightarrow>
     (Location, arc) gomap \<Rightarrow> (Location, arc) gomap" where
  "init_rps lastRegion region regionUpper rpGrain [] rpLower rpUpper m = m"
| "init_rps lastRegion region regionUpper rpGrain (rp # rps) rpLower rpUpper m =
     (let loc = \<lparr>loc_region = region, loc_partition = rp\<rparr> in
      if rps = [] then
        (if lastRegion then gm_put loc \<lparr>arc_lower = rpLower, arc_upper = RingRange\<rparr> m
         else gm_put loc \<lparr>arc_lower = rpLower, arc_upper = regionUpper\<rparr> m)
      else
        init_rps lastRegion region regionUpper rpGrain rps rpUpper (f64_add rpUpper rpGrain)
          (gm_put loc \<lparr>arc_lower = rpLower, arc_upper = rpUpper\<rparr> m))"

fun init_regions ::
  "f64 \<Rightarrow> Region list \<Rightarrow> f64 \<Rightarrow> f64 \<Rightarrow> (Location, arc) gomap \<Rightarrow> (Location, arc) gomap" where
  "init_regions regionGrain [] regionLower regionUpper m = m"
| "init_regions regionGrain (region # regions) regionLower regionUpper m =
     (let rps = GetRPsForRegion region;
          rpGrain = f64_div regionGrain (f64_of_int (int (length rps)));
          m' = init_rps (regions = []) region regionUpper rpGrain rps regionLower
                 (f64_add regionLower rpGrain) m
      in init_regions regionGrain regions regionUpper (f64_add regionUpper regionGrain) m')"

definition regionRPToArc :: "(Location, arc) gomap" where
  "regionRPToArc =
     (let regionGrain = f64_div RingRange (f64_of_int (int (length Regions)))
      in init_regions regionGrain Regions 0 regionGrain gm_empty)"

definition GetArcRangeFromLocation :: "Location \<Rightarrow> f64 \<times> f64" where
  "GetArcRangeFromLocation loc =
     (case gm_get regionRPToArc loc of
        Some a \<Rightarrow> (arc_lower a, arc_upper a)
      | None \<Rightarrow> (0, 0))"

definition Location_Equal :: "Location \<Rightarrow> Location \<Rightarrow> bool" where
  "Location_Equal loc locToCompare \<longleftrightarrow>
     loc_region loc = loc_region locToCompare \<and> loc_partition loc = loc_partition locToCompare"

definition ResourcePartition_String :: "ResourcePartition \<Rightarrow> string" where
  "ResourcePartition_String rp = GetPartitionName rp"

definition Location_GetRegion :: "Location \<Rightarrow> Region" where
  "Location_GetRegion loc = loc_region loc"

definition Location_GetResourcePartition :: "Location \<Rightarrow> ResourcePartition" where
  "Location_GetResourcePartition loc = loc_partition loc"

definition Location_String :: "Location \<Rightarrow> string" where
  "Location_String loc =
     ''[Region '' @ Region_String (loc_region loc) @ '', ResoucePartition '' @
     ResourcePartition_String (loc_partition loc) @ '']''"

section \<open>Names\<close>

lemma Regions_eq: "Regions = map int [0..<9]"
  by code_simp

lemma ResourcePartitions_eq: "ResourcePartitions = map int [0..<40]"
  by (simp add: ResourcePartitions_def ResourcePartitionMax_def)

lemma GetRegionNum_eq [simp]: "GetRegionNum = 9"
  by (simp add: GetRegionNum_def Regions_eq)

lemma GetRPNum_eq [simp]: "GetRPNum = 40"
  by (simp add: GetRPNum_def ResourcePartitions_eq)

lemma GetRPsForRegion_eq: "GetRPsForRegion region = map int [0..<40]"
  by (simp add: GetRPsForRegion_def ResourcePartitions_eq map_nth)

lemma region_names_inverse:
  "gm_get regionToRegionName r = Some s \<longleftrightarrow> gm_get regionNameToRegion s = Some r"
  by (auto simp: regionToRegionName_def regionNameToRegion_def gm_get_def split: if_splits)

lemma Split_partition_name:
  assumes "\<forall>c\<in>set ds. is_digit c"
  shows "Split (''RP'' @ ds) ''RP'' = [[], ds]"
proof -
  have "CHR ''R'' \<notin> set ds" using assms by auto
  then have "split_loop ''RP'' [] ds = [ds]" using split_loop_none [of "CHR ''R''" ds] by simp
  then show ?thesis by (simp add: Split_def split_loop.simps [of _ _ "_ # _"])
qed

lemma partition_name_roundtrip:
  assumes "0 \<le> rp" "rp < 40"
  shows "GetPartitionFromPartitionName (GetPartitionName rp) = Some rp"
proof -
  have name: "GetPartitionName rp = ''RP'' @ decimal (nat (rp + 1))"
    using assms by (simp add: GetPartitionName_def Itoa_def)
  have "Split (GetPartitionName rp) ''RP'' = [[], decimal (nat (rp + 1))]"
    unfolding name by (rule Split_partition_name) (simp add: decimal_digits)
  moreover have "Atoi (decimal (nat (rp + 1))) = Some (rp + 1)"
    using Atoi_decimal [of "nat (rp + 1)"] assms by simp
  ultimately show ?thesis
    using assms by (simp add: GetPartitionFromPartitionName_def ResourcePartitionMax_def)
qed

lemma partition_from_name_range:
  "GetPartitionFromPartitionName s = Some rp \<Longrightarrow> 0 \<le> rp \<and> rp < 40"
  by (auto simp: GetPartitionFromPartitionName_def ResourcePartitionMax_def Let_def
      split: if_splits option.splits)

section \<open>The arcs\<close>

definition valid_location :: "Location \<Rightarrow> bool" where
  "valid_location loc \<longleftrightarrow>
     0 \<le> loc_region loc \<and> loc_region loc < 9 \<and> 0 \<le> loc_partition loc \<and> loc_partition loc < 40"

definition loc_index :: "Location \<Rightarrow> int" where
  "loc_index loc = 40 * loc_region loc + loc_partition loc"

lemma f64_of_int_small: "0 \<le> n \<Longrightarrow> n \<le> 2 ^ 53 \<Longrightarrow> f64_of_int n = of_int n"
  by (simp add: f64_of_int_def fl_int)

lemma f64_add_int: "0 \<le> a + b \<Longrightarrow> a + b \<le> 2 ^ 53 \<Longrightarrow> f64_add (of_int a) (of_int b) = of_int (a + b)"
  unfolding f64_add_def of_int_add [symmetric] by (rule fl_int)

lemma init_rps_spec:
  assumes "rps = map int [j..<40]" "j < 40" "rpLower = of_int (b + int j)"
    "rpUpper = of_int (b + int j + 1)" "0 \<le> b" "b \<le> 320"
    "regionUpper = of_int (b + 40)" "lastRegion \<longrightarrow> b = 320"
  shows "gm_get (init_rps lastRegion region regionUpper 1 rps rpLower rpUpper m) loc =
    (if loc_region loc = region \<and> int j \<le> loc_partition loc \<and> loc_partition loc < 40
     then Some \<lparr>arc_lower = of_int (b + loc_partition loc), arc_upper = of_int (b + loc_partition loc + 1)\<rparr>
     else gm_get m loc)"
  using assms
proof (induction "40 - j" arbitrary: j rps rpLower rpUpper m)
  case 0
  then show ?case by simp
next
  case (Suc k)
  have rps: "rps = int j # map int [Suc j..<40]"
    using Suc.prems(1,2) by (simp add: upt_rec [of j])
  have loc_eq: "\<lparr>loc_region = region, loc_partition = p\<rparr> = loc \<longleftrightarrow> region = loc_region loc \<and> p = loc_partition loc"
    for p by (cases loc) auto
  show ?case
  proof (cases "j = 39")
    case True
    with Suc.prems show ?thesis
      by (cases "loc_partition loc = 39") (auto simp: rps gomap_simps RingRange_def loc_eq Let_def)
  next
    case False
    then have j: "Suc j < 40" using Suc.prems(2) by simp
    have ne: "map int [Suc j..<40] \<noteq> []" using j by simp
    have up: "f64_add rpUpper 1 = of_int (b + int (Suc j) + 1)"
      using f64_add_int [of "b + int j + 1" 1] Suc.prems j by simp
    have "gm_get (init_rps lastRegion region regionUpper 1 (map int [Suc j..<40]) rpUpper
        (f64_add rpUpper 1) m') loc =
      (if loc_region loc = region \<and> int (Suc j) \<le> loc_partition loc \<and> loc_partition loc < 40
       then Some \<lparr>arc_lower = of_int (b + loc_partition loc), arc_upper = of_int (b + loc_partition loc + 1)\<rparr>
       else gm_get m' loc)" for m'
      using Suc.hyps(2) Suc.prems j up by (intro Suc.hyps(1)) simp_all
    then show ?thesis
      using ne Suc.prems j
      by (cases "loc_partition loc = int j") (auto simp: rps gomap_simps loc_eq Let_def)
  qed
qed

lemma init_regions_spec:
  assumes "regions = map int [i..<9]" "i \<le> 9" "regionLower = of_int (40 * int i)"
    "regionUpper = of_int (40 * int i + 40)"
  shows "gm_get (init_regions 40 regions regionLower regionUpper m) loc =
    (if int i \<le> loc_region loc \<and> loc_region loc < 9 \<and> 0 \<le> loc_partition loc \<and> loc_partition loc < 40
     then Some \<lparr>arc_lower = of_int (loc_index loc), arc_upper = of_int (loc_index loc + 1)\<rparr>
     else gm_get m loc)"
  using assms
proof (induction "9 - i" arbitrary: i regions regionLower regionUpper m)
  case 0
  then show ?case by auto
next
  case (Suc k)
  then have i: "i < 9" by simp
  have rs: "regions = int i # map int [Suc i..<9]"
    using Suc.prems(1) i by (simp add: upt_rec [of i])
  have grain: "f64_div 40 (f64_of_int 40) = 1"
    by (simp add: f64_div_def f64_of_int_small fl_int [of 1, simplified])
  have lo: "f64_add regionLower 1 = of_int (40 * int i + int 0 + 1)"
    using f64_add_int [of "40 * int i" 1] Suc.prems i by simp
  have up: "f64_add regionUpper 40 = of_int (40 * int (Suc i) + 40)"
    using f64_add_int [of "40 * int i + 40" 40] Suc.prems i by (simp add: algebra_simps)
  let ?m = "init_rps (map int [Suc i..<9] = []) (int i) regionUpper 1 (map int [0..<40]) regionLower (f64_add regionLower 1) m"
  have inner: "gm_get ?m loc =
    (if loc_region loc = int i \<and> int 0 \<le> loc_partition loc \<and> loc_partition loc < 40
     then Some \<lparr>arc_lower = of_int (40 * int i + loc_partition loc), arc_upper = of_int (40 * int i + loc_partition loc + 1)\<rparr>
     else gm_get m loc)"
    using Suc.prems i lo by (intro init_rps_spec) auto
  have step: "init_regions 40 regions regionLower regionUpper m =
      init_regions 40 (map int [Suc i..<9]) regionUpper (f64_add regionUpper 40) ?m"
    by (simp add: rs GetRPsForRegion_eq grain Let_def)
  have "gm_get (init_regions 40 regions regionLower regionUpper m) loc =
    (if int (Suc i) \<le> loc_region loc \<and> loc_region loc < 9 \<and> 0 \<le> loc_partition loc \<and> loc_partition loc < 40
     then Some \<lparr>arc_lower = of_int (loc_index loc), arc_upper = of_int (loc_index loc + 1)\<rparr>
     else gm_get ?m loc)"
    unfolding step using Suc.hyps(2) Suc.prems i up by (intro Suc.hyps(1)) simp_all
  with inner i show ?case by (auto simp: loc_index_def)
qed

theorem arc_table:
  "gm_get regionRPToArc loc =
    (if valid_location loc
     then Some \<lparr>arc_lower = of_int (loc_index loc), arc_upper = of_int (loc_index loc + 1)\<rparr> else None)"
proof -
  have "f64_div RingRange (f64_of_int (int (length Regions))) = 40"
    using f64_of_int_small [of 9] fl_int [of 40]
    by (simp add: f64_div_def RingRange_def Regions_eq)
  then show ?thesis
    using init_regions_spec [of Regions 0 0 40 gm_empty loc]
    by (simp add: regionRPToArc_def Regions_eq valid_location_def)
qed

lemma arc_range:
  "valid_location loc \<Longrightarrow> GetArcRangeFromLocation loc = (of_int (loc_index loc), of_int (loc_index loc + 1))"
  by (simp add: GetArcRangeFromLocation_def arc_table)

lemma arc_range_invalid: "\<not> valid_location loc \<Longrightarrow> GetArcRangeFromLocation loc = (0, 0)"
  by (simp add: GetArcRangeFromLocation_def arc_table)

lemma loc_index_bounds: "valid_location loc \<Longrightarrow> 0 \<le> loc_index loc \<and> loc_index loc < 360"
  by (auto simp: valid_location_def loc_index_def)

lemma loc_index_inj:
  assumes "valid_location l" "valid_location l'" "loc_index l = loc_index l'"
  shows "l = l'"
proof -
  have "loc_region l = loc_index l div 40" "loc_partition l = loc_index l mod 40"
    "loc_region l' = loc_index l' div 40" "loc_partition l' = loc_index l' mod 40"
    using assms(1,2) by (simp_all add: valid_location_def loc_index_def)
  with assms(3) show ?thesis by simp
qed

end
