(* ===== verification/GRS_Types.thy ===== *)
theory GRS_Types
  imports GRS_Location
begin

text \<open>
  The data the components exchange (\<open>common-lib/types\<close>, \<open>common-lib/interfaces/store\<close>): logical
  nodes, clients, resource versions and the maps from locations to them, and the errors the
  operations return. Times are nanoseconds since Go's zero \<open>time.Time\<close>, so the zero value is 0.
\<close>

type_synonym go_time = int

section \<open>Errors\<close>

text \<open>
  The sentinel errors of \<open>types/errors.go\<close>, errors made with \<open>errors.New\<close> or \<open>fmt.Errorf\<close>
  (by their text), and a run-time panic, which ends the process.
\<close>

datatype GoError =
    Error_HostRequestExceedLimit
  | Error_HostRequestExceedCapacity
  | Error_HostRequestLessThanMiniaml
  | Error_ClientIdExisted
  | Error_FailedToProcessBookmarkEvent
  | Error_EndOfEventQueue
  | Error_ObjectNotFound
  | ErrorText string
  | Panicked go_panic

type_synonym 'a result = "GoError + 'a"

section \<open>Logical nodes\<close>

record NodeGeoInfo =
  geo_Region :: int
  geo_ResourcePartition :: int
  geo_DataCenter :: string
  geo_AvailabilityZone :: string
  geo_FaultDomain :: string

record NodeTaints =
  NoSchedule :: bool
  NoExecute :: bool

record NodeSpecialHardWareTypeInfo =
  HasGpu :: bool
  HasFPGA :: bool

record NodeResource =
  MilliCPU :: int
  Memory :: int
  EphemeralStorage :: int
  AllowedPodNumber :: int
  ScalarResources :: "(string, int) gomap"

record LogicalNode =
  node_Id :: string
  node_ResourceVersion :: string
  node_GeoInfo :: NodeGeoInfo
  node_Taints :: NodeTaints
  node_SpecialHardwareTypes :: NodeSpecialHardWareTypeInfo
  node_AllocatableResource :: NodeResource
  node_Conditions :: "8 word"
  node_Reserved :: bool
  node_MachineType :: string
  node_LastUpdatedTime :: go_time

text \<open>The zero value of the struct, \<open>&types.LogicalNode{}\<close>.\<close>

definition zero_node :: LogicalNode where
  "zero_node =
     \<lparr>node_Id = '''', node_ResourceVersion = '''',
      node_GeoInfo = \<lparr>geo_Region = 0, geo_ResourcePartition = 0, geo_DataCenter = '''',
                      geo_AvailabilityZone = '''', geo_FaultDomain = ''''\<rparr>,
      node_Taints = \<lparr>NoSchedule = False, NoExecute = False\<rparr>,
      node_SpecialHardwareTypes = \<lparr>HasGpu = False, HasFPGA = False\<rparr>,
      node_AllocatableResource = \<lparr>MilliCPU = 0, Memory = 0, EphemeralStorage = 0,
                                  AllowedPodNumber = 0, ScalarResources = []\<rparr>,
      node_Conditions = 0, node_Reserved = False, node_MachineType = '''', node_LastUpdatedTime = 0\<rparr>"

definition LogicalNode_Copy :: "LogicalNode \<Rightarrow> LogicalNode" where
  "LogicalNode_Copy n =
     \<lparr>node_Id = node_Id n, node_ResourceVersion = node_ResourceVersion n,
      node_GeoInfo = node_GeoInfo n, node_Taints = node_Taints n,
      node_SpecialHardwareTypes = node_SpecialHardwareTypes n,
      node_AllocatableResource = node_AllocatableResource n,
      node_Conditions = node_Conditions n, node_Reserved = node_Reserved n,
      node_MachineType = node_MachineType n, node_LastUpdatedTime = node_LastUpdatedTime n\<rparr>"

lemma LogicalNode_Copy_id [simp]: "LogicalNode_Copy n = n"
  by (simp add: LogicalNode_Copy_def)

definition GetResourceVersionInt64 :: "LogicalNode \<Rightarrow> uint64" where
  "GetResourceVersionInt64 n =
     (case ParseUint (node_ResourceVersion n) of None \<Rightarrow> 0 | Some rv \<Rightarrow> rv)"

definition PreserveNode_KeyPrefix :: string where
  "PreserveNode_KeyPrefix = ''MinNode''"

text \<open>\<open>GetKey\<close> is also called on a nil pointer, which is \<open>None\<close>.\<close>

definition LogicalNode_GetKey :: "LogicalNode option \<Rightarrow> string" where
  "LogicalNode_GetKey np =
     (case np of
        Some n \<Rightarrow> PreserveNode_KeyPrefix @ ''.'' @ node_Id n @ ''.'' @
                 Itoa (geo_Region (node_GeoInfo n)) @ ''.'' @
                 Itoa (geo_ResourcePartition (node_GeoInfo n))
      | None \<Rightarrow> '''')"

section \<open>Clients\<close>

record ResourcePerRegion =
  RegionName :: string
  Machines :: "(string, int) gomap"
  SpecialHardwareMachines :: "(string, int) gomap"

record ResourceRequest =
  TotalMachines :: int
  RequestInRegions :: "ResourcePerRegion list"

record ClientInfoType =
  ClientName :: string
  ci_Region :: string

record Client =
  ClientId :: string
  ClientInfo :: ClientInfoType
  Resource :: ResourceRequest

definition MaxTotalMachinesPerRequest :: int where
  "MaxTotalMachinesPerRequest = 50000"

definition MinTotalMachinesPerRequest :: int where
  "MinTotalMachinesPerRequest = 1000"

section \<open>Resource versions\<close>

record RvLocation =
  rv_Region :: Region
  rv_Partition :: ResourcePartition

lemma RvLocation_eta [simp]: "\<lparr>rv_Region = rv_Region l, rv_Partition = rv_Partition l\<rparr> = l"
  by (cases l) simp

type_synonym TransitResourceVersionMap = "(RvLocation, uint64) gomap"
type_synonym InternalResourceVersionMap = "(Location, uint64) gomap"

definition ConvertToInternalResourceVersionMap ::
  "((RvLocation \<times> uint64) list \<Rightarrow> (RvLocation \<times> uint64) list) \<Rightarrow>
     TransitResourceVersionMap \<Rightarrow> InternalResourceVersionMap" where
  "ConvertToInternalResourceVersionMap ord rvs =
     fold (\<lambda>kv. gm_put (NewLocation (rv_Region (fst kv)) (rv_Partition (fst kv))) (snd kv))
       (ord rvs) gm_empty"

definition ResourceVersionMap_Copy ::
  "((RvLocation \<times> uint64) list \<Rightarrow> (RvLocation \<times> uint64) list) \<Rightarrow>
     TransitResourceVersionMap \<Rightarrow> TransitResourceVersionMap" where
  "ResourceVersionMap_Copy ord rvs = fold (\<lambda>kv. gm_put (fst kv) (snd kv)) (ord rvs) gm_empty"

text \<open>
  The loop body that keeps the larger resource version of a location, in \<open>SnapShot\<close> and
  in \<open>ListNodesForClient\<close>.
\<close>

definition keep_newest_rv :: "RvLocation \<Rightarrow> uint64 \<Rightarrow> TransitResourceVersionMap \<Rightarrow> TransitResourceVersionMap" where
  "keep_newest_rv l newRV rvs =
     (case gm_get rvs l of
        Some lastRV \<Rightarrow> (if lastRV < newRV then gm_put l newRV rvs else rvs)
      | None \<Rightarrow> gm_put l newRV rvs)"

lemma keep_newest_rv_get [gomap_simps]:
  "gm_get (keep_newest_rv l rv m) l' =
     (if l' = l then Some (case gm_get m l of Some old \<Rightarrow> max old rv | None \<Rightarrow> rv) else gm_get m l')"
  by (auto simp: keep_newest_rv_def gomap_simps max_def split: option.splits)

lemma keep_newest_rv_wf [simp]: "gm_wf m \<Longrightarrow> gm_wf (keep_newest_rv l rv m)"
  by (simp add: keep_newest_rv_def split: option.splits)

text \<open>The map that the loop computes: the maximum of the versions seen for each location.\<close>

lemma keep_newest_rv_fold:
  "gm_get (fold (\<lambda>(l, rv). keep_newest_rv l rv) xs m) l =
     (let vs = [rv. (l', rv) \<leftarrow> xs, l' = l] in
      case gm_get m l of
        Some old \<Rightarrow> Some (fold max vs old)
      | None \<Rightarrow> (case vs of [] \<Rightarrow> None | v # vs' \<Rightarrow> Some (fold max vs' v)))"
proof (induction xs arbitrary: m)
  case Nil
  then show ?case by (simp split: option.splits)
next
  case (Cons x xs)
  obtain l' rv where x: "x = (l', rv)" by (cases x)
  show ?case
    by (simp add: x Cons.IH keep_newest_rv_get Let_def max.commute split: option.splits)
qed

lemma fold_max_Max: "fold max vs (v :: 'a :: linorder) = Max (insert v (set vs))"
  using Max.set_eq_fold [of v vs] by simp

lemma rv_copy_get:
  assumes "gm_wf rvs" "range_order ord"
  shows "gm_get (ResourceVersionMap_Copy ord rvs) l = gm_get rvs l"
proof (cases "gm_get rvs l")
  case None
  then have "l \<notin> fst ` set (ord rvs)"
    using assms by (auto simp: gm_in_iff)
  then show ?thesis
    using None gm.lookup_fold_other [of l fst "ord rvs" snd gm_empty]
    by (simp add: ResourceVersionMap_Copy_def)
next
  case (Some v)
  then have "(l, v) \<in> set (ord rvs)" "distinct (map fst (ord rvs))"
    using assms range_order_wf [of ord rvs] by (auto simp: gm_in_iff gm_wf_def)
  then show ?thesis
    using Some gm.lookup_fold_unique [of "(l, v)" "ord rvs" fst snd gm_empty]
    by (simp add: ResourceVersionMap_Copy_def)
qed

lemma convert_get:
  assumes "gm_wf rvs" "range_order ord"
  shows "gm_get (ConvertToInternalResourceVersionMap ord rvs) loc =
    gm_get rvs \<lparr>rv_Region = loc_region loc, rv_Partition = loc_partition loc\<rparr>" (is "_ = gm_get rvs ?l")
proof -
  let ?f = "\<lambda>kv :: RvLocation \<times> uint64. NewLocation (rv_Region (fst kv)) (rv_Partition (fst kv))"
  have "distinct (map fst (ord rvs))"
    using assms range_order_wf [of ord rvs] by (simp add: gm_wf_def)
  then have "distinct (map ?f (ord rvs))"
    by (simp add: distinct_map inj_on_def NewLocation_def)
  then show ?thesis
  proof (cases "gm_get rvs ?l")
    case None
    then have "loc \<notin> ?f ` set (ord rvs)"
      using assms by (auto simp: image_iff gm_in_iff NewLocation_def)
    then show ?thesis
      using None gm.lookup_fold_other [of loc ?f "ord rvs" snd gm_empty]
      by (simp add: ConvertToInternalResourceVersionMap_def)
  next
    case (Some v)
    then have "(?l, v) \<in> set (ord rvs)" using assms by (simp add: gm_in_iff)
    then show ?thesis
      using Some \<open>distinct (map ?f (ord rvs))\<close> gm.lookup_fold_unique [of "(?l, v)" "ord rvs" ?f snd gm_empty]
      by (simp add: ConvertToInternalResourceVersionMap_def NewLocation_def)
  qed
qed

section \<open>What is persisted\<close>

record NodeStoreStatus =
  ss_RegionNum :: nat
  ss_PartitionMaxNum :: nat
  ss_VirtualNodeNumPerRP :: nat
  ss_CurrentResourceVerions :: TransitResourceVersionMap

record VirtualNodeConfig =
  vc_Lowerbound :: f64
  vc_Upperbound :: f64
  vc_Location :: Location

record VirtualNodeAssignment =
  va_ClientId :: string
  va_VirtualNodes :: "VirtualNodeConfig list"

definition NodeStoreStatus_GetKey :: string where
  "NodeStoreStatus_GetKey = ''NodeStoreStatus''"

definition VirtualNodeAssignment_GetKey :: string where
  "VirtualNodeAssignment_GetKey = ''VirtualNodesAssignments''"

definition Preserve_Client_KeyPrefix :: string where
  "Preserve_Client_KeyPrefix = ''Client''"

end
