(* ===== verification/GRS_Metrics.thy ===== *)
theory GRS_Metrics
  imports GRS_Types
begin

text \<open>
  \<open>common-lib/metrics\<close> and \<open>common-lib/types/event\<close>: the checkpoints stamped on an event, the
  latency collections they feed, and the percentile summary. \<open>sort.Sort\<close> is any function that
  returns a sorted permutation; on latencies (plain numbers) that is \<open>sort\<close>. The
  index of a percentile is computed in \<open>float64\<close>; \<open>percentile_index\<close> shows it is the exact
  ceiling.
\<close>

section \<open>Latencies\<close>

type_synonym duration = int

text \<open>\<open>time.Time.Sub\<close> saturates at the bounds of \<open>time.Duration\<close>, an \<open>int64\<close>.\<close>

definition time_Sub :: "go_time \<Rightarrow> go_time \<Rightarrow> duration" where
  "time_Sub t u = max (- (2 ^ 63)) (min (2 ^ 63 - 1) (t - u))"

record LatencyReport =
  TotalCount :: nat
  P50 :: duration
  P90 :: duration
  P99 :: duration

record LatencyMetrics =
  lm_value :: int
  latencies :: "duration list"

definition NewLatencyMetrics :: "int \<Rightarrow> LatencyMetrics" where
  "NewLatencyMetrics v = \<lparr>lm_value = v, latencies = []\<rparr>"

definition AddLatencyMetrics :: "duration \<Rightarrow> LatencyMetrics \<Rightarrow> LatencyMetrics" where
  "AddLatencyMetrics newLatency m = m\<lparr>latencies := latencies m @ [newLatency]\<rparr>"

definition LatencyMetrics_Len :: "LatencyMetrics \<Rightarrow> nat" where
  "LatencyMetrics_Len m = length (latencies m)"

text \<open>\<open>int(math.Ceil(float64(count*p)/100))-1\<close>\<close>

definition percentile_pos :: "nat \<Rightarrow> nat \<Rightarrow> int" where
  "percentile_pos n p = \<lceil>f64_div (f64_of_int (int (n * p))) 100\<rceil> - 1"

text \<open>\<open>GetSummary\<close> sorts the collection in place and reads three of its elements.\<close>

definition GetSummary :: "LatencyMetrics \<Rightarrow> LatencyReport \<times> LatencyMetrics" where
  "GetSummary m =
     (let m' = m\<lparr>latencies := sort (latencies m)\<rparr>;
          n = length (latencies m');
          perc = (\<lambda>p. latencies m' ! nat (percentile_pos n p))
      in if n = 0 then (\<lparr>TotalCount = n, P50 = 0, P90 = 0, P99 = 0\<rparr>, m')
         else (\<lparr>TotalCount = n, P50 = perc 50, P90 = perc 90, P99 = perc 99\<rparr>, m'))"

lemma ceiling_fl_int:
  assumes c: "0 < c" "c \<le> 2 ^ 40"
  shows "\<lceil>fl (of_int c / 100)\<rceil> = \<lceil>of_int c / (100 :: rat)\<rceil>"
proof -
  define x where "x = of_int c / (100 :: rat)"
  define n where "n = \<lceil>x\<rceil>"
  have x0: "0 < x" using c by (simp add: x_def)
  have "rat_of_int c \<le> rat_of_int (2 ^ 40)" using c(2) by (simp only: of_int_le_iff)
  then have xb: "100 * x \<le> 2 ^ 40" by (simp add: x_def)
  have hi: "x \<le> of_int n" and lo: "of_int n < x + 1" unfolding n_def by linarith+
  have n0: "0 < n" using x0 by (simp add: n_def)
  have "of_int n < (2 ^ 40 :: rat)" using lo xb by simp
  then have "rat_of_int n \<le> rat_of_int (2 ^ 53)" by simp
  then have nb: "n \<le> 2 ^ 53" by (simp only: of_int_le_iff)
  have "fl x \<le> fl (of_int n)" using hi by (rule fl_mono)
  then have up: "fl x \<le> of_int n" using n0 nb by (simp add: fl_int)
  have "of_int (100 * (n - 1)) < (of_int c :: rat)" using lo by (simp add: x_def)
  then have "100 * (n - 1) + 1 \<le> c" by (simp only: of_int_less_iff)
  then have "of_int (100 * (n - 1) + 1) \<le> (of_int c :: rat)" by (simp only: of_int_le_iff)
  then have gap: "of_int n - 1 + 1 / 100 \<le> x" by (simp add: x_def)
  have "x / 2 ^ 53 < 1 / 100" using xb by simp
  then have "of_int n - 1 < fl x" using gap fl_lower [OF x0] by linarith
  with up have "\<lceil>fl x\<rceil> = n" by (simp add: ceiling_unique)
  then show ?thesis by (simp add: n_def x_def)
qed

text \<open>Bounds of the index, as the ceiling of the exact quotient gives them.\<close>

lemma percentile_pos_exact:
  assumes "0 < n" "n \<le> 2 ^ 32" "0 < p" "p \<le> 100"
  shows "percentile_pos n p = (int n * int p + 99) div 100 - 1"
proof -
  have "n * p \<le> 2 ^ 32 * 100"
    using assms(2,4) by (rule mult_le_mono)
  then have "n * p \<le> 2 ^ 40" by simp
  then have b: "int (n * p) \<le> 2 ^ 40" by (metis of_nat_le_iff of_nat_numeral of_nat_power)
  have pos: "0 < int (n * p)" using assms by simp
  have "int (n * p) \<le> 2 ^ 53" using b by (rule order.trans) simp
  then have "fl (of_int (int (n * p))) = of_int (int (n * p))"
    by (rule fl_int [OF less_imp_le [OF pos]])
  then have "percentile_pos n p = \<lceil>of_int (int (n * p)) / (100 :: rat)\<rceil> - 1"
    unfolding percentile_pos_def f64_div_def f64_of_int_def using ceiling_fl_int [OF pos b] by simp
  also have "\<lceil>of_int (int (n * p)) / (100 :: rat)\<rceil> = (int n * int p + 99) div 100"
    using ceiling_divide_eq_div [of "int n * int p" 100, where ?'a = rat] by simp
  finally show ?thesis .
qed

lemma percentile_pos_range:
  assumes "0 < n" "n \<le> 2 ^ 32" "0 < p" "p \<le> 100"
  shows "0 \<le> percentile_pos n p" "percentile_pos n p < int n"
proof -
  have "1 * 1 \<le> int n * int p" using assms by (intro mult_mono) simp_all
  then show "0 \<le> percentile_pos n p"
    using assms by (simp add: percentile_pos_exact)
  have "int n * int p \<le> int n * 100" using assms by (intro mult_left_mono) simp_all
  then have "(int n * int p + 99) div 100 \<le> int n" by linarith
  then show "percentile_pos n p < int n"
    using assms by (simp add: percentile_pos_exact)
qed

lemma sort_Nil_iff [simp]: "sort xs = [] \<longleftrightarrow> xs = []"
  by (metis length_0_conv length_sort)

lemma GetSummary_sorts:
  "sorted (latencies (snd (GetSummary m))) \<and> mset (latencies (snd (GetSummary m))) = mset (latencies m)"
  by (simp add: GetSummary_def Let_def)

text \<open>
  The element read for percentile \<open>p\<close> is the smallest recorded latency such that at least
  \<open>p\<close> percent of the records are not larger.
\<close>

definition nearest_rank :: "duration list \<Rightarrow> nat \<Rightarrow> duration" where
  "nearest_rank xs p = sort xs ! (nat ((int (length xs) * int p + 99) div 100) - 1)"

lemma sorted_count_le:
  assumes "sorted xs" "k < length xs"
  shows "Suc k \<le> length (filter (\<lambda>y. y \<le> xs ! k) xs)"
proof -
  have "\<forall>y\<in>set (take (Suc k) xs). y \<le> xs ! k"
    using assms by (auto simp: in_set_conv_nth sorted_iff_nth_mono less_Suc_eq_le)
  then have "length (filter (\<lambda>y. y \<le> xs ! k) (take (Suc k) xs)) = Suc k"
    using assms(2) by simp
  then show ?thesis
    by (metis append_take_drop_id filter_append le_add1 length_append)
qed

lemma sorted_count_less:
  assumes "sorted xs" "k < length xs"
  shows "length (filter (\<lambda>y. y < xs ! k) xs) \<le> k"
proof -
  have "\<forall>y\<in>set (drop k xs). \<not> y < xs ! k"
    using assms by (auto simp: in_set_conv_nth sorted_iff_nth_mono not_less)
  then have "filter (\<lambda>y. y < xs ! k) (drop k xs) = []" by simp
  then have "filter (\<lambda>y. y < xs ! k) xs = filter (\<lambda>y. y < xs ! k) (take k xs)"
    by (metis append_Nil2 append_take_drop_id filter_append)
  then show ?thesis
    by (metis le_trans length_filter_le length_take min.cobounded2)
qed

lemma ceiling_hundredths:
  fixes q n :: nat
  assumes "0 < q" "q \<le> 100 * n"
  shows "(q + 99) div 100 - 1 < n" "q \<le> 100 * Suc ((q + 99) div 100 - 1)"
    "100 * ((q + 99) div 100 - 1) < q"
proof -
  define d where "d = (q + 99) div 100"
  have "100 * d \<le> q + 99" "q + 99 < 100 * d + 100"
    using div_mult_mod_eq [of "q + 99" 100] mod_less_divisor [of 100 "q + 99"]
    unfolding d_def by linarith+
  then have "1 \<le> d" "100 * d \<le> q + 99" "q + 99 < 100 * d + 100"
    using assms by simp_all
  moreover obtain k where "d = Suc k" using \<open>1 \<le> d\<close> by (cases d) simp_all
  ultimately show "(q + 99) div 100 - 1 < n" "q \<le> 100 * Suc ((q + 99) div 100 - 1)"
    "100 * ((q + 99) div 100 - 1) < q"
    using assms unfolding d_def [symmetric] by simp_all
qed

lemma nearest_rank_spec:
  assumes "xs \<noteq> []" "0 < p" "p \<le> 100"
  shows "length xs * p \<le> 100 * length (filter (\<lambda>y. y \<le> nearest_rank xs p) xs)"
    and "100 * length (filter (\<lambda>y. y < nearest_rank xs p) xs) < length xs * p"
proof -
  let ?n = "length xs" and ?k = "nat ((int (length xs) * int p + 99) div 100) - 1"
  define q where "q = ?n * p"
  have q: "0 < q" "q \<le> 100 * ?n" using assms by (simp_all add: q_def)
  have "int ?n * int p + 99 = int (q + 99)" by (simp add: q_def)
  then have "(int ?n * int p + 99) div 100 = int ((q + 99) div 100)" by (simp add: zdiv_int)
  then have K: "?k = (q + 99) div 100 - 1" by simp
  define k where "k = ?k"
  have k: "k < ?n" "q \<le> 100 * Suc k" "100 * k < q"
    unfolding k_def K using ceiling_hundredths [OF q] by blast+
  have nr: "nearest_rank xs p = sort xs ! k" by (simp add: nearest_rank_def k_def)
  have f: "length (filter P (sort xs)) = length (filter P xs)" for P
    by (metis mset_filter mset_sort size_mset)
  have "Suc k \<le> length (filter (\<lambda>y. y \<le> sort xs ! k) xs)"
    using sorted_count_le [of "sort xs" k] k(1) unfolding f length_sort by simp
  then show "?n * p \<le> 100 * length (filter (\<lambda>y. y \<le> nearest_rank xs p) xs)"
    using k(2) unfolding nr q_def [symmetric] by simp
  have "length (filter (\<lambda>y. y < sort xs ! k) xs) \<le> k"
    using sorted_count_less [of "sort xs" k] k(1) unfolding f length_sort by simp
  then show "100 * length (filter (\<lambda>y. y < nearest_rank xs p) xs) < ?n * p"
    using k(3) unfolding nr q_def [symmetric] by simp
qed

lemma nat_pred: "nat (i - 1) = nat i - 1"
  by (cases "0 < i") simp_all

lemma GetSummary_report:
  assumes "latencies m \<noteq> []" "length (latencies m) \<le> 2 ^ 32"
  shows "fst (GetSummary m) =
    \<lparr>TotalCount = length (latencies m), P50 = nearest_rank (latencies m) 50,
     P90 = nearest_rank (latencies m) 90, P99 = nearest_rank (latencies m) 99\<rparr>"
proof -
  have n: "0 < length (latencies m)" using assms(1) by simp
  have eq: "sort (latencies m) ! nat (percentile_pos (length (latencies m)) p) = nearest_rank (latencies m) p"
    if "0 < p" "p \<le> 100" for p
    unfolding nearest_rank_def percentile_pos_exact [OF n assms(2) that] by (simp add: nat_pred)
  have "\<not> length (sort (latencies m)) = 0" using assms(1) by simp
  then show ?thesis
    unfolding GetSummary_def Let_def using eq [of 50] eq [of 90] eq [of 99] by simp
qed

end
