(* ===== verification/GRS_Event.thy ===== *)
theory GRS_Event
  imports GRS_Metrics
begin

text \<open>
  \<open>common-lib/types/event\<close>: node events, the checkpoints stamped on them as they travel through
  the service, and the latency collections filled from the checkpoints. The clock is an argument,
  the switch \<open>ResourceManagementMeasurement_Enabled\<close> too. An empty list of checkpoints is the nil
  slice (\<open>make\<close> always allocates six).
\<close>

section \<open>Events\<close>

type_synonym EventType = string

definition Added :: EventType where "Added = ''ADDED''"
definition Modified :: EventType where "Modified = ''MODIFIED''"
definition Deleted :: EventType where "Deleted = ''DELETED''"
definition Bookmark :: EventType where "Bookmark = ''BOOKMARK''"
definition EventError :: EventType where "EventError = ''ERROR''"

lemmas event_types = Added_def Modified_def Deleted_def Bookmark_def EventError_def

definition Len_ResourceManagementCheckpoint :: nat where
  "Len_ResourceManagementCheckpoint = 6"

text \<open>The checkpoints, in the order of their numbers.\<close>

datatype Checkpoint =
    Aggregator_Received
  | Distributor_Received
  | Distributor_Sending
  | Distributor_Sent
  | Serializer_Encoded
  | Serializer_Sent

fun checkpoint_no :: "Checkpoint \<Rightarrow> nat" where
  "checkpoint_no Aggregator_Received = 0"
| "checkpoint_no Distributor_Received = 1"
| "checkpoint_no Distributor_Sending = 2"
| "checkpoint_no Distributor_Sent = 3"
| "checkpoint_no Serializer_Encoded = 4"
| "checkpoint_no Serializer_Sent = 5"

lemma checkpoint_no_inj: "checkpoint_no a = checkpoint_no b \<longleftrightarrow> a = b"
  by (cases a; cases b) simp_all

lemma checkpoint_no_bound [simp]: "checkpoint_no c < Len_ResourceManagementCheckpoint"
  by (cases c) (simp_all add: Len_ResourceManagementCheckpoint_def)

text \<open>The constants are integers in the code and compare as such.\<close>

instantiation Checkpoint :: linorder
begin

definition less_eq_Checkpoint :: "Checkpoint \<Rightarrow> Checkpoint \<Rightarrow> bool" where
  "less_eq_Checkpoint a b \<longleftrightarrow> checkpoint_no a \<le> checkpoint_no b"

definition less_Checkpoint :: "Checkpoint \<Rightarrow> Checkpoint \<Rightarrow> bool" where
  "less_Checkpoint a b \<longleftrightarrow> checkpoint_no a < checkpoint_no b"

instance
  by standard (auto simp: less_eq_Checkpoint_def less_Checkpoint_def checkpoint_no_inj)

end

record NodeEvent =
  ne_Type :: EventType
  ne_Node :: LogicalNode
  ne_checkpoints :: "go_time list"

definition NewNodeEvent :: "LogicalNode \<Rightarrow> EventType \<Rightarrow> NodeEvent" where
  "NewNodeEvent n eventType =
     \<lparr>ne_Type = eventType, ne_Node = n, ne_checkpoints = replicate Len_ResourceManagementCheckpoint 0\<rparr>"

definition SetCheckpoint :: "bool \<Rightarrow> go_time \<Rightarrow> Checkpoint \<Rightarrow> NodeEvent \<Rightarrow> NodeEvent" where
  "SetCheckpoint enabled now cp e =
     (if \<not> enabled then e
      else
        let cps = (if ne_checkpoints e = [] then replicate Len_ResourceManagementCheckpoint 0
                   else ne_checkpoints e)
        in e\<lparr>ne_checkpoints := cps[checkpoint_no cp := now]\<rparr>)"

lemma SetCheckpoint_frame [simp]:
  "ne_Type (SetCheckpoint b t c e) = ne_Type e" "ne_Node (SetCheckpoint b t c e) = ne_Node e"
  by (simp_all add: SetCheckpoint_def Let_def)

section \<open>Latency metrics of the checkpoints\<close>

type_synonym LatencyMetricsAllCheckpoints = "Checkpoint \<Rightarrow> LatencyMetrics"

definition init_latency_metrics :: LatencyMetricsAllCheckpoints where
  "init_latency_metrics = (\<lambda>c. NewLatencyMetrics (int (checkpoint_no c)))"

text \<open>
  \<open>AddLatencyMetricsAllCheckpoints(e)\<close>: a missing checkpoint list is only logged, and the indexing
  that follows panics, as it does for a list that is too short.
\<close>

definition add_checkpoint_latency ::
  "NodeEvent \<Rightarrow> Checkpoint \<Rightarrow> LatencyMetricsAllCheckpoints \<Rightarrow> LatencyMetricsAllCheckpoints" where
  "add_checkpoint_latency e c ms =
     (let t = ne_checkpoints e ! checkpoint_no c in
      if t \<noteq> 0 then ms(c := AddLatencyMetrics (time_Sub t (node_LastUpdatedTime (ne_Node e))) (ms c))
      else ms)"

definition all_checkpoints :: "Checkpoint list" where
  "all_checkpoints =
     [Aggregator_Received, Distributor_Received, Distributor_Sending, Distributor_Sent,
      Serializer_Encoded, Serializer_Sent]"

definition AddLatencyMetricsAllCheckpoints ::
  "bool \<Rightarrow> NodeEvent option \<Rightarrow> LatencyMetricsAllCheckpoints \<Rightarrow> LatencyMetricsAllCheckpoints result" where
  "AddLatencyMetricsAllCheckpoints enabled ep ms =
     (if \<not> enabled then Inr ms
      else case ep of
        None \<Rightarrow> Inl (Panicked NilDereference)
      | Some e \<Rightarrow>
          if length (ne_checkpoints e) < Len_ResourceManagementCheckpoint
          then Inl (Panicked IndexOutOfRange)
          else Inr (fold (add_checkpoint_latency e) all_checkpoints ms))"

definition PrintLatencyReport ::
  "LatencyMetricsAllCheckpoints \<Rightarrow> (Checkpoint \<Rightarrow> LatencyReport) \<times> LatencyMetricsAllCheckpoints" where
  "PrintLatencyReport ms = (\<lambda>c. fst (GetSummary (ms c)), \<lambda>c. snd (GetSummary (ms c)))"

lemma add_checkpoint_latency_get:
  "latencies (add_checkpoint_latency e c ms c') =
     latencies (ms c') @
       (if c' = c \<and> ne_checkpoints e ! checkpoint_no c \<noteq> 0
        then [time_Sub (ne_checkpoints e ! checkpoint_no c) (node_LastUpdatedTime (ne_Node e))]
        else [])"
  by (simp add: add_checkpoint_latency_def Let_def AddLatencyMetrics_def)

lemma add_latency_all:
  assumes "AddLatencyMetricsAllCheckpoints True (Some e) ms = Inr ms'"
  shows "latencies (ms' c) =
     latencies (ms c) @
       (if ne_checkpoints e ! checkpoint_no c \<noteq> 0
        then [time_Sub (ne_checkpoints e ! checkpoint_no c) (node_LastUpdatedTime (ne_Node e))]
        else [])"
  using assms
  by (cases c)
    (auto simp: AddLatencyMetricsAllCheckpoints_def all_checkpoints_def add_checkpoint_latency_get
      split: if_splits)

end
