(* ===== verification/GRS_Node.thy ===== *)
theory GRS_Node
  imports GRS_Event
begin

text \<open>
  \<open>distributor/node/managedNodeEvent.go\<close>: a node event together with the location it came from,
  the unit that the node stores keep and the event queues carry.
\<close>

record ManagedNodeEvent =
  nodeEvent :: NodeEvent
  mne_loc :: Location

definition NewManagedNodeEvent :: "NodeEvent \<Rightarrow> Location \<Rightarrow> ManagedNodeEvent" where
  "NewManagedNodeEvent e l = \<lparr>nodeEvent = e, mne_loc = l\<rparr>"

definition GetId :: "ManagedNodeEvent \<Rightarrow> string" where
  "GetId n = node_Id (ne_Node (nodeEvent n))"

definition GetLocation :: "ManagedNodeEvent \<Rightarrow> Location" where
  "GetLocation n = mne_loc n"

definition GetRvLocation :: "ManagedNodeEvent \<Rightarrow> RvLocation" where
  "GetRvLocation n =
     \<lparr>rv_Region = loc_region (mne_loc n), rv_Partition = loc_partition (mne_loc n)\<rparr>"

definition GetResourceVersion :: "ManagedNodeEvent \<Rightarrow> uint64" where
  "GetResourceVersion n =
     (case ParseUint (node_ResourceVersion (ne_Node (nodeEvent n))) of
        None \<Rightarrow> 0
      | Some rv \<Rightarrow> rv)"

definition GetEventType :: "ManagedNodeEvent \<Rightarrow> EventType" where
  "GetEventType n = ne_Type (nodeEvent n)"

definition GetNodeEvent :: "ManagedNodeEvent \<Rightarrow> NodeEvent" where
  "GetNodeEvent n = nodeEvent n"

definition CopyNode :: "ManagedNodeEvent \<Rightarrow> LogicalNode" where
  "CopyNode n = LogicalNode_Copy (ne_Node (nodeEvent n))"

lemma CopyNode_eq [simp]: "CopyNode n = ne_Node (nodeEvent n)"
  by (simp add: CopyNode_def)

lemma GetNodeEvent_New [simp]: "GetNodeEvent (NewManagedNodeEvent e l) = e"
  by (simp add: GetNodeEvent_def NewManagedNodeEvent_def)

lemma GetLocation_New [simp]: "GetLocation (NewManagedNodeEvent e l) = l"
  by (simp add: GetLocation_def NewManagedNodeEvent_def)

lemma GetId_New [simp]: "GetId (NewManagedNodeEvent e l) = node_Id (ne_Node e)"
  by (simp add: GetId_def NewManagedNodeEvent_def)

lemma GetResourceVersion_node: "GetResourceVersion n = GetResourceVersionInt64 (ne_Node (nodeEvent n))"
  by (simp add: GetResourceVersion_def GetResourceVersionInt64_def)

end
