(* ===== verification/GRS_EventQueue.thy ===== *)
theory GRS_EventQueue
  imports GRS_Node
begin

text \<open>
  \<open>distributor/cache/eventqueue.go\<close>: the event queue of a client, one circular buffer per
  location. \<open>queueByLoc_events\<close> is the abstract value of a buffer, the list of events between its
  two positions; the interface \<open>bounded_queue\<close> is what the rest of the development uses of it.
  The two positions only grow (Go's 64-bit \<open>int\<close>; more than \<open>2^63\<close> events would be needed to
  wrap). Reading an empty slot would dereference nil, which the invariant excludes.
\<close>

section \<open>Loops with an early return\<close>

fun traverse :: "('a \<Rightarrow> 'b result) \<Rightarrow> 'a list \<Rightarrow> 'b list result" where
  "traverse f [] = Inr []"
| "traverse f (x # xs) =
     (case f x of
        Inl err \<Rightarrow> Inl err
      | Inr y \<Rightarrow> (case traverse f xs of Inl err \<Rightarrow> Inl err | Inr ys \<Rightarrow> Inr (y # ys)))"

lemma traverse_Inr: "(\<And>x. x \<in> set xs \<Longrightarrow> f x = Inr (g x)) \<Longrightarrow> traverse f xs = Inr (map g xs)"
  by (induction xs) simp_all

text \<open>\<open>sort.Search\<close> with a predicate that may panic.\<close>

function search_loop_r :: "(nat \<Rightarrow> bool result) \<Rightarrow> nat \<Rightarrow> nat \<Rightarrow> nat result" where
  "search_loop_r f i j =
     (if i < j then
        let h = (i + j) div 2 in
        case f h of
          Inl err \<Rightarrow> Inl err
        | Inr b \<Rightarrow> if \<not> b then search_loop_r f (h + 1) j else search_loop_r f i h
      else Inr i)"
  by pat_completeness auto
termination
  by (relation "measure (\<lambda>(f, i, j). j - i)") auto

declare search_loop_r.simps [simp del]

definition search_r :: "nat \<Rightarrow> (nat \<Rightarrow> bool result) \<Rightarrow> nat result" where
  "search_r n f = search_loop_r f 0 n"

lemma search_loop_r_total:
  assumes "\<And>k. k < n \<Longrightarrow> f k = Inr (g k)" "j \<le> n"
  shows "search_loop_r f i j = Inr (go_search_loop g i j)"
  using assms
proof (induction f i j rule: search_loop_r.induct)
  case (1 f i j)
  show ?case
  proof (cases "i < j")
    case True
    then have "f ((i + j) div 2) = Inr (g ((i + j) div 2))" using "1.prems" by simp
    then show ?thesis
      using True "1.IH" [OF True refl] "1.prems"
      by (subst search_loop_r.simps, subst go_search_loop.simps) (auto simp: Let_def)
  next
    case False
    then show ?thesis
      by (subst search_loop_r.simps, subst go_search_loop.simps) simp
  qed
qed

lemma search_r_total:
  "(\<And>k. k < n \<Longrightarrow> f k = Inr (g k)) \<Longrightarrow> search_r n f = Inr (go_search n g)"
  unfolding search_r_def go_search_def by (rule search_loop_r_total [where n = n]) simp_all

section \<open>The buffer of one location\<close>

definition LengthOfNodeEventQueue :: nat where
  "LengthOfNodeEventQueue = 10000"

lemma LengthOfNodeEventQueue_pos [simp]:
  "0 < LengthOfNodeEventQueue" "Suc 0 \<le> LengthOfNodeEventQueue"
  by (simp_all add: LengthOfNodeEventQueue_def)

record nodeEventQueueByLoc =
  circularEventQueue :: "ManagedNodeEvent option list"
  startPos :: nat
  endPos :: nat

definition newNodeQueueByLoc :: nodeEventQueueByLoc where
  "newNodeQueueByLoc =
     \<lparr>circularEventQueue = replicate LengthOfNodeEventQueue None, startPos = 0, endPos = 0\<rparr>"

definition enqueueEvent :: "ManagedNodeEvent \<Rightarrow> nodeEventQueueByLoc \<Rightarrow> nodeEventQueueByLoc" where
  "enqueueEvent e qloc =
     (let q = (if endPos qloc = startPos qloc + LengthOfNodeEventQueue
               then qloc\<lparr>startPos := startPos qloc + 1\<rparr> else qloc)
      in q\<lparr>circularEventQueue := (circularEventQueue q)[endPos q mod LengthOfNodeEventQueue := Some e],
           endPos := endPos q + 1\<rparr>)"

text \<open>The slot at a position, dereferenced.\<close>

definition slot :: "nodeEventQueueByLoc \<Rightarrow> nat \<Rightarrow> ManagedNodeEvent option" where
  "slot qloc i = circularEventQueue qloc ! (i mod LengthOfNodeEventQueue)"

definition deref_slot :: "nodeEventQueueByLoc \<Rightarrow> nat \<Rightarrow> ManagedNodeEvent result" where
  "deref_slot qloc i = (case slot qloc i of None \<Rightarrow> Inl (Panicked NilDereference) | Some e \<Rightarrow> Inr e)"

definition getEventsFromIndex :: "nat \<Rightarrow> nodeEventQueueByLoc \<Rightarrow> NodeEvent list result" where
  "getEventsFromIndex startIndex qloc =
     (if startPos qloc = endPos qloc \<or> startPos qloc > startIndex \<or> startIndex > endPos qloc
      then Inl (ErrorText (''Event queue start pos '' @ Itoa (int (startPos qloc)) @ '', end pos '' @
             Itoa (int (endPos qloc)) @ '', invalid start index '' @ Itoa (int startIndex)))
      else
        let len = endPos qloc - startIndex in
        traverse (\<lambda>i. map_sum id GetNodeEvent (deref_slot qloc (startIndex + i))) [0..<len])"

definition getEventIndexSinceResourceVersion ::
  "uint64 \<Rightarrow> nodeEventQueueByLoc \<Rightarrow> nat result" where
  "getEventIndexSinceResourceVersion resourceVersion qloc =
     (if endPos qloc - startPos qloc = 0 then Inl (ErrorText ''Empty event queue'')
      else case deref_slot qloc (startPos qloc) of
        Inl err \<Rightarrow> Inl err
      | Inr oldest \<Rightarrow>
          let oldestRV = GetResourceVersion oldest in
          if oldestRV > resourceVersion
          then Inl (ErrorText (''Loc '' @ Location_String (GetLocation oldest) @
                 '' events oldest resource Version '' @ Itoa (uint oldestRV) @
                 '' is newer than requested resource version '' @ Itoa (uint resourceVersion)))
          else case search_r (endPos qloc - startPos qloc)
                      (\<lambda>i. map_sum id (\<lambda>e. GetResourceVersion e > resourceVersion)
                              (deref_slot qloc (startPos qloc + i))) of
            Inl err \<Rightarrow> Inl err
          | Inr found \<Rightarrow>
              let index = found + startPos qloc in
              if index = endPos qloc then Inl Error_EndOfEventQueue
              else if index > endPos qloc \<or> index < startPos qloc
              then Inl (ErrorText (''Event queue start pos '' @ Itoa (int (startPos qloc)) @ '', end pos '' @
                     Itoa (int (endPos qloc)) @ '', found invalid start index '' @ Itoa (int index)))
              else Inr index)"

section \<open>The buffer refines a bounded list\<close>

text \<open>
  What a queue of bounded capacity promises: an insertion keeps the newest \<open>cap\<close> elements.
  The lemmas proved here once are what the clients of the event queues use.
\<close>

definition lastn :: "nat \<Rightarrow> 'a list \<Rightarrow> 'a list" where
  "lastn n xs = drop (length xs - n) xs"

lemma lastn_Nil [simp]: "lastn n [] = []"
  by (simp add: lastn_def)

lemma length_lastn [simp]: "length (lastn n xs) = min n (length xs)"
  by (auto simp: lastn_def)

lemma lastn_lastn_append: "lastn n (lastn n xs @ ys) = lastn n (xs @ ys)"
proof (cases "length xs \<le> n")
  case False
  then have "length xs + length ys - n = length xs - n + length ys" by simp
  with False show ?thesis by (simp add: lastn_def add.commute)
qed (simp add: lastn_def)

lemma lastn_id: "length xs \<le> n \<Longrightarrow> lastn n xs = xs"
  by (simp add: lastn_def)

lemma set_lastn: "set (lastn n xs) \<subseteq> set xs"
  by (simp add: lastn_def set_drop_subset)

lemma lastn_snoc_neq_Nil: "0 < n \<Longrightarrow> lastn n (xs @ [x]) \<noteq> []"
  by (simp add: lastn_def)

lemma sorted_lastn: "sorted (map f xs) \<Longrightarrow> sorted (map f (lastn n xs))"
  by (simp add: lastn_def drop_map [symmetric] sorted_wrt_drop)

locale bounded_queue =
  fixes abs :: "'q \<Rightarrow> 'a list"
    and new :: "'q"
    and enq :: "'a \<Rightarrow> 'q \<Rightarrow> 'q"
    and invar :: "'q \<Rightarrow> bool"
    and cap :: nat
  assumes invar_new: "invar new"
    and abs_new: "abs new = []"
    and invar_enq: "invar q \<Longrightarrow> invar (enq e q)"
    and abs_enq: "invar q \<Longrightarrow> abs (enq e q) = lastn cap (abs q @ [e])"
begin

lemma invar_fold_enq: "invar q \<Longrightarrow> invar (fold enq es q)"
  by (induction es arbitrary: q) (simp_all add: invar_enq)

lemma abs_fold_enq: "invar q \<Longrightarrow> length (abs q) \<le> cap \<Longrightarrow> abs (fold enq es q) = lastn cap (abs q @ es)"
proof (induction es arbitrary: q)
  case Nil
  then show ?case by (simp add: lastn_id)
next
  case (Cons e es)
  then show ?case
    using lastn_lastn_append [of cap "abs q @ [e]" es] by (simp add: invar_enq abs_enq)
qed

lemma abs_fold_new: "abs (fold enq es new) = lastn cap es"
  by (simp add: abs_fold_enq invar_new abs_new)

lemma sorted_enq:
  assumes "invar q" "sorted (map f (abs q))" "\<forall>x \<in> set (abs q). f x \<le> f e"
  shows "sorted (map f (abs (enq e q)))"
proof -
  have "sorted (map f (abs q @ [e]))"
    using assms(2,3) by (simp add: sorted_append)
  then show ?thesis
    unfolding abs_enq [OF assms(1)] by (rule sorted_lastn)
qed

end

definition queueByLoc_wf :: "nodeEventQueueByLoc \<Rightarrow> bool" where
  "queueByLoc_wf qloc \<longleftrightarrow>
     length (circularEventQueue qloc) = LengthOfNodeEventQueue \<and>
     startPos qloc \<le> endPos qloc \<and> endPos qloc \<le> startPos qloc + LengthOfNodeEventQueue \<and>
     (\<forall>i\<in>{startPos qloc..<endPos qloc}. slot qloc i \<noteq> None)"

definition queueByLoc_events :: "nodeEventQueueByLoc \<Rightarrow> ManagedNodeEvent list" where
  "queueByLoc_events qloc = map (\<lambda>i. the (slot qloc i)) [startPos qloc..<endPos qloc]"

lemma queueByLoc_new:
  "queueByLoc_wf newNodeQueueByLoc" "queueByLoc_events newNodeQueueByLoc = []"
  by (simp_all add: queueByLoc_wf_def queueByLoc_events_def newNodeQueueByLoc_def)

text \<open>Positions less than the capacity apart use different slots.\<close>

lemma mod_window_distinct:
  fixes i j n :: nat
  assumes "i < j" "j < i + n"
  shows "i mod n \<noteq> j mod n"
proof
  assume "i mod n = j mod n"
  then have "n dvd j - i" using assms(1) by (metis less_imp_le mod_eq_dvd_iff_nat)
  moreover have "0 < j - i" "j - i < n" using assms by simp_all
  ultimately show False by (meson dvd_imp_le not_le)
qed

lemma slot_enqueue:
  assumes "queueByLoc_wf qloc" "startPos (enqueueEvent e qloc) \<le> i" "i \<le> endPos qloc"
  shows "slot (enqueueEvent e qloc) i = (if i = endPos qloc then Some e else slot qloc i)"
proof (cases "i = endPos qloc")
  case True
  with assms(1) show ?thesis
    by (simp add: slot_def enqueueEvent_def Let_def queueByLoc_wf_def)
next
  case False
  have "endPos qloc < i + LengthOfNodeEventQueue"
    using assms by (auto simp: enqueueEvent_def Let_def queueByLoc_wf_def split: if_splits)
  then have "i mod LengthOfNodeEventQueue \<noteq> endPos qloc mod LengthOfNodeEventQueue"
    using False assms(3) by (intro mod_window_distinct) simp_all
  then show ?thesis
    using False by (auto simp: slot_def enqueueEvent_def Let_def)
qed

lemma enqueue_startPos:
  "startPos (enqueueEvent e qloc) =
     (if endPos qloc = startPos qloc + LengthOfNodeEventQueue then startPos qloc + 1 else startPos qloc)"
  by (simp add: enqueueEvent_def Let_def)

lemma enqueue_endPos [simp]: "endPos (enqueueEvent e qloc) = endPos qloc + 1"
  by (simp add: enqueueEvent_def Let_def)

lemma queueByLoc_wf_enqueue:
  assumes wf: "queueByLoc_wf qloc"
  shows "queueByLoc_wf (enqueueEvent e qloc)"
proof -
  have "slot (enqueueEvent e qloc) i \<noteq> None"
    if "startPos (enqueueEvent e qloc) \<le> i" "i < endPos (enqueueEvent e qloc)" for i
    using that wf slot_enqueue [OF wf that(1)]
    by (auto simp: queueByLoc_wf_def enqueue_startPos split: if_splits)
  moreover have "length (circularEventQueue (enqueueEvent e qloc)) = LengthOfNodeEventQueue"
    using wf by (simp add: enqueueEvent_def queueByLoc_wf_def Let_def)
  ultimately show ?thesis
    using wf unfolding queueByLoc_wf_def [of "enqueueEvent e qloc"]
    by (auto simp: queueByLoc_wf_def enqueue_startPos split: if_splits)
qed

lemma queueByLoc_events_length: "length (queueByLoc_events qloc) = endPos qloc - startPos qloc"
  by (simp add: queueByLoc_events_def)

lemma queueByLoc_events_enqueue:
  assumes wf: "queueByLoc_wf qloc"
  shows "queueByLoc_events (enqueueEvent e qloc) = lastn LengthOfNodeEventQueue (queueByLoc_events qloc @ [e])"
proof -
  let ?q = "enqueueEvent e qloc"
  have le: "startPos ?q \<le> endPos qloc"
    using wf by (auto simp: enqueue_startPos queueByLoc_wf_def)
  have "queueByLoc_events ?q = map (\<lambda>i. the (slot ?q i)) [startPos ?q..<endPos qloc] @ [the (slot ?q (endPos qloc))]"
    using le by (simp add: queueByLoc_events_def)
  also have "the (slot ?q (endPos qloc)) = e"
    using slot_enqueue [OF wf le] by simp
  also have "map (\<lambda>i. the (slot ?q i)) [startPos ?q..<endPos qloc] =
      map (\<lambda>i. the (slot qloc i)) [startPos ?q..<endPos qloc]"
    using slot_enqueue [OF wf] by simp
  also have "\<dots> @ [e] = lastn LengthOfNodeEventQueue (queueByLoc_events qloc @ [e])"
    using wf
    by (auto simp: lastn_def queueByLoc_events_def enqueue_startPos queueByLoc_wf_def drop_map)
  finally show ?thesis .
qed

interpretation bq: bounded_queue queueByLoc_events newNodeQueueByLoc enqueueEvent queueByLoc_wf
  LengthOfNodeEventQueue
  by unfold_locales
    (simp_all add: queueByLoc_new queueByLoc_wf_enqueue queueByLoc_events_enqueue)

section \<open>Reading a buffer\<close>

text \<open>The events of a list that are newer than a resource version.\<close>

definition events_since :: "uint64 \<Rightarrow> ManagedNodeEvent list \<Rightarrow> ManagedNodeEvent list" where
  "events_since rv es = filter (\<lambda>e. rv < GetResourceVersion e) es"

definition rv_sorted :: "ManagedNodeEvent list \<Rightarrow> bool" where
  "rv_sorted es \<longleftrightarrow> sorted (map GetResourceVersion es)"

lemma deref_slot_events:
  assumes "queueByLoc_wf qloc" "i < length (queueByLoc_events qloc)"
  shows "deref_slot qloc (startPos qloc + i) = Inr (queueByLoc_events qloc ! i)"
proof -
  have "startPos qloc + i \<in> {startPos qloc..<endPos qloc}"
    using assms(2) by (simp add: queueByLoc_events_length)
  then obtain e where "slot qloc (startPos qloc + i) = Some e"
    using assms(1) unfolding queueByLoc_wf_def by blast
  then show ?thesis
    using assms(2) by (simp add: deref_slot_def queueByLoc_events_def)
qed

lemma getEventsFromIndex_drop:
  assumes wf: "queueByLoc_wf qloc" and ne: "queueByLoc_events qloc \<noteq> []"
    and k: "k \<le> length (queueByLoc_events qloc)"
  shows "getEventsFromIndex (startPos qloc + k) qloc =
    Inr (map GetNodeEvent (drop k (queueByLoc_events qloc)))"
proof -
  let ?es = "queueByLoc_events qloc"
  have len: "endPos qloc = startPos qloc + length ?es"
    using wf by (simp add: queueByLoc_events_length queueByLoc_wf_def)
  have "map_sum id GetNodeEvent (deref_slot qloc (startPos qloc + k + i)) = Inr (GetNodeEvent (?es ! (k + i)))"
    if "i < length ?es - k" for i
    using deref_slot_events [OF wf, of "k + i"] that by (simp add: add.assoc)
  then have "traverse (\<lambda>i. map_sum id GetNodeEvent (deref_slot qloc (startPos qloc + k + i))) [0..<length ?es - k]
      = Inr (map (\<lambda>i. GetNodeEvent (?es ! (k + i))) [0..<length ?es - k])"
    by (intro traverse_Inr) simp
  moreover have "map (\<lambda>i. GetNodeEvent (?es ! (k + i))) [0..<length ?es - k] = map GetNodeEvent (drop k ?es)"
    using k by (intro nth_equalityI) simp_all
  ultimately show ?thesis
    using len ne k by (simp add: getEventsFromIndex_def)
qed

lemma dropWhile_sorted:
  "sorted (map f xs) \<Longrightarrow> dropWhile (\<lambda>x. f x \<le> v) xs = filter (\<lambda>x. v < f x) xs"
  for v :: "'b :: linorder"
proof (induction xs)
  case (Cons x xs)
  show ?case
  proof (cases "f x \<le> v")
    case False
    then have "\<forall>y\<in>set (x # xs). v < f y" using Cons.prems by auto
    then show ?thesis using False by (simp add: filter_id_conv)
  qed (use Cons in auto)
qed simp

lemma search_events:
  assumes wf: "queueByLoc_wf qloc" and s: "rv_sorted (queueByLoc_events qloc)"
  shows "search_r (endPos qloc - startPos qloc)
      (\<lambda>i. map_sum id (\<lambda>e. GetResourceVersion e > rv) (deref_slot qloc (startPos qloc + i)))
    = Inr (length (takeWhile (\<lambda>e. GetResourceVersion e \<le> rv) (queueByLoc_events qloc)))"
proof -
  let ?es = "queueByLoc_events qloc" and ?P = "\<lambda>e. GetResourceVersion e \<le> rv"
  let ?g = "\<lambda>i. GetResourceVersion (?es ! i) > rv" and ?t = "length (takeWhile ?P ?es)"
  have up: "up_closed ?g (length ?es)"
    using s unfolding up_closed_def rv_sorted_def sorted_iff_nth_mono
    by (auto intro: less_le_trans)
  have r: "?t \<le> length ?es" by (rule length_takeWhile_le)
  have lo: "\<forall>k < ?t. \<not> ?g k" using nth_length_takeWhile [of ?P ?es] set_takeWhileD [of _ ?P ?es]
    by (metis not_less nth_mem takeWhile_nth)
  have hi: "\<forall>k. ?t \<le> k \<longrightarrow> k < length ?es \<longrightarrow> ?g k"
    using up nth_length_takeWhile [of ?P ?es] unfolding up_closed_def by (meson le_less_trans not_less)
  have "search_r (endPos qloc - startPos qloc)
      (\<lambda>i. map_sum id (\<lambda>e. GetResourceVersion e > rv) (deref_slot qloc (startPos qloc + i)))
    = Inr (go_search (length ?es) ?g)"
    unfolding queueByLoc_events_length [symmetric]
    by (rule search_r_total) (simp add: deref_slot_events [OF wf])
  then show ?thesis
    unfolding go_search_unique [OF up r lo hi] .
qed

text \<open>Every branch of \<open>getEventIndexSinceResourceVersion\<close>, on the abstract list.\<close>

lemma getEventIndex_spec:
  assumes wf: "queueByLoc_wf qloc" and s: "rv_sorted (queueByLoc_events qloc)"
  shows "queueByLoc_events qloc = [] \<Longrightarrow>
      getEventIndexSinceResourceVersion rv qloc = Inl (ErrorText ''Empty event queue'')"
    and "queueByLoc_events qloc = e # es \<Longrightarrow> rv < GetResourceVersion e \<Longrightarrow>
      \<exists>msg. getEventIndexSinceResourceVersion rv qloc = Inl (ErrorText msg)"
    and "queueByLoc_events qloc = e # es \<Longrightarrow> GetResourceVersion e \<le> rv \<Longrightarrow>
      getEventIndexSinceResourceVersion rv qloc =
        (if events_since rv (queueByLoc_events qloc) = [] then Inl Error_EndOfEventQueue
         else Inr (startPos qloc + length (takeWhile (\<lambda>e. GetResourceVersion e \<le> rv) (queueByLoc_events qloc))))"
proof -
  let ?es = "queueByLoc_events qloc" and ?P = "\<lambda>e. GetResourceVersion e \<le> rv"
  have len: "endPos qloc = startPos qloc + length ?es"
    using wf by (simp add: queueByLoc_events_length queueByLoc_wf_def)
  show "?es = [] \<Longrightarrow> getEventIndexSinceResourceVersion rv qloc = Inl (ErrorText ''Empty event queue'')"
    using len by (simp add: getEventIndexSinceResourceVersion_def)
  have first: "deref_slot qloc (startPos qloc) = Inr e" if "?es = e # es"
    using deref_slot_events [OF wf, of 0] that by simp
  show "\<exists>msg. getEventIndexSinceResourceVersion rv qloc = Inl (ErrorText msg)"
    if "?es = e # es" "rv < GetResourceVersion e"
    using first [OF that(1)] len that by (simp add: getEventIndexSinceResourceVersion_def)
  have since: "events_since rv ?es = dropWhile ?P ?es"
    using s by (simp add: events_since_def rv_sorted_def dropWhile_sorted)
  have all: "length (takeWhile ?P ?es) = length ?es \<longleftrightarrow> dropWhile ?P ?es = []"
    by (metis append_Nil2 append_same_eq length_append takeWhile_dropWhile_id self_append_conv
        length_0_conv add_cancel_right_right)
  show "getEventIndexSinceResourceVersion rv qloc =
      (if events_since rv ?es = [] then Inl Error_EndOfEventQueue
       else Inr (startPos qloc + length (takeWhile ?P ?es)))"
    if "?es = e # es" "GetResourceVersion e \<le> rv"
    using first [OF that(1)] that leD [OF that(2)] len search_events [OF wf s, of rv] length_takeWhile_le [of ?P ?es] all
    unfolding since getEventIndexSinceResourceVersion_def
    by (simp del: takeWhile.simps dropWhile.simps add: Let_def)
qed

lemma replay_location:
  assumes wf: "queueByLoc_wf qloc" and s: "rv_sorted (queueByLoc_events qloc)"
    and idx: "getEventIndexSinceResourceVersion rv qloc = Inr i"
  shows "getEventsFromIndex i qloc = Inr (map GetNodeEvent (events_since rv (queueByLoc_events qloc)))"
proof -
  let ?es = "queueByLoc_events qloc" and ?P = "\<lambda>e. GetResourceVersion e \<le> rv"
  obtain e es where es: "?es = e # es"
    using idx getEventIndex_spec(1) [OF wf s, of rv] by (cases ?es) auto
  have le: "?P e"
    using idx getEventIndex_spec(2) [OF wf s es, of rv] by fastforce
  have i: "i = startPos qloc + length (takeWhile ?P ?es)"
    using idx getEventIndex_spec(3) [OF wf s es le] by (simp split: if_splits)
  have "getEventsFromIndex i qloc = Inr (map GetNodeEvent (drop (length (takeWhile ?P ?es)) ?es))"
    unfolding i by (rule getEventsFromIndex_drop [OF wf _ length_takeWhile_le]) (simp add: es)
  then show ?thesis
    using s by (simp add: dropWhile_eq_drop [symmetric] events_since_def rv_sorted_def dropWhile_sorted)
qed

section \<open>The event queue of a client\<close>

text \<open>
  \<open>watchChan\<close> is nil or a channel; channels are numbered in the order they are made. An enqueue
  while a channel is set starts a goroutine that will send the event on the channel; the events
  of the goroutines started so far, oldest first, are \<open>spawnedSends\<close>. What the goroutines do with
  them is the step relation of \<open>GRS_Watch\<close>.
\<close>

record NodeEventQueue =
  neq_clientId :: string
  watchChan :: "nat option"
  chansMade :: nat
  spawnedSends :: "NodeEvent list"
  eventQueueByLoc :: "(Location, nodeEventQueueByLoc) gomap"

definition NewNodeEventQueue :: "string \<Rightarrow> NodeEventQueue" where
  "NewNodeEventQueue clientId =
     \<lparr>neq_clientId = clientId, watchChan = None, chansMade = 0, spawnedSends = [],
      eventQueueByLoc = gm_empty\<rparr>"

definition EnqueueEvent :: "ManagedNodeEvent \<Rightarrow> NodeEventQueue \<Rightarrow> NodeEventQueue" where
  "EnqueueEvent e eq =
     (let eq1 = (if watchChan eq \<noteq> None
                 then eq\<lparr>spawnedSends := spawnedSends eq @ [GetNodeEvent e]\<rparr> else eq);
          queueByLoc = (case gm_get (eventQueueByLoc eq1) (GetLocation e) of
                          Some q \<Rightarrow> q
                        | None \<Rightarrow> newNodeQueueByLoc)
      in eq1\<lparr>eventQueueByLoc :=
           gm_put (GetLocation e) (enqueueEvent e queueByLoc) (eventQueueByLoc eq1)\<rparr>)"

text \<open>
  The first loop of \<open>getAllEventsSinceResourceVersion\<close>. \<open>Inr None\<close> is its \<open>return nil, nil\<close>.
\<close>

fun locStartPositions ::
  "(Location, nodeEventQueueByLoc) gomap \<Rightarrow> (Location \<times> uint64) list \<Rightarrow> (Location, nat) gomap \<Rightarrow>
     (Location, nat) gomap option result" where
  "locStartPositions qs [] starts = Inr (Some starts)"
| "locStartPositions qs ((loc, rv) # rvs) starts =
     (case gm_get qs loc of
        None \<Rightarrow> locStartPositions qs rvs starts
      | Some qByLoc \<Rightarrow>
          (case getEventIndexSinceResourceVersion rv qByLoc of
             Inl Error_EndOfEventQueue \<Rightarrow> Inr None
           | Inl err \<Rightarrow> Inl err
           | Inr startIndex \<Rightarrow> locStartPositions qs rvs (gm_put loc startIndex starts)))"

definition getEventsOfLocation ::
  "(Location, nat) gomap \<Rightarrow> Location \<times> nodeEventQueueByLoc \<Rightarrow> NodeEvent list result" where
  "getEventsOfLocation starts lq =
     (case gm_get starts (fst lq) of
        Some startIndex \<Rightarrow> getEventsFromIndex startIndex (snd lq)
      | None \<Rightarrow> getEventsFromIndex (startPos (snd lq)) (snd lq))"

type_synonym rv_order = "(Location \<times> uint64) list \<Rightarrow> (Location \<times> uint64) list"
type_synonym queue_order =
  "(Location \<times> nodeEventQueueByLoc) list \<Rightarrow> (Location \<times> nodeEventQueueByLoc) list"

definition getAllEventsSinceResourceVersion ::
  "rv_order \<Rightarrow> queue_order \<Rightarrow> InternalResourceVersionMap \<Rightarrow> NodeEventQueue \<Rightarrow> NodeEvent list result" where
  "getAllEventsSinceResourceVersion ordR ordQ rvs eq =
     (case locStartPositions (eventQueueByLoc eq) (ordR rvs) gm_empty of
        Inl err \<Rightarrow> Inl err
      | Inr None \<Rightarrow> Inr []
      | Inr (Some starts) \<Rightarrow>
          map_sum id concat (traverse (getEventsOfLocation starts) (ordQ (eventQueueByLoc eq))))"

text \<open>
  \<open>Watch\<close>: the queue with its new channel, and the events the watch goroutine sends first.
\<close>

definition Watch ::
  "rv_order \<Rightarrow> queue_order \<Rightarrow> InternalResourceVersionMap \<Rightarrow> NodeEventQueue \<Rightarrow>
     (NodeEvent list \<times> NodeEventQueue) result" where
  "Watch ordR ordQ rvs eq =
     (if watchChan eq \<noteq> None
      then Inl (ErrorText ''currently only support one watcher per node event queue'')
      else case getAllEventsSinceResourceVersion ordR ordQ rvs eq of
        Inl err \<Rightarrow> Inl err
      | Inr events \<Rightarrow>
          Inr (events, eq\<lparr>watchChan := Some (chansMade eq), chansMade := chansMade eq + 1\<rparr>))"

text \<open>The invariant, and the abstract value: the events kept for each location.\<close>

definition NodeEventQueue_wf :: "NodeEventQueue \<Rightarrow> bool" where
  "NodeEventQueue_wf eq \<longleftrightarrow>
     gm_wf (eventQueueByLoc eq) \<and>
     (\<forall>loc q. gm_get (eventQueueByLoc eq) loc = Some q \<longrightarrow>
        queueByLoc_wf q \<and> queueByLoc_events q \<noteq> [] \<and>
        (\<forall>e\<in>set (queueByLoc_events q). GetLocation e = loc))"

definition queue_events :: "NodeEventQueue \<Rightarrow> Location \<Rightarrow> ManagedNodeEvent list" where
  "queue_events eq loc =
     (case gm_get (eventQueueByLoc eq) loc of Some q \<Rightarrow> queueByLoc_events q | None \<Rightarrow> [])"

lemma NodeEventQueue_wf_new [simp]: "NodeEventQueue_wf (NewNodeEventQueue clientId)"
  by (simp add: NodeEventQueue_wf_def NewNodeEventQueue_def)

lemma queue_events_new [simp]: "queue_events (NewNodeEventQueue clientId) loc = []"
  by (simp add: queue_events_def NewNodeEventQueue_def)

lemma EnqueueEvent_queues:
  "eventQueueByLoc (EnqueueEvent e eq) =
     gm_put (GetLocation e)
       (enqueueEvent e (case gm_get (eventQueueByLoc eq) (GetLocation e) of
          Some q \<Rightarrow> q | None \<Rightarrow> newNodeQueueByLoc)) (eventQueueByLoc eq)"
  by (simp add: EnqueueEvent_def Let_def)

lemma EnqueueEvent_frame [simp]:
  "neq_clientId (EnqueueEvent e eq) = neq_clientId eq"
  "watchChan (EnqueueEvent e eq) = watchChan eq"
  "chansMade (EnqueueEvent e eq) = chansMade eq"
  by (simp_all add: EnqueueEvent_def Let_def)

lemma NodeEventQueue_wfD:
  assumes "NodeEventQueue_wf eq" "gm_get (eventQueueByLoc eq) loc = Some q"
  shows "queueByLoc_wf q" "queueByLoc_events q \<noteq> []" "queueByLoc_events q = queue_events eq loc"
    "\<forall>e\<in>set (queueByLoc_events q). GetLocation e = loc"
  using assms by (auto simp: NodeEventQueue_wf_def queue_events_def)

lemma queue_events_enqueue:
  assumes "NodeEventQueue_wf eq"
  shows "queue_events (EnqueueEvent e eq) loc =
    (if loc = GetLocation e then lastn LengthOfNodeEventQueue (queue_events eq loc @ [e])
     else queue_events eq loc)"
proof -
  have "queueByLoc_wf (case gm_get (eventQueueByLoc eq) (GetLocation e) of
      Some q \<Rightarrow> q | None \<Rightarrow> newNodeQueueByLoc)"
    using assms by (simp add: NodeEventQueue_wf_def queueByLoc_new split: option.splits)
  from bq.abs_enq [OF this, of e] show ?thesis
    by (auto simp: queue_events_def EnqueueEvent_queues gomap_simps queueByLoc_new split: option.splits)
qed

lemma NodeEventQueue_wf_enqueue [wf_intros, simp]:
  assumes wf: "NodeEventQueue_wf eq"
  shows "NodeEventQueue_wf (EnqueueEvent e eq)"
proof -
  let ?q = "case gm_get (eventQueueByLoc eq) (GetLocation e) of Some q \<Rightarrow> q | None \<Rightarrow> newNodeQueueByLoc"
  have q: "queueByLoc_wf ?q" "\<forall>x\<in>set (queueByLoc_events ?q). GetLocation x = GetLocation e"
    using wf by (auto simp: NodeEventQueue_wf_def queueByLoc_new split: option.splits)
  have "queueByLoc_events (enqueueEvent e ?q) \<noteq> []"
    by (simp add: bq.abs_enq [OF q(1)] lastn_snoc_neq_Nil)
  moreover have "\<forall>x\<in>set (queueByLoc_events (enqueueEvent e ?q)). GetLocation x = GetLocation e"
    unfolding bq.abs_enq [OF q(1)] using q(2) set_lastn by fastforce
  ultimately show ?thesis
    using wf bq.invar_enq [OF q(1), of e]
    by (auto simp: NodeEventQueue_wf_def EnqueueEvent_queues gomap_simps)
qed

text \<open>Any history of enqueues: each location keeps the newest events that came from it.\<close>

lemma queue_events_history:
  "NodeEventQueue_wf (fold EnqueueEvent es (NewNodeEventQueue c)) \<and>
   queue_events (fold EnqueueEvent es (NewNodeEventQueue c)) loc =
     lastn LengthOfNodeEventQueue (filter (\<lambda>e. GetLocation e = loc) es)"
proof (induction es rule: rev_induct)
  case Nil
  then show ?case by simp
next
  case (snoc e es)
  then show ?case
    using lastn_lastn_append [of LengthOfNodeEventQueue "filter (\<lambda>e. GetLocation e = loc) es" "[e]"]
    by (auto simp: queue_events_enqueue)
qed

section \<open>Replay of the cached events\<close>

text \<open>The events a client that has seen the versions \<open>rvs\<close> is missing from a location.\<close>

definition missed_events :: "InternalResourceVersionMap \<Rightarrow> NodeEventQueue \<Rightarrow> Location \<Rightarrow> ManagedNodeEvent list" where
  "missed_events rvs eq loc =
     (case gm_get rvs loc of
        None \<Rightarrow> queue_events eq loc
      | Some rv \<Rightarrow> events_since rv (queue_events eq loc))"

definition replay :: "queue_order \<Rightarrow> InternalResourceVersionMap \<Rightarrow> NodeEventQueue \<Rightarrow> NodeEvent list" where
  "replay ordQ rvs eq =
     concat (map (\<lambda>lq. map GetNodeEvent (missed_events rvs eq (fst lq))) (ordQ (eventQueueByLoc eq)))"

definition queues_sorted :: "NodeEventQueue \<Rightarrow> bool" where
  "queues_sorted eq \<longleftrightarrow> (\<forall>loc. rv_sorted (queue_events eq loc))"

text \<open>The client has seen every event of one of the locations it names.\<close>

definition at_end :: "InternalResourceVersionMap \<Rightarrow> NodeEventQueue \<Rightarrow> Location \<Rightarrow> bool" where
  "at_end rvs eq loc \<longleftrightarrow>
     queue_events eq loc \<noteq> [] \<and>
     (\<exists>rv. gm_get rvs loc = Some rv \<and> events_since rv (queue_events eq loc) = [])"

text \<open>The oldest event of a location is newer than what the client has seen.\<close>

definition too_old :: "InternalResourceVersionMap \<Rightarrow> NodeEventQueue \<Rightarrow> Location \<Rightarrow> bool" where
  "too_old rvs eq loc \<longleftrightarrow>
     queue_events eq loc \<noteq> [] \<and>
     (\<exists>rv. gm_get rvs loc = Some rv \<and> rv < GetResourceVersion (hd (queue_events eq loc)))"

lemma events_since_Nil: "events_since rv es = [] \<longleftrightarrow> (\<forall>e\<in>set es. GetResourceVersion e \<le> rv)"
  by (auto simp: events_since_def filter_empty_conv not_less)

lemma index_cases:
  assumes wf: "NodeEventQueue_wf eq" and s: "queues_sorted eq"
    and q: "gm_get (eventQueueByLoc eq) loc = Some q" and rv: "gm_get rvs loc = Some rv"
  shows "too_old rvs eq loc \<Longrightarrow> \<exists>msg. getEventIndexSinceResourceVersion rv q = Inl (ErrorText msg)"
    and "at_end rvs eq loc \<Longrightarrow> getEventIndexSinceResourceVersion rv q = Inl Error_EndOfEventQueue"
    and "\<not> too_old rvs eq loc \<Longrightarrow> \<not> at_end rvs eq loc \<Longrightarrow>
      \<exists>i. getEventIndexSinceResourceVersion rv q = Inr i"
proof -
  note D = NodeEventQueue_wfD [OF wf q]
  have so: "rv_sorted (queueByLoc_events q)" using s D(3) by (simp add: queues_sorted_def)
  obtain e es where es: "queueByLoc_events q = e # es" using D(2) by (cases "queueByLoc_events q") auto
  have qe: "queue_events eq loc = e # es" using D(3) es by simp
  show "too_old rvs eq loc \<Longrightarrow> \<exists>msg. getEventIndexSinceResourceVersion rv q = Inl (ErrorText msg)"
    using getEventIndex_spec(2) [OF D(1) so es, of rv] rv by (simp add: too_old_def qe)
  have "e \<in> set (queueByLoc_events q)" using es by simp
  then show "at_end rvs eq loc \<Longrightarrow> getEventIndexSinceResourceVersion rv q = Inl Error_EndOfEventQueue"
    using getEventIndex_spec(3) [OF D(1) so es, of rv] rv D(3)
    by (auto simp: at_end_def events_since_Nil)
  show "\<exists>i. getEventIndexSinceResourceVersion rv q = Inr i"
    if "\<not> too_old rvs eq loc" "\<not> at_end rvs eq loc"
    using getEventIndex_spec(3) [OF D(1) so es, of rv] rv that
    by (simp add: too_old_def at_end_def qe D(3) not_less)
qed

lemma locStartPositions_Some:
  "locStartPositions qs xs starts = Inr (Some starts') \<Longrightarrow> distinct (map fst xs) \<Longrightarrow>
    (\<forall>loc rv q. (loc, rv) \<in> set xs \<longrightarrow> gm_get qs loc = Some q \<longrightarrow>
       (\<exists>i. getEventIndexSinceResourceVersion rv q = Inr i \<and> gm_get starts' loc = Some i)) \<and>
    (\<forall>loc. loc \<notin> fst ` set xs \<or> gm_get qs loc = None \<longrightarrow> gm_get starts' loc = gm_get starts loc)"
proof (induction qs xs starts rule: locStartPositions.induct)
  case (1 qs starts)
  then show ?case by simp
next
  case (2 qs loc rv rvs starts)
  show ?case
  proof (cases "gm_get qs loc")
    case None
    with 2 show ?thesis by fastforce
  next
    case (Some q)
    then obtain i where i: "getEventIndexSinceResourceVersion rv q = Inr i"
      using "2.prems"(1) by (auto split: sum.splits GoError.splits)
    have IH: "(\<forall>l r q. (l, r) \<in> set rvs \<longrightarrow> gm_get qs l = Some q \<longrightarrow>
        (\<exists>i. getEventIndexSinceResourceVersion r q = Inr i \<and> gm_get starts' l = Some i)) \<and>
      (\<forall>l. l \<notin> fst ` set rvs \<or> gm_get qs l = None \<longrightarrow> gm_get starts' l = gm_get (gm_put loc i starts) l)"
      using "2.IH"(2) [OF Some i] "2.prems" Some i by simp
    have "loc \<notin> fst ` set rvs" using "2.prems"(2) by simp
    then have "gm_get starts' loc = Some i" using IH by (simp add: gomap_simps)
    then show ?thesis
      using IH Some i by (auto simp: gomap_simps)
  qed
qed

lemma locStartPositions_None:
  "locStartPositions qs xs starts = Inr None \<Longrightarrow>
    \<exists>loc rv q. (loc, rv) \<in> set xs \<and> gm_get qs loc = Some q \<and>
      getEventIndexSinceResourceVersion rv q = Inl Error_EndOfEventQueue"
  by (induction qs xs starts rule: locStartPositions.induct)
    (fastforce split: option.splits sum.splits GoError.splits)+

lemma locStartPositions_total:
  "(\<And>loc rv q. (loc, rv) \<in> set xs \<Longrightarrow> gm_get qs loc = Some q \<Longrightarrow>
      \<exists>i. getEventIndexSinceResourceVersion rv q = Inr i) \<Longrightarrow>
    \<exists>starts'. locStartPositions qs xs starts = Inr (Some starts')"
  by (induction qs xs starts rule: locStartPositions.induct)
    (fastforce split: option.splits sum.splits GoError.splits)+

lemma locStartPositions_end:
  "(\<And>loc rv q. (loc, rv) \<in> set xs \<Longrightarrow> gm_get qs loc = Some q \<Longrightarrow>
      getEventIndexSinceResourceVersion rv q = Inl Error_EndOfEventQueue \<or>
      (\<exists>i. getEventIndexSinceResourceVersion rv q = Inr i)) \<Longrightarrow>
    (loc, rv) \<in> set xs \<Longrightarrow> gm_get qs loc = Some q \<Longrightarrow>
    getEventIndexSinceResourceVersion rv q = Inl Error_EndOfEventQueue \<Longrightarrow>
    locStartPositions qs xs starts = Inr None"
  by (induction qs xs starts rule: locStartPositions.induct)
    (fastforce split: option.splits sum.splits GoError.splits)+

lemma locStartPositions_error:
  "(\<And>loc rv q. (loc, rv) \<in> set xs \<Longrightarrow> gm_get qs loc = Some q \<Longrightarrow>
      getEventIndexSinceResourceVersion rv q \<noteq> Inl Error_EndOfEventQueue) \<Longrightarrow>
    (loc, rv) \<in> set xs \<Longrightarrow> gm_get qs loc = Some q \<Longrightarrow>
    getEventIndexSinceResourceVersion rv q = Inl err \<Longrightarrow>
    \<exists>err'. locStartPositions qs xs starts = Inl err'"
  by (induction qs xs starts rule: locStartPositions.induct)
    (fastforce split: option.splits sum.splits GoError.splits)+

lemma getEventsOfLocation_missed:
  assumes wf: "NodeEventQueue_wf eq" and s: "queues_sorted eq"
    and q: "gm_get (eventQueueByLoc eq) loc = Some q"
    and st: "\<And>rv. gm_get rvs loc = Some rv \<Longrightarrow>
      \<exists>i. getEventIndexSinceResourceVersion rv q = Inr i \<and> gm_get starts loc = Some i"
      "gm_get rvs loc = None \<Longrightarrow> gm_get starts loc = None"
  shows "getEventsOfLocation starts (loc, q) = Inr (map GetNodeEvent (missed_events rvs eq loc))"
proof -
  note D = NodeEventQueue_wfD [OF wf q]
  have so: "rv_sorted (queueByLoc_events q)" using s D(3) by (simp add: queues_sorted_def)
  show ?thesis
  proof (cases "gm_get rvs loc")
    case None
    then show ?thesis
      using st(2) getEventsFromIndex_drop [OF D(1,2), of 0] D(3)
      by (simp add: getEventsOfLocation_def missed_events_def)
  next
    case (Some rv)
    then show ?thesis
      using st(1) replay_location [OF D(1) so] D(3)
      by (auto simp: getEventsOfLocation_def missed_events_def)
  qed
qed

lemma getAll_cases:
  assumes wf: "NodeEventQueue_wf eq" and s: "queues_sorted eq" and rvs: "gm_wf rvs"
    and ordR: "range_order ordR" and ordQ: "range_order ordQ"
  shows "(\<forall>loc. \<not> too_old rvs eq loc \<and> \<not> at_end rvs eq loc) \<Longrightarrow>
      getAllEventsSinceResourceVersion ordR ordQ rvs eq = Inr (replay ordQ rvs eq)"
    and "at_end rvs eq loc \<Longrightarrow> (\<forall>l. \<not> too_old rvs eq l) \<Longrightarrow>
      getAllEventsSinceResourceVersion ordR ordQ rvs eq = Inr []"
    and "too_old rvs eq loc \<Longrightarrow> (\<forall>l. \<not> at_end rvs eq l) \<Longrightarrow>
      \<exists>err. getAllEventsSinceResourceVersion ordR ordQ rvs eq = Inl err"
    and "getAllEventsSinceResourceVersion ordR ordQ rvs eq = Inr evs \<Longrightarrow>
      evs = replay ordQ rvs eq \<or> (evs = [] \<and> (\<exists>loc. at_end rvs eq loc))"
proof -
  let ?qs = "eventQueueByLoc eq"
  note cases3 = index_cases [OF wf s]
  have in_iff: "(l, rv) \<in> set (ordR rvs) \<longleftrightarrow> gm_get rvs l = Some rv" for l rv
    using ordR rvs by (simp add: gm_in_iff)
  have dist: "distinct (map fst (ordR rvs))"
    using ordR rvs range_order_wf [of ordR rvs] by (simp add: gm_wf_def)
  have q_of: "\<exists>q. gm_get ?qs l = Some q" if "queue_events eq l \<noteq> []" for l
    using that by (auto simp: queue_events_def split: option.splits)
  have full: "getAllEventsSinceResourceVersion ordR ordQ rvs eq = Inr (replay ordQ rvs eq)"
    if st: "locStartPositions ?qs (ordR rvs) gm_empty = Inr (Some starts)" for starts
  proof -
    note S = locStartPositions_Some [OF st dist]
    have "getEventsOfLocation starts lq = Inr (map GetNodeEvent (missed_events rvs eq (fst lq)))"
      if "lq \<in> set (ordQ ?qs)" for lq
    proof -
      obtain l q where lq: "lq = (l, q)" by (cases lq)
      with that have q: "gm_get ?qs l = Some q"
        using ordQ wf by (simp add: gm_in_iff NodeEventQueue_wf_def)
      have "gm_get starts l = None" if "gm_get rvs l = None"
        using S that in_iff by force
      then show ?thesis
        unfolding lq fst_conv using S in_iff q
        by (intro getEventsOfLocation_missed [OF wf s q]) blast+
    qed
    then have "traverse (getEventsOfLocation starts) (ordQ ?qs) =
        Inr (map (\<lambda>lq. map GetNodeEvent (missed_events rvs eq (fst lq))) (ordQ ?qs))"
      by (rule traverse_Inr)
    then show ?thesis
      using st by (simp add: getAllEventsSinceResourceVersion_def replay_def)
  qed
  show "getAllEventsSinceResourceVersion ordR ordQ rvs eq = Inr (replay ordQ rvs eq)"
    if "\<forall>loc. \<not> too_old rvs eq loc \<and> \<not> at_end rvs eq loc"
    using locStartPositions_total [of "ordR rvs" ?qs gm_empty] cases3(3) that in_iff full by blast
  show "getAllEventsSinceResourceVersion ordR ordQ rvs eq = Inr []"
    if "at_end rvs eq loc" "\<forall>l. \<not> too_old rvs eq l"
  proof -
    obtain rv q where rv: "gm_get rvs loc = Some rv" and q: "gm_get ?qs loc = Some q"
      using \<open>at_end rvs eq loc\<close> q_of unfolding at_end_def by blast
    have ok: "getEventIndexSinceResourceVersion r q' = Inl Error_EndOfEventQueue \<or>
        (\<exists>i. getEventIndexSinceResourceVersion r q' = Inr i)"
      if "(l, r) \<in> set (ordR rvs)" "gm_get ?qs l = Some q'" for l r q'
      using cases3(2,3) [OF that(2), of rvs r] that(1) \<open>\<forall>l. \<not> too_old rvs eq l\<close>
      by (cases "at_end rvs eq l") (simp_all add: in_iff)
    have "locStartPositions ?qs (ordR rvs) gm_empty = Inr None"
      using cases3(2) [OF q rv \<open>at_end rvs eq loc\<close>] rv q
      by (intro locStartPositions_end [OF ok, where loc = loc and rv = rv and q = q]) (simp_all add: in_iff)
    then show ?thesis by (simp add: getAllEventsSinceResourceVersion_def)
  qed
  show "\<exists>err. getAllEventsSinceResourceVersion ordR ordQ rvs eq = Inl err"
    if "too_old rvs eq loc" "\<forall>l. \<not> at_end rvs eq l"
  proof -
    obtain rv q where rv: "gm_get rvs loc = Some rv" and q: "gm_get ?qs loc = Some q"
      using \<open>too_old rvs eq loc\<close> q_of unfolding too_old_def by blast
    obtain msg where msg: "getEventIndexSinceResourceVersion rv q = Inl (ErrorText msg)"
      using cases3(1) [OF q rv \<open>too_old rvs eq loc\<close>] by blast
    have "getEventIndexSinceResourceVersion r q' \<noteq> Inl Error_EndOfEventQueue"
      if "(l, r) \<in> set (ordR rvs)" "gm_get ?qs l = Some q'" for l r q'
      using cases3(1,3) [of l q' rvs r] that in_iff \<open>\<forall>l. \<not> at_end rvs eq l\<close> by fastforce
    then show ?thesis
      using locStartPositions_error [of "ordR rvs" ?qs loc rv q "ErrorText msg" gm_empty] in_iff rv q msg
      by (auto simp: getAllEventsSinceResourceVersion_def)
  qed
  show "evs = replay ordQ rvs eq \<or> (evs = [] \<and> (\<exists>loc. at_end rvs eq loc))"
    if r: "getAllEventsSinceResourceVersion ordR ordQ rvs eq = Inr evs"
  proof (cases "locStartPositions ?qs (ordR rvs) gm_empty")
    case (Inl err)
    with r show ?thesis by (simp add: getAllEventsSinceResourceVersion_def)
  next
    case (Inr st)
    show ?thesis
    proof (cases st)
      case None
      with Inr obtain l rv q where "gm_get rvs l = Some rv" "gm_get ?qs l = Some q"
        "getEventIndexSinceResourceVersion rv q = Inl Error_EndOfEventQueue"
        using locStartPositions_None in_iff by blast
      then have "at_end rvs eq l" using cases3(1,3) [of l q rvs rv] by fastforce
      with None Inr r show ?thesis by (auto simp: getAllEventsSinceResourceVersion_def)
    next
      case (Some starts)
      with Inr full r show ?thesis by simp
    qed
  qed
qed

end
