(* ===== verification/GRS_NodeStore.thy ===== *)
theory GRS_NodeStore
  imports GRS_EventQueue GRS_Hash
begin

text \<open>
  \<open>distributor/storage/nodestore.go\<close>: the virtual node stores on the hash ring and the operations
  that add, update and look up nodes. A \<open>NodeEventQueue\<close> is shared by the distributor's map and by
  every virtual store assigned to the client, so queues live in a heap, a list of queues, and a
  pointer to one is its position. A virtual store is named by its position in \<open>vNodeStores\<close>.
  An index outside a slice is the panic it causes. Nodes of events are not nil.
\<close>

section \<open>Virtual node stores\<close>

type_synonym queue_heap = "NodeEventQueue list"

definition heap_enqueue :: "nat \<Rightarrow> ManagedNodeEvent \<Rightarrow> queue_heap \<Rightarrow> queue_heap" where
  "heap_enqueue p e h = h[p := EnqueueEvent e (h ! p)]"

record VirtualNodeStore =
  nodeEventByHash :: "(f64, ManagedNodeEvent) gomap"
  lowerbound :: f64
  upperbound :: f64
  vs_location :: Location
  vs_clientId :: string
  vs_eventQueue :: "nat option"

definition GetHostNum :: "VirtualNodeStore \<Rightarrow> nat" where
  "GetHostNum vs = gm_len (nodeEventByHash vs)"

definition vs_GetLocation :: "VirtualNodeStore \<Rightarrow> Location" where
  "vs_GetLocation vs = vs_location vs"

definition GetAssignedClient :: "VirtualNodeStore \<Rightarrow> string" where
  "GetAssignedClient vs = vs_clientId vs"

definition AssignToClient ::
  "string \<Rightarrow> nat option \<Rightarrow> VirtualNodeStore \<Rightarrow> bool \<times> VirtualNodeStore" where
  "AssignToClient clientId eventQueue vs =
     (if vs_clientId vs \<noteq> '''' then (False, vs)
      else if clientId = '''' then (False, vs)
      else if eventQueue = None then (False, vs)
      else (True, vs\<lparr>vs_clientId := clientId, vs_eventQueue := eventQueue\<rparr>))"

definition Release :: "VirtualNodeStore \<Rightarrow> VirtualNodeStore" where
  "Release vs = vs\<lparr>vs_clientId := ''''\<rparr>"

definition GetRange :: "VirtualNodeStore \<Rightarrow> f64 \<times> f64" where
  "GetRange vs = (lowerbound vs, upperbound vs)"

type_synonym node_order = "(f64 \<times> ManagedNodeEvent) list \<Rightarrow> (f64 \<times> ManagedNodeEvent) list"

definition SnapShot ::
  "node_order \<Rightarrow> VirtualNodeStore \<Rightarrow> LogicalNode list \<times> TransitResourceVersionMap" where
  "SnapShot ord vs =
     (let entries = ord (nodeEventByHash vs) in
      (map (\<lambda>kv. CopyNode (snd kv)) entries,
       fold (\<lambda>kv. keep_newest_rv (GetRvLocation (snd kv)) (GetResourceVersion (snd kv)))
         entries gm_empty))"

text \<open>The loop returns in its first iteration.\<close>

definition GenerateBookmarkEvent :: "node_order \<Rightarrow> VirtualNodeStore \<Rightarrow> ManagedNodeEvent option" where
  "GenerateBookmarkEvent ord vs =
     (case ord (nodeEventByHash vs) of
        [] \<Rightarrow> None
      | (h, n) # _ \<Rightarrow> Some (NewManagedNodeEvent (NewNodeEvent (CopyNode n) Bookmark) (GetLocation n)))"

section \<open>The node store\<close>

record NodeStore =
  granularOfRing :: f64
  regionNum :: nat
  partitionMaxNum :: nat
  resourceSlots :: nat
  virtualNodeNum :: nat
  vNodeStores :: "VirtualNodeStore list"
  totalHostNum :: nat
  currentRVs :: "uint64 list list"

text \<open>
  \<open>generateVirtualNodeStores\<close>: the slice is filled in order, so \<open>vNodeIndex\<close> is the length of what
  the loops have produced. The innermost loop adds the granularity to the lower bound.
\<close>

fun gen_stores :: "Location \<Rightarrow> f64 \<Rightarrow> nat \<Rightarrow> f64 \<Rightarrow> VirtualNodeStore list" where
  "gen_stores loc gran 0 lower = []"
| "gen_stores loc gran (Suc n) lower =
     \<lparr>nodeEventByHash = gm_empty, lowerbound = lower, upperbound = f64_add lower gran,
      vs_location = loc, vs_clientId = '''', vs_eventQueue = None\<rparr>
     # gen_stores loc gran n (f64_add lower gran)"

definition set_last_upper :: "f64 \<Rightarrow> VirtualNodeStore list \<Rightarrow> VirtualNodeStore list result" where
  "set_last_upper u vss =
     (if vss = [] then Inl (Panicked IndexOutOfRange)
      else Inr (vss[length vss - 1 := (vss ! (length vss - 1))\<lparr>upperbound := u\<rparr>]))"

definition gen_partition :: "f64 \<Rightarrow> nat \<Rightarrow> Region \<Rightarrow> nat \<Rightarrow> VirtualNodeStore list result" where
  "gen_partition gran vNodeNumPerRP region m =
     (if m \<ge> length (GetRPsForRegion region) then Inl (Panicked IndexOutOfRange)
      else let loc = NewLocation region (GetRPsForRegion region ! m);
               bounds = GetArcRangeFromLocation loc
           in set_last_upper (snd bounds) (gen_stores loc gran vNodeNumPerRP (fst bounds)))"

definition gen_region :: "f64 \<Rightarrow> nat \<Rightarrow> nat \<Rightarrow> nat \<Rightarrow> VirtualNodeStore list result" where
  "gen_region gran vNodeNumPerRP partitionMax k =
     (if k \<ge> length Regions then Inl (Panicked IndexOutOfRange)
      else map_sum id concat
        (traverse (gen_partition gran vNodeNumPerRP (Regions ! k)) [0..<partitionMax]))"

definition generateVirtualNodeStores :: "f64 \<Rightarrow> nat \<Rightarrow> nat \<Rightarrow> nat \<Rightarrow> VirtualNodeStore list result" where
  "generateVirtualNodeStores gran vNodeNumPerRP regions partitionMax =
     (case traverse (gen_region gran vNodeNumPerRP partitionMax) [0..<regions] of
        Inl err \<Rightarrow> Inl err
      | Inr vss \<Rightarrow> set_last_upper RingRange (concat vss))"

definition NewNodeStore :: "nat \<Rightarrow> nat \<Rightarrow> nat \<Rightarrow> NodeStore result" where
  "NewNodeStore vNodeNumPerRP regions partitionMax =
     (let totalVirtualNodeNum = vNodeNumPerRP * regions * partitionMax;
          gran = f64_div RingRange (f64_of_int (int totalVirtualNodeNum))
      in case generateVirtualNodeStores gran vNodeNumPerRP regions partitionMax of
           Inl err \<Rightarrow> Inl err
         | Inr vss \<Rightarrow>
             Inr \<lparr>granularOfRing = gran, regionNum = regions, partitionMaxNum = partitionMax,
                  resourceSlots = regions * partitionMax, virtualNodeNum = totalVirtualNodeNum,
                  vNodeStores = vss, totalHostNum = 0,
                  currentRVs = replicate regions (replicate partitionMax 0)\<rparr>)"

text \<open>The nested loops visit \<open>(i, j)\<close> in this order.\<close>

definition rv_slots :: "nat \<Rightarrow> nat \<Rightarrow> (nat \<times> nat) list" where
  "rv_slots regions partitionMax = concat (map (\<lambda>i. map (\<lambda>j. (i, j)) [0..<partitionMax]) [0..<regions])"

definition GetCurrentResourceVersions :: "NodeStore \<Rightarrow> TransitResourceVersionMap" where
  "GetCurrentResourceVersions ns =
     fold (\<lambda>(i, j) rvMap.
             if currentRVs ns ! i ! j > 0
             then gm_put \<lparr>rv_Region = Regions ! i, rv_Partition = ResourcePartitions ! j\<rparr>
                    (currentRVs ns ! i ! j) rvMap
             else rvMap)
       (rv_slots (regionNum ns) (partitionMaxNum ns)) gm_empty"

definition GetTotalHostNum :: "NodeStore \<Rightarrow> nat" where
  "GetTotalHostNum ns = totalHostNum ns"

fun free_capacity :: "int \<Rightarrow> VirtualNodeStore list \<Rightarrow> int \<Rightarrow> bool" where
  "free_capacity requested [] allocatable = False"
| "free_capacity requested (vs # vss) allocatable =
     (let allocatable' = allocatable + int (GetHostNum vs) in
      if allocatable' \<ge> requested then True else free_capacity requested vss allocatable')"

definition CheckFreeCapacity :: "int \<Rightarrow> NodeStore \<Rightarrow> bool" where
  "CheckFreeCapacity requestedHostNum ns = free_capacity requestedHostNum (vNodeStores ns) 0"

section \<open>Nodes on the ring\<close>

definition ring_value :: "uint64 \<Rightarrow> f64" where
  "ring_value h =
     (if h = 0 then 1 else f64_div (f64_of_int (uint h)) (f64_of_int (2 ^ 64 - 1)))"

definition getNodeHash :: "ManagedNodeEvent \<Rightarrow> f64" where
  "getNodeHash n =
     (let ringValue = ring_value (HashStrToUInt64 (GetId n));
          bounds = GetArcRangeFromLocation (GetLocation n)
      in f64_add (fst bounds) (f64_mul ringValue (f64_sub (snd bounds) (fst bounds))))"

text \<open>The ring id, always 0, is left out of the results.\<close>

definition getVirtualNodeStore :: "ManagedNodeEvent \<Rightarrow> NodeStore \<Rightarrow> (f64 \<times> nat) result" where
  "getVirtualNodeStore n ns =
     (let hashValue = getNodeHash n;
          virtualNodeIndex = \<lfloor>f64_div hashValue (granularOfRing ns)\<rfloor>
      in if virtualNodeIndex < 0 \<or> virtualNodeIndex \<ge> int (length (vNodeStores ns))
         then Inl (Panicked IndexOutOfRange)
         else Inr (hashValue, nat virtualNodeIndex))"

definition notify_queue :: "ManagedNodeEvent \<Rightarrow> VirtualNodeStore \<Rightarrow> queue_heap \<Rightarrow> queue_heap" where
  "notify_queue e vs h = (case vs_eventQueue vs of None \<Rightarrow> h | Some p \<Rightarrow> heap_enqueue p e h)"

definition put_node :: "nat \<Rightarrow> f64 \<Rightarrow> ManagedNodeEvent \<Rightarrow> NodeStore \<Rightarrow> NodeStore" where
  "put_node i hashValue e ns =
     ns\<lparr>vNodeStores := (vNodeStores ns)[i := (vNodeStores ns ! i)
          \<lparr>nodeEventByHash := gm_put hashValue e (nodeEventByHash (vNodeStores ns ! i))\<rparr>]\<rparr>"

text \<open>A different node with the same hash is only logged, then overwritten and counted again.\<close>

definition addNodeToRing ::
  "ManagedNodeEvent \<Rightarrow> NodeStore \<times> queue_heap \<Rightarrow> (bool \<times> NodeStore \<times> queue_heap) result" where
  "addNodeToRing e = (\<lambda>(ns, h).
     case getVirtualNodeStore e ns of
       Inl err \<Rightarrow> Inl err
     | Inr (hashValue, i) \<Rightarrow>
         let vs = vNodeStores ns ! i;
             h' = notify_queue e vs h;
             sameNode = (case gm_get (nodeEventByHash vs) hashValue of
                           Some oldNode \<Rightarrow> GetId oldNode = GetId e
                         | None \<Rightarrow> False)
         in if sameNode then Inr (False, ns, h')
            else Inr (True, (put_node i hashValue e ns)\<lparr>totalHostNum := totalHostNum ns + 1\<rparr>, h'))"

definition updateNodeInRing ::
  "ManagedNodeEvent \<Rightarrow> NodeStore \<times> queue_heap \<Rightarrow> (NodeStore \<times> queue_heap) result" where
  "updateNodeInRing e = (\<lambda>(ns, h).
     case getVirtualNodeStore e ns of
       Inl err \<Rightarrow> Inl err
     | Inr (hashValue, i) \<Rightarrow>
         let vs = vNodeStores ns ! i;
             h' = notify_queue e vs h
         in (case gm_get (nodeEventByHash vs) hashValue of
               Some oldNode \<Rightarrow>
                 if GetId oldNode = GetId e then
                   if GetResourceVersion oldNode < GetResourceVersion e
                   then Inr (put_node i hashValue e ns, h')
                   else Inr (ns, h')
                 else Inr (ns, h')
             | None \<Rightarrow> map_sum id snd (addNodeToRing e (ns, h'))))"

definition CreateNode ::
  "ManagedNodeEvent \<Rightarrow> NodeStore \<times> queue_heap \<Rightarrow> (NodeStore \<times> queue_heap) result" where
  "CreateNode e w =
     (case addNodeToRing e w of
        Inl err \<Rightarrow> Inl err
      | Inr (isNewNode, w') \<Rightarrow> if \<not> isNewNode then updateNodeInRing e w' else Inr w')"

definition UpdateNode ::
  "ManagedNodeEvent \<Rightarrow> NodeStore \<times> queue_heap \<Rightarrow> (NodeStore \<times> queue_heap) result" where
  "UpdateNode e w = updateNodeInRing e w"

text \<open>\<open>DeleteNode\<close> has an empty body.\<close>

definition DeleteNode :: "NodeEvent \<Rightarrow> NodeStore \<Rightarrow> NodeStore" where
  "DeleteNode e ns = ns"

definition GetNode :: "Region \<Rightarrow> ResourcePartition \<Rightarrow> string \<Rightarrow> NodeStore \<Rightarrow> LogicalNode result" where
  "GetNode region resourcePartition nodeId ns =
     (let n = zero_node\<lparr>node_Id := nodeId\<rparr>;
          mgmtNE = NewManagedNodeEvent (NewNodeEvent n Bookmark) (NewLocation region resourcePartition)
      in case getVirtualNodeStore mgmtNE ns of
           Inl err \<Rightarrow> Inl err
         | Inr (hashValue, i) \<Rightarrow>
             (case gm_get (nodeEventByHash (vNodeStores ns ! i)) hashValue of
                Some oldNode \<Rightarrow> Inr (CopyNode oldNode)
              | None \<Rightarrow> Inl Error_ObjectNotFound))"

text \<open>\<open>ns.currentRVs[region][resourcePartition]\<close> panics when one of the indices is out of range.\<close>

definition rv_index :: "Location \<Rightarrow> NodeStore \<Rightarrow> (nat \<times> nat) result" where
  "rv_index loc ns =
     (let r = loc_region loc; p = loc_partition loc in
      if r < 0 \<or> r \<ge> int (length (currentRVs ns)) then Inl (Panicked IndexOutOfRange)
      else if p < 0 \<or> p \<ge> int (length (currentRVs ns ! nat r)) then Inl (Panicked IndexOutOfRange)
      else Inr (nat r, nat p))"

definition update_rv :: "ManagedNodeEvent \<Rightarrow> NodeStore \<Rightarrow> NodeStore result" where
  "update_rv e ns =
     (case rv_index (GetLocation e) ns of
        Inl err \<Rightarrow> Inl err
      | Inr (r, p) \<Rightarrow>
          if currentRVs ns ! r ! p < GetResourceVersion e
          then Inr (ns\<lparr>currentRVs := (currentRVs ns)[r := (currentRVs ns ! r)[p := GetResourceVersion e]]\<rparr>)
          else Inr ns)"

definition processNodeEvent ::
  "ManagedNodeEvent \<Rightarrow> NodeStore \<times> queue_heap \<Rightarrow> (bool \<times> NodeStore \<times> queue_heap) result" where
  "processNodeEvent e w =
     (let step = (if GetEventType e = Added then Some (CreateNode e w)
                  else if GetEventType e = Modified then Some (UpdateNode e w)
                  else None)
      in case step of
           None \<Rightarrow> Inr (False, w)
         | Some (Inl err) \<Rightarrow> Inl err
         | Some (Inr (ns, h)) \<Rightarrow>
             (case update_rv e ns of Inl err \<Rightarrow> Inl err | Inr ns' \<Rightarrow> Inr (True, ns', h)))"

definition getNodeStoreStatus :: "NodeStore \<Rightarrow> NodeStoreStatus" where
  "getNodeStoreStatus ns =
     \<lparr>ss_RegionNum = regionNum ns, ss_PartitionMaxNum = partitionMaxNum ns,
      ss_VirtualNodeNumPerRP = virtualNodeNum ns div (regionNum ns * partitionMaxNum ns),
      ss_CurrentResourceVerions = GetCurrentResourceVersions ns\<rparr>"

section \<open>A new node store\<close>

text \<open>The locations in the order of the loops of \<open>generateVirtualNodeStores\<close>.\<close>

definition nth_location :: "nat \<Rightarrow> nat \<Rightarrow> Location" where
  "nth_location k m = \<lparr>loc_region = int k, loc_partition = int m\<rparr>"

definition fresh_store :: "Location \<Rightarrow> VirtualNodeStore \<Rightarrow> bool" where
  "fresh_store loc vs \<longleftrightarrow>
     vs_location vs = loc \<and> nodeEventByHash vs = gm_empty \<and> vs_clientId vs = '''' \<and> vs_eventQueue vs = None"

lemma fresh_store_upper [simp]: "fresh_store loc (vs\<lparr>upperbound := u\<rparr>) = fresh_store loc vs"
  by (simp add: fresh_store_def)

lemma length_gen_stores [simp]: "length (gen_stores loc gran n lower) = n"
  by (induction loc gran n lower rule: gen_stores.induct) simp_all

lemma gen_stores_fresh: "vs \<in> set (gen_stores loc gran n lower) \<Longrightarrow> fresh_store loc vs"
  by (induction loc gran n lower rule: gen_stores.induct) (auto simp: fresh_store_def)

lemma set_last_upper_Inr:
  assumes "vss \<noteq> []" "\<And>i. i < length vss \<Longrightarrow> P i (vss ! i)"
    and up: "\<And>i vs. P i vs \<Longrightarrow> P i (vs\<lparr>upperbound := u\<rparr>)"
  shows "\<exists>vss'. set_last_upper u vss = Inr vss' \<and> length vss' = length vss \<and>
    (\<forall>i<length vss. P i (vss' ! i))"
  using assms(1,2) up by (auto simp: set_last_upper_def nth_list_update)

lemma gen_partition_fresh:
  assumes "0 < v" "k < 9" "m < 40"
  shows "\<exists>vss. gen_partition gran v (Regions ! k) m = Inr vss \<and> length vss = v \<and>
    (\<forall>i<v. fresh_store (nth_location k m) (vss ! i))"
proof -
  let ?loc = "nth_location k m" and ?gs = "\<lambda>lower. gen_stores (nth_location k m) gran v lower"
  have loc: "NewLocation (Regions ! k) (int m) = ?loc"
    using assms by (simp add: NewLocation_def nth_location_def Regions_eq)
  define gs where "gs = ?gs (fst (GetArcRangeFromLocation ?loc))"
  have len: "length gs = v" by (simp add: gs_def)
  with assms(1) have ne: "gs \<noteq> []" by auto
  have fresh: "fresh_store ?loc (gs ! i)" if "i < length gs" for i
    using nth_mem [OF that] unfolding gs_def by (rule gen_stores_fresh)
  obtain vss where "set_last_upper (snd (GetArcRangeFromLocation ?loc)) gs = Inr vss"
      "length vss = v" "\<forall>i<v. fresh_store ?loc (vss ! i)"
    using set_last_upper_Inr [OF ne, of "\<lambda>_. fresh_store ?loc" "snd (GetArcRangeFromLocation ?loc)"] fresh
    unfolding len by auto
  with assms(3) show ?thesis
    by (simp add: gen_partition_def Let_def loc GetRPsForRegion_eq gs_def)
qed

lemma traverse_choice:
  assumes "\<And>x. x \<in> set xs \<Longrightarrow> \<exists>y. f x = Inr y \<and> P x y"
  shows "\<exists>ys. traverse f xs = Inr ys \<and> length ys = length xs \<and> (\<forall>i<length xs. P (xs ! i) (ys ! i))"
proof -
  define g where "g x = projr (f x)" for x
  have g: "f x = Inr (g x) \<and> P x (g x)" if "x \<in> set xs" for x
    using assms [OF that] by (auto simp: g_def)
  then have "traverse f xs = Inr (map g xs)" by (intro traverse_Inr) simp
  then show ?thesis using g by simp
qed

lemma gen_region_fresh:
  assumes "0 < v" "k < 9" "p \<le> 40"
  shows "\<exists>vss. gen_region gran v p k = Inr vss \<and> length vss = p * v \<and>
    (\<forall>m<p. \<forall>i<v. fresh_store (nth_location k m) (vss ! (m * v + i)))"
proof -
  obtain yss where ys: "traverse (gen_partition gran v (Regions ! k)) [0..<p] = Inr yss" "length yss = p"
    "\<forall>m<p. length (yss ! m) = v \<and> (\<forall>i<v. fresh_store (nth_location k m) (yss ! m ! i))"
    using traverse_choice [of "[0..<p]" "gen_partition gran v (Regions ! k)"
        "\<lambda>m vss. length vss = v \<and> (\<forall>i<v. fresh_store (nth_location k m) (vss ! i))"]
      gen_partition_fresh [OF assms(1,2)] assms(3) by auto
  have len: "\<forall>xs\<in>set yss. length xs = v" using ys by (auto simp: in_set_conv_nth)
  show ?thesis
    using ys assms(2) concat_nth_chunk [OF len] concat_chunk_total [OF len]
    by (simp add: gen_region_def Regions_eq)
qed

lemma mixed_radix_less: "m < p \<Longrightarrow> i < v \<Longrightarrow> m * v + i < p * v" for m p i v :: nat
proof -
  assume "m < p" "i < v"
  then have "m * v + i < Suc m * v" by simp
  also have "Suc m * v \<le> p * v" using \<open>m < p\<close> by (intro mult_le_mono1) simp
  finally show ?thesis .
qed

lemma mixed_radix_unique:
  "k * n + i = k' * n + i' \<Longrightarrow> i < n \<Longrightarrow> i' < n \<Longrightarrow> k = k' \<and> i = i'" for k k' n i i' :: nat
  by (metis div_mult_self3 div_less add.commute add.right_neutral add_left_cancel less_nat_zero_code
      not_gr_zero)

lemma generate_fresh:
  assumes "0 < v" "0 < r" "r \<le> 9" "0 < p" "p \<le> 40"
  shows "\<exists>vss. generateVirtualNodeStores gran v r p = Inr vss \<and> length vss = r * (p * v) \<and>
    (\<forall>k<r. \<forall>m<p. \<forall>i<v. fresh_store (nth_location k m) (vss ! (k * (p * v) + (m * v + i))))"
proof -
  obtain yss where ys: "traverse (gen_region gran v p) [0..<r] = Inr yss" "length yss = r"
    "\<forall>k<r. length (yss ! k) = p * v \<and>
       (\<forall>m<p. \<forall>i<v. fresh_store (nth_location k m) (yss ! k ! (m * v + i)))"
    using traverse_choice [of "[0..<r]" "gen_region gran v p"
        "\<lambda>k vss. length vss = p * v \<and> (\<forall>m<p. \<forall>i<v. fresh_store (nth_location k m) (vss ! (m * v + i)))"]
      gen_region_fresh [OF assms(1)] assms by auto
  have len: "\<forall>xs\<in>set yss. length xs = p * v" using ys by (auto simp: in_set_conv_nth)
  have total: "length (concat yss) = r * (p * v)"
    using concat_chunk_total [OF len] ys(2) by simp
  have "0 < r * (p * v)" using assms by simp
  with total have ne: "concat yss \<noteq> []" by (metis length_0_conv less_not_refl)
  define P where "P j vs \<longleftrightarrow> (\<forall>k<r. \<forall>m<p. \<forall>i<v. j = k * (p * v) + (m * v + i) \<longrightarrow>
    fresh_store (nth_location k m) vs)" for j vs
  have P: "P j (concat yss ! j)" for j
    using ys(2,3) concat_nth_chunk [OF len] mixed_radix_less by (auto simp: P_def)
  have up: "P j (vs\<lparr>upperbound := u\<rparr>)" if "P j vs" for j vs u
    using that by (simp add: P_def)
  obtain vss where vss: "set_last_upper RingRange (concat yss) = Inr vss" "length vss = r * (p * v)"
    "\<forall>j<r * (p * v). P j (vss ! j)"
    using set_last_upper_Inr [OF ne, of P RingRange] P up total by auto
  have "fresh_store (nth_location k m) (vss ! (k * (p * v) + (m * v + i)))"
    if "k < r" "m < p" "i < v" for k m i
    using vss(3) mixed_radix_less [OF that(1) mixed_radix_less [OF that(2,3)]] that by (simp add: P_def)
  then show ?thesis
    using ys(1) vss by (simp add: generateVirtualNodeStores_def)
qed

text \<open>The configuration of \<open>createNodeStore\<close>, with up to 9 regions of 40 partitions, is built.\<close>

lemma NewNodeStore_ok:
  assumes "0 < v" "0 < r" "r \<le> 9" "0 < p" "p \<le> 40"
  obtains ns where "NewNodeStore v r p = Inr ns"
    "granularOfRing ns = f64_div RingRange (f64_of_int (int (v * r * p)))"
    "regionNum ns = r" "partitionMaxNum ns = p" "virtualNodeNum ns = v * r * p"
    "length (vNodeStores ns) = v * r * p" "totalHostNum ns = 0"
    "currentRVs ns = replicate r (replicate p 0)"
    "\<And>k m i. k < r \<Longrightarrow> m < p \<Longrightarrow> i < v \<Longrightarrow>
       fresh_store (nth_location k m) (vNodeStores ns ! (k * (p * v) + (m * v + i)))"
proof -
  let ?gran = "f64_div RingRange (f64_of_int (int (v * r * p)))"
  obtain vss where "generateVirtualNodeStores ?gran v r p = Inr vss" "length vss = r * (p * v)"
    "\<forall>k<r. \<forall>m<p. \<forall>i<v. fresh_store (nth_location k m) (vss ! (k * (p * v) + (m * v + i)))"
    using generate_fresh [OF assms] by blast
  then show ?thesis
    by (intro that [of "\<lparr>granularOfRing = ?gran, regionNum = r, partitionMaxNum = p,
        resourceSlots = r * p, virtualNodeNum = v * r * p, vNodeStores = vss, totalHostNum = 0,
        currentRVs = replicate r (replicate p 0)\<rparr>"])
      (simp_all add: NewNodeStore_def Let_def)
qed

section \<open>What an event does to the ring\<close>

text \<open>The node kept under a hash value in a virtual store.\<close>

definition slot_of :: "NodeStore \<Rightarrow> f64 \<Rightarrow> nat \<Rightarrow> ManagedNodeEvent option" where
  "slot_of ns k i = gm_get (nodeEventByHash (vNodeStores ns ! i)) k"

definition add_node :: "nat \<Rightarrow> f64 \<Rightarrow> ManagedNodeEvent \<Rightarrow> NodeStore \<Rightarrow> NodeStore" where
  "add_node i k e ns = (put_node i k e ns)\<lparr>totalHostNum := totalHostNum ns + 1\<rparr>"

lemma getVirtualNodeStore_Inr:
  assumes "getVirtualNodeStore e ns = Inr (k, i)"
  shows "i < length (vNodeStores ns)" "k = getNodeHash e"
  using assms by (auto simp: getVirtualNodeStore_def Let_def nat_less_iff simp del: zero_le_floor
      floor_less_zero split: if_splits)

lemma getNodeHash_cong: "GetId e = GetId e' \<Longrightarrow> GetLocation e = GetLocation e' \<Longrightarrow> getNodeHash e = getNodeHash e'"
  by (simp add: getNodeHash_def)

lemma getVirtualNodeStore_cong:
  "granularOfRing ns = granularOfRing ns' \<Longrightarrow> length (vNodeStores ns) = length (vNodeStores ns') \<Longrightarrow>
    getVirtualNodeStore e ns = getVirtualNodeStore e ns'"
  by (simp add: getVirtualNodeStore_def)

lemma put_node_frame [simp]:
  "granularOfRing (put_node i k e ns) = granularOfRing ns"
  "regionNum (put_node i k e ns) = regionNum ns"
  "partitionMaxNum (put_node i k e ns) = partitionMaxNum ns"
  "virtualNodeNum (put_node i k e ns) = virtualNodeNum ns"
  "totalHostNum (put_node i k e ns) = totalHostNum ns"
  "currentRVs (put_node i k e ns) = currentRVs ns"
  "length (vNodeStores (put_node i k e ns)) = length (vNodeStores ns)"
  "getVirtualNodeStore e' (put_node i k e ns) = getVirtualNodeStore e' ns"
  by (simp_all add: put_node_def getVirtualNodeStore_def)

lemma add_node_frame [simp]:
  "granularOfRing (add_node i k e ns) = granularOfRing ns"
  "regionNum (add_node i k e ns) = regionNum ns"
  "partitionMaxNum (add_node i k e ns) = partitionMaxNum ns"
  "virtualNodeNum (add_node i k e ns) = virtualNodeNum ns"
  "totalHostNum (add_node i k e ns) = totalHostNum ns + 1"
  "currentRVs (add_node i k e ns) = currentRVs ns"
  "vNodeStores (add_node i k e ns) = vNodeStores (put_node i k e ns)"
  "getVirtualNodeStore e' (add_node i k e ns) = getVirtualNodeStore e' ns"
  by (simp_all add: add_node_def getVirtualNodeStore_def)

lemma slot_of_put_node:
  "i < length (vNodeStores ns) \<Longrightarrow>
    slot_of (put_node i k e ns) k' i' = (if k' = k \<and> i' = i then Some e else slot_of ns k' i')"
  by (cases "i' = i") (simp_all add: slot_of_def put_node_def gomap_simps)

lemma slot_of_add_node [simp]: "slot_of (add_node i k e ns) = slot_of (put_node i k e ns)"
  by (simp add: slot_of_def fun_eq_iff)

lemma put_node_store:
  "j < length (vNodeStores ns) \<Longrightarrow>
    vs_eventQueue (vNodeStores (put_node i k e ns) ! j) = vs_eventQueue (vNodeStores ns ! j) \<and>
    vs_clientId (vNodeStores (put_node i k e ns) ! j) = vs_clientId (vNodeStores ns ! j) \<and>
    vs_location (vNodeStores (put_node i k e ns) ! j) = vs_location (vNodeStores ns ! j)"
  by (cases "j = i") (simp_all add: put_node_def)

text \<open>The store after an \<open>Added\<close> or \<open>Modified\<close> event, and how often the client's queue gets it.\<close>

definition ring_store :: "ManagedNodeEvent \<Rightarrow> f64 \<Rightarrow> nat \<Rightarrow> NodeStore \<Rightarrow> NodeStore" where
  "ring_store e k i ns =
     (case slot_of ns k i of
        None \<Rightarrow> add_node i k e ns
      | Some old \<Rightarrow>
          if GetId old = GetId e
          then (if GetResourceVersion old < GetResourceVersion e then put_node i k e ns else ns)
          else if GetEventType e = Added then add_node i k e ns else ns)"

definition ring_notifications :: "ManagedNodeEvent \<Rightarrow> f64 \<Rightarrow> nat \<Rightarrow> NodeStore \<Rightarrow> nat" where
  "ring_notifications e k i ns =
     (case slot_of ns k i of
        None \<Rightarrow> if GetEventType e = Added then 1 else 2
      | Some old \<Rightarrow> if GetId old = GetId e \<and> GetEventType e = Added then 2 else 1)"

lemma Added_neq_Modified [simp]: "Added \<noteq> Modified" "Modified \<noteq> Added"
  by (simp_all add: event_types)

lemma CreateNode_eq:
  assumes "getVirtualNodeStore e ns = Inr (k, i)" "GetEventType e = Added"
  shows "CreateNode e (ns, h) =
    Inr (ring_store e k i ns, (notify_queue e (vNodeStores ns ! i) ^^ ring_notifications e k i ns) h)"
  using assms
  by (auto simp: CreateNode_def addNodeToRing_def updateNodeInRing_def Let_def ring_store_def
      ring_notifications_def slot_of_def add_node_def numeral_2_eq_2 split: option.splits)

lemma UpdateNode_eq:
  assumes "getVirtualNodeStore e ns = Inr (k, i)" "GetEventType e = Modified"
  shows "UpdateNode e (ns, h) =
    Inr (ring_store e k i ns, (notify_queue e (vNodeStores ns ! i) ^^ ring_notifications e k i ns) h)"
  using assms
  by (auto simp: UpdateNode_def addNodeToRing_def updateNodeInRing_def Let_def ring_store_def
      ring_notifications_def slot_of_def add_node_def numeral_2_eq_2 split: option.splits)

lemma processNodeEvent_eq:
  assumes "getVirtualNodeStore e ns = Inr (k, i)" "GetEventType e = Added \<or> GetEventType e = Modified"
  shows "processNodeEvent e (ns, h) =
    map_sum id (\<lambda>ns'. (True, ns', (notify_queue e (vNodeStores ns ! i) ^^ ring_notifications e k i ns) h))
      (update_rv e (ring_store e k i ns))"
  using assms
  by (auto simp: processNodeEvent_def CreateNode_eq UpdateNode_eq split: sum.splits)

lemma processNodeEvent_bad_index:
  assumes "getVirtualNodeStore e ns = Inl err" "GetEventType e = Added \<or> GetEventType e = Modified"
  shows "processNodeEvent e (ns, h) = Inl err"
  using assms
  by (auto simp: processNodeEvent_def CreateNode_def UpdateNode_def addNodeToRing_def updateNodeInRing_def)

lemma processNodeEvent_other:
  "GetEventType e \<noteq> Added \<Longrightarrow> GetEventType e \<noteq> Modified \<Longrightarrow> processNodeEvent e w = Inr (False, w)"
  by (simp add: processNodeEvent_def)

lemma processNodeEvent_Inr:
  assumes "processNodeEvent e (ns, h) = Inr (True, ns', h')"
  obtains k i where "getVirtualNodeStore e ns = Inr (k, i)"
    "GetEventType e = Added \<or> GetEventType e = Modified"
    "update_rv e (ring_store e k i ns) = Inr ns'"
    "h' = (notify_queue e (vNodeStores ns ! i) ^^ ring_notifications e k i ns) h"
proof -
  have ty: "GetEventType e = Added \<or> GetEventType e = Modified"
    using assms processNodeEvent_other [of e "(ns, h)"] by auto
  obtain k i where ki: "getVirtualNodeStore e ns = Inr (k, i)"
    using assms processNodeEvent_bad_index [OF _ ty] by (cases "getVirtualNodeStore e ns") fastforce+
  show ?thesis
    using assms processNodeEvent_eq [OF ki ty, of h] by (intro that [OF ki ty]) (auto simp: map_sum_def split: sum.splits)
qed

text \<open>What a slot holds after the event.\<close>

definition absorb :: "ManagedNodeEvent \<Rightarrow> ManagedNodeEvent option \<Rightarrow> ManagedNodeEvent option" where
  "absorb e old =
     (case old of
        None \<Rightarrow> Some e
      | Some o' \<Rightarrow>
          if GetId o' = GetId e
          then (if GetResourceVersion o' < GetResourceVersion e then Some e else Some o')
          else if GetEventType e = Added then Some e else Some o')"

lemma slot_of_ring_store:
  assumes "i < length (vNodeStores ns)"
  shows "slot_of (ring_store e k i ns) k' i' =
    (if k' = k \<and> i' = i then absorb e (slot_of ns k i) else slot_of ns k' i')"
  using slot_of_put_node [OF assms]
  by (auto simp: ring_store_def absorb_def split: option.splits)

lemma ring_store_frame [simp]:
  "granularOfRing (ring_store e k i ns) = granularOfRing ns"
  "regionNum (ring_store e k i ns) = regionNum ns"
  "partitionMaxNum (ring_store e k i ns) = partitionMaxNum ns"
  "virtualNodeNum (ring_store e k i ns) = virtualNodeNum ns"
  "currentRVs (ring_store e k i ns) = currentRVs ns"
  "length (vNodeStores (ring_store e k i ns)) = length (vNodeStores ns)"
  "getVirtualNodeStore e' (ring_store e k i ns) = getVirtualNodeStore e' ns"
  by (simp_all add: ring_store_def split: option.splits)

lemma ring_store_meta:
  "j < length (vNodeStores ns) \<Longrightarrow>
    vs_eventQueue (vNodeStores (ring_store e k i ns) ! j) = vs_eventQueue (vNodeStores ns ! j) \<and>
    vs_clientId (vNodeStores (ring_store e k i ns) ! j) = vs_clientId (vNodeStores ns ! j) \<and>
    vs_location (vNodeStores (ring_store e k i ns) ! j) = vs_location (vNodeStores ns ! j)"
  by (simp add: ring_store_def put_node_store split: option.splits)

lemma update_rv_Inr:
  assumes "update_rv e ns = Inr ns'"
  obtains r p where "rv_index (GetLocation e) ns = Inr (r, p)"
    "ns' = ns\<lparr>currentRVs := (currentRVs ns)[r := (currentRVs ns ! r)
              [p := max (currentRVs ns ! r ! p) (GetResourceVersion e)]]\<rparr>"
proof -
  obtain r p where rp: "rv_index (GetLocation e) ns = Inr (r, p)"
    using assms by (auto simp: update_rv_def split: sum.splits)
  let ?v = "currentRVs ns ! r ! p"
  have same: "ns = ns\<lparr>currentRVs := (currentRVs ns)[r := (currentRVs ns ! r)[p := ?v]]\<rparr>"
    by simp
  show ?thesis
  proof (cases "?v < GetResourceVersion e")
    case True
    then show ?thesis using assms rp by (intro that [OF rp]) (simp add: update_rv_def max_def)
  next
    case False
    then have "ns' = ns" "max ?v (GetResourceVersion e) = ?v"
      using assms rp by (simp_all add: update_rv_def max_def)
    then show ?thesis using same by (intro that [OF rp]) simp
  qed
qed

lemma rv_index_Inr:
  "rv_index loc ns = Inr (r, p) \<longleftrightarrow>
     loc = nth_location r p \<and> r < length (currentRVs ns) \<and> p < length (currentRVs ns ! r)"
  by (cases loc) (auto simp: rv_index_def nth_location_def Let_def nat_less_iff)

section \<open>The invariant\<close>

text \<open>
  Every node is kept in the virtual store and under the hash value its id and location give; the
  host count is at least the number of nodes kept (a hash collision counts twice); every node's
  version is covered by the current version of its location.
\<close>

definition nodes_placed :: "NodeStore \<Rightarrow> bool" where
  "nodes_placed ns \<longleftrightarrow>
     (\<forall>i<length (vNodeStores ns). gm_wf (nodeEventByHash (vNodeStores ns ! i)) \<and>
        (\<forall>k e. slot_of ns k i = Some e \<longrightarrow> getVirtualNodeStore e ns = Inr (k, i)))"

definition hosts_counted :: "NodeStore \<Rightarrow> bool" where
  "hosts_counted ns \<longleftrightarrow> sum_list (map GetHostNum (vNodeStores ns)) \<le> totalHostNum ns"

definition rv_of :: "NodeStore \<Rightarrow> Location \<Rightarrow> uint64" where
  "rv_of ns loc = (case rv_index loc ns of Inr (r, p) \<Rightarrow> currentRVs ns ! r ! p | Inl _ \<Rightarrow> 0)"

definition rvs_cover :: "NodeStore \<Rightarrow> bool" where
  "rvs_cover ns \<longleftrightarrow>
     (\<forall>i<length (vNodeStores ns). \<forall>k e. slot_of ns k i = Some e \<longrightarrow>
        GetResourceVersion e \<le> rv_of ns (GetLocation e))"

definition rvs_shape :: "NodeStore \<Rightarrow> bool" where
  "rvs_shape ns \<longleftrightarrow> length (currentRVs ns) = regionNum ns \<and>
     (\<forall>row\<in>set (currentRVs ns). length row = partitionMaxNum ns)"

definition queues_linked :: "NodeStore \<Rightarrow> queue_heap \<Rightarrow> bool" where
  "queues_linked ns h \<longleftrightarrow>
     (\<forall>vs\<in>set (vNodeStores ns). \<forall>p. vs_eventQueue vs = Some p \<longrightarrow> p < length h) \<and>
     (\<forall>q\<in>set h. NodeEventQueue_wf q)"

definition NodeStore_inv :: "NodeStore \<Rightarrow> queue_heap \<Rightarrow> bool" where
  "NodeStore_inv ns h \<longleftrightarrow>
     nodes_placed ns \<and> hosts_counted ns \<and> rvs_cover ns \<and> rvs_shape ns \<and> queues_linked ns h"

lemma GetHostNum_put:
  "GetHostNum (vs\<lparr>nodeEventByHash := gm_put k e (nodeEventByHash vs)\<rparr>) =
     (if gm_get (nodeEventByHash vs) k = None then Suc (GetHostNum vs) else GetHostNum vs)"
  by (simp add: GetHostNum_def gomap_simps)

lemma sum_hosts_put_node:
  assumes "i < length (vNodeStores ns)"
  shows "sum_list (map GetHostNum (vNodeStores (put_node i k e ns))) =
    sum_list (map GetHostNum (vNodeStores ns)) + (if slot_of ns k i = None then 1 else 0)"
  using sum_list_update_nat [OF assms, of GetHostNum
      "(vNodeStores ns ! i)\<lparr>nodeEventByHash := gm_put k e (nodeEventByHash (vNodeStores ns ! i))\<rparr>"]
  by (simp add: put_node_def GetHostNum_put slot_of_def split: if_splits)

lemma hosts_counted_ring_store:
  "hosts_counted ns \<Longrightarrow> i < length (vNodeStores ns) \<Longrightarrow> hosts_counted (ring_store e k i ns)"
  by (simp add: hosts_counted_def ring_store_def sum_hosts_put_node split: option.splits)

text \<open>Without a collision of hash values the count is exact.\<close>

lemma hosts_exact_ring_store:
  assumes "sum_list (map GetHostNum (vNodeStores ns)) = totalHostNum ns" "i < length (vNodeStores ns)"
    and "\<And>old. slot_of ns k i = Some old \<Longrightarrow> GetId old = GetId e"
  shows "sum_list (map GetHostNum (vNodeStores (ring_store e k i ns))) = totalHostNum (ring_store e k i ns)"
  using assms by (auto simp: ring_store_def sum_hosts_put_node split: option.splits)

lemma gm_wf_ring_store:
  "j < length (vNodeStores ns) \<Longrightarrow> gm_wf (nodeEventByHash (vNodeStores ns ! j)) \<Longrightarrow>
    gm_wf (nodeEventByHash (vNodeStores (ring_store e k i ns) ! j))"
  by (cases "j = i") (simp_all add: ring_store_def add_node_def put_node_def split: option.splits)

lemma nodes_placed_ring_store:
  assumes "nodes_placed ns" "getVirtualNodeStore e ns = Inr (k, i)"
  shows "nodes_placed (ring_store e k i ns)"
  using assms gm_wf_ring_store [of _ ns e k i] slot_of_ring_store [OF getVirtualNodeStore_Inr(1) [OF assms(2)]]
  by (auto simp: nodes_placed_def absorb_def split: if_splits option.splits)

lemma NewNodeStore_inv:
  assumes "NewNodeStore v r p = Inr ns" "0 < v" "0 < r" "r \<le> 9" "0 < p" "p \<le> 40"
  shows "NodeStore_inv ns []"
proof -
  obtain ns' where ns': "NewNodeStore v r p = Inr ns'"
    "length (vNodeStores ns') = v * r * p" "totalHostNum ns' = 0"
    "regionNum ns' = r" "partitionMaxNum ns' = p" "currentRVs ns' = replicate r (replicate p 0)"
    and fresh: "\<And>k m i. k < r \<Longrightarrow> m < p \<Longrightarrow> i < v \<Longrightarrow>
       fresh_store (nth_location k m) (vNodeStores ns' ! (k * (p * v) + (m * v + i)))"
    using NewNodeStore_ok [OF assms(2-6)] by metis
  have "ns' = ns" using ns'(1) assms(1) by simp
  note ns = ns'(2-6) [unfolded this] and fresh = fresh [unfolded this]
  have st: "\<exists>loc. fresh_store loc (vNodeStores ns ! j)" if "j < v * r * p" for j
  proof -
    have "j < r * (p * v)" using that by (simp add: mult.commute mult.left_commute)
    then have "j div (p * v) < r" by (simp add: less_mult_imp_div_less)
    moreover have "j mod (p * v) < p * v" using assms by simp
    then have "j mod (p * v) div v < p" by (simp add: less_mult_imp_div_less)
    moreover have "j mod (p * v) mod v < v" using assms by simp
    ultimately have "fresh_store (nth_location (j div (p * v)) (j mod (p * v) div v))
        (vNodeStores ns ! (j div (p * v) * (p * v) + (j mod (p * v) div v * v + j mod (p * v) mod v)))"
      by (rule fresh)
    then show ?thesis unfolding div_mult_mod_eq by blast
  qed
  then have empty: "nodeEventByHash (vNodeStores ns ! j) = gm_empty \<and> vs_eventQueue (vNodeStores ns ! j) = None"
    if "j < v * r * p" for j using that unfolding fresh_store_def by blast
  then have "map GetHostNum (vNodeStores ns) = replicate (v * r * p) 0"
    using ns(1) by (intro nth_equalityI) (simp_all add: GetHostNum_def gm_len_def gm_empty_def)
  then show ?thesis
    using ns empty
    by (auto simp: NodeStore_inv_def nodes_placed_def hosts_counted_def rvs_cover_def rvs_shape_def
        queues_linked_def slot_of_def in_set_conv_nth)
qed

lemma heap_enqueue_length [simp]: "length (heap_enqueue p e h) = length h"
  by (simp add: heap_enqueue_def)

lemma notify_queue_length [simp]: "length (notify_queue e vs h) = length h"
  by (simp add: notify_queue_def split: option.splits)

lemma notify_queue_wf:
  assumes "\<forall>q\<in>set h. NodeEventQueue_wf q" "\<And>p. vs_eventQueue vs = Some p \<Longrightarrow> p < length h"
  shows "\<forall>q\<in>set (notify_queue e vs h). NodeEventQueue_wf q"
  using assms
  by (auto simp: notify_queue_def heap_enqueue_def split: option.splits
      dest!: set_update_subset_insert [THEN subsetD])

lemma notify_queue_pow:
  assumes "\<forall>q\<in>set h. NodeEventQueue_wf q" "\<And>p. vs_eventQueue vs = Some p \<Longrightarrow> p < length h"
  shows "(\<forall>q\<in>set ((notify_queue e vs ^^ n) h). NodeEventQueue_wf q) \<and> length ((notify_queue e vs ^^ n) h) = length h"
proof (induction n)
  case (Suc n)
  then show ?case
    using assms(2) notify_queue_wf [of "(notify_queue e vs ^^ n) h" vs e] by simp
qed (use assms in simp)

lemma queues_linked_ring_store:
  assumes "queues_linked ns h" "i < length (vNodeStores ns)"
  shows "queues_linked (ring_store e k i ns) ((notify_queue e (vNodeStores ns ! i) ^^ n) h)"
proof -
  have "\<forall>q\<in>set h. NodeEventQueue_wf q"
    and link: "\<And>j p. j < length (vNodeStores ns) \<Longrightarrow> vs_eventQueue (vNodeStores ns ! j) = Some p \<Longrightarrow> p < length h"
    using assms(1) by (auto simp: queues_linked_def)
  with notify_queue_pow [of h "vNodeStores ns ! i" n e] assms(2) show ?thesis
    using ring_store_meta [of _ ns e k i]
    by (auto simp: queues_linked_def in_set_conv_nth)
qed

lemma rv_index_frame:
  "map length (currentRVs ns) = map length (currentRVs ns') \<Longrightarrow> rv_index loc ns = rv_index loc ns'"
proof -
  assume m: "map length (currentRVs ns) = map length (currentRVs ns')"
  then have "length (currentRVs ns) = length (currentRVs ns')" by (rule map_eq_imp_length_eq)
  moreover have "length (currentRVs ns ! r) = length (currentRVs ns' ! r)" if "r < length (currentRVs ns)" for r
    using that m by (metis calculation nth_map)
  ultimately show ?thesis by (auto simp: rv_index_def Let_def nat_less_iff)
qed

lemma update_rv_of:
  assumes "update_rv e ns = Inr ns'"
  shows "rv_of ns' loc = (if loc = GetLocation e then max (rv_of ns loc) (GetResourceVersion e) else rv_of ns loc)"
proof -
  obtain r p where rp: "rv_index (GetLocation e) ns = Inr (r, p)"
    and ns': "ns' = ns\<lparr>currentRVs := (currentRVs ns)[r := (currentRVs ns ! r)
              [p := max (currentRVs ns ! r ! p) (GetResourceVersion e)]]\<rparr>"
    using assms by (rule update_rv_Inr)
  have e: "GetLocation e = nth_location r p" "r < length (currentRVs ns)" "p < length (currentRVs ns ! r)"
    using rp by (simp_all add: rv_index_Inr)
  have idx: "rv_index l ns' = rv_index l ns" for l
    using e unfolding ns' by (intro rv_index_frame) (simp add: map_update list_update_same_conv)
  show ?thesis
  proof (cases "rv_index loc ns")
    case (Inl err)
    with rp show ?thesis by (auto simp: rv_of_def idx)
  next
    case (Inr rp')
    obtain r' p' where [simp]: "rp' = (r', p')" by (cases rp')
    have "loc = nth_location r' p'" using Inr by (simp add: rv_index_Inr)
    then have "loc = GetLocation e \<longleftrightarrow> r' = r \<and> p' = p" using e(1) by (auto simp: nth_location_def)
    then show ?thesis
      using Inr rp e idx [of loc] by (cases "r' = r"; cases "p' = p") (auto simp: rv_of_def ns')
  qed
qed

lemma rv_of_ring_store [simp]: "rv_of (ring_store e k i ns) = rv_of ns"
proof
  fix loc
  have "rv_index loc (ring_store e k i ns) = rv_index loc ns" by (rule rv_index_frame) simp
  then show "rv_of (ring_store e k i ns) loc = rv_of ns loc"
    by (simp add: rv_of_def split: sum.splits)
qed

lemma update_rv_frame:
  assumes "update_rv e ns = Inr ns'"
  shows "vNodeStores ns' = vNodeStores ns" "totalHostNum ns' = totalHostNum ns"
    "granularOfRing ns' = granularOfRing ns" "regionNum ns' = regionNum ns"
    "partitionMaxNum ns' = partitionMaxNum ns" "slot_of ns' = slot_of ns"
    "getVirtualNodeStore e' ns' = getVirtualNodeStore e' ns"
  using assms
  by (auto simp: update_rv_def slot_of_def fun_eq_iff getVirtualNodeStore_def split: sum.splits if_splits)

lemma rvs_shape_update_rv:
  assumes "update_rv e ns = Inr ns'" "rvs_shape ns"
  shows "rvs_shape ns'"
  using assms(1)
proof (rule update_rv_Inr)
  fix r p
  assume rp: "rv_index (GetLocation e) ns = Inr (r, p)"
    and ns': "ns' = ns\<lparr>currentRVs := (currentRVs ns)[r := (currentRVs ns ! r)
              [p := max (currentRVs ns ! r ! p) (GetResourceVersion e)]]\<rparr>"
  have "map length (currentRVs ns') = map length (currentRVs ns)"
    using rp unfolding ns' by (simp add: rv_index_Inr map_update list_update_same_conv)
  moreover have "regionNum ns' = regionNum ns" "partitionMaxNum ns' = partitionMaxNum ns"
    by (simp_all add: ns')
  ultimately show ?thesis using assms(2) unfolding rvs_shape_def
    by (metis (no_types) length_map nth_map in_set_conv_nth)
qed

lemma rvs_cover_process:
  assumes "rvs_cover ns" "i < length (vNodeStores ns)" "update_rv e (ring_store e k i ns) = Inr ns'"
  shows "rvs_cover ns'"
proof -
  have "GetResourceVersion e' \<le> rv_of ns' (GetLocation e')"
    if "j < length (vNodeStores ns)" "slot_of (ring_store e k i ns) k' j = Some e'" for j k' e'
  proof (cases "e' = e")
    case True
    then show ?thesis by (simp add: update_rv_of [OF assms(3)])
  next
    case False
    then have "slot_of ns k' j = Some e'"
      using that(2) unfolding slot_of_ring_store [OF assms(2)]
      by (auto simp: absorb_def split: if_splits option.splits)
    then have "GetResourceVersion e' \<le> rv_of ns (GetLocation e')"
      using assms(1) that(1) by (auto simp: rvs_cover_def)
    then show ?thesis by (auto simp: update_rv_of [OF assms(3)] le_max_iff_disj)
  qed
  then show ?thesis by (simp add: rvs_cover_def update_rv_frame [OF assms(3)])
qed

lemma processNodeEvent_inv_step:
  assumes "NodeStore_inv ns h" "processNodeEvent e (ns, h) = Inr (b, ns', h')"
  shows "NodeStore_inv ns' h' \<and> length h' = length h"
proof (cases b)
  case False
  then have "(ns', h') = (ns, h)"
    using assms(2) by (auto simp: processNodeEvent_def Let_def split: if_splits sum.splits)
  with assms(1) show ?thesis by simp
next
  case True
  obtain k i where ki: "getVirtualNodeStore e ns = Inr (k, i)"
    and up: "update_rv e (ring_store e k i ns) = Inr ns'"
    and h': "h' = (notify_queue e (vNodeStores ns ! i) ^^ ring_notifications e k i ns) h"
    using processNodeEvent_Inr [of e ns h ns' h'] assms(2) True by (metis (full_types))
  note i = getVirtualNodeStore_Inr(1) [OF ki] and F = update_rv_frame [OF up]
  have inv: "nodes_placed ns" "hosts_counted ns" "rvs_cover ns" "rvs_shape ns" "queues_linked ns h"
    using assms(1) by (simp_all add: NodeStore_inv_def)
  have "nodes_placed ns'" using nodes_placed_ring_store [OF inv(1) ki] by (simp add: nodes_placed_def F)
  moreover have "hosts_counted ns'"
    using hosts_counted_ring_store [OF inv(2) i, of e k] by (simp add: hosts_counted_def F)
  moreover have "rvs_cover ns'" using rvs_cover_process [OF inv(3) i up] .
  moreover have "rvs_shape (ring_store e k i ns)" using inv(4) by (simp add: rvs_shape_def)
  then have "rvs_shape ns'" by (rule rvs_shape_update_rv [OF up])
  moreover have "queues_linked ns' h'"
    using queues_linked_ring_store [OF inv(5) i, of e k] by (simp add: queues_linked_def F h')
  moreover have "length ((notify_queue e vs ^^ n) h) = length h" for vs n
    by (induction n) simp_all
  then have "length h' = length h" by (simp add: h')
  ultimately show ?thesis by (simp add: NodeStore_inv_def)
qed

section \<open>Reading the store\<close>

lemma fold_put_if:
  "fold (\<lambda>x m. if P x then gm_put (f x) (g x) m else m) xs m = fold (\<lambda>x. gm_put (f x) (g x)) (filter P xs) m"
  by (induction xs arbitrary: m) simp_all

lemma set_rv_slots: "set (rv_slots r p) = {0..<r} \<times> {0..<p}"
  by (auto simp: rv_slots_def)

lemma distinct_rv_slots: "distinct (rv_slots r p)"
  by (induction r) (auto simp: rv_slots_def distinct_map inj_on_def)

lemma GetCurrentResourceVersions_get:
  assumes "rvs_shape ns" "regionNum ns \<le> 9" "partitionMaxNum ns \<le> 40"
  shows "gm_get (GetCurrentResourceVersions ns) l =
    (let rv = rv_of ns \<lparr>loc_region = rv_Region l, loc_partition = rv_Partition l\<rparr>
     in if rv > 0 then Some rv else None)"
proof -
  let ?loc = "\<lparr>loc_region = rv_Region l, loc_partition = rv_Partition l\<rparr> :: Location"
  let ?slots = "rv_slots (regionNum ns) (partitionMaxNum ns)"
  let ?P = "\<lambda>(i, j). currentRVs ns ! i ! j > 0"
  let ?f = "\<lambda>(i, j). \<lparr>rv_Region = Regions ! i, rv_Partition = ResourcePartitions ! j\<rparr>"
  let ?g = "\<lambda>(i, j). currentRVs ns ! i ! j"
  have eq: "GetCurrentResourceVersions ns = fold (\<lambda>x. gm_put (?f x) (?g x)) (filter ?P ?slots) gm_empty"
    unfolding GetCurrentResourceVersions_def fold_put_if [symmetric]
    by (intro fold_cong) (auto simp: fun_eq_iff)
  have f: "?f (i, j) = \<lparr>rv_Region = int i, rv_Partition = int j\<rparr>" if "(i, j) \<in> set ?slots" for i j
    using that assms by (simp add: set_rv_slots Regions_eq ResourcePartitions_eq)
  have "inj_on ?f (set ?slots)"
    using assms by (auto intro!: inj_onI simp: set_rv_slots Regions_eq ResourcePartitions_eq)
  then have dist: "distinct (map ?f (filter ?P ?slots))"
    using distinct_rv_slots by (simp add: distinct_map inj_on_def)
  have idx: "rv_index (nth_location i j) ns = Inr (i, j) \<longleftrightarrow> (i, j) \<in> set ?slots" for i j
    using assms(1) by (auto simp: rv_index_Inr set_rv_slots rvs_shape_def)
  show ?thesis
  proof (cases "rv_index ?loc ns")
    case (Inl err)
    have "l \<notin> ?f ` set (filter ?P ?slots)"
    proof
      assume "l \<in> ?f ` set (filter ?P ?slots)"
      then obtain i j where ij: "(i, j) \<in> set ?slots" "l = ?f (i, j)" by auto
      then have "l = \<lparr>rv_Region = int i, rv_Partition = int j\<rparr>" unfolding f [OF ij(1)] by blast
      then have "?loc = nth_location i j" by (simp add: nth_location_def)
      then have "rv_index ?loc ns = Inr (i, j)" using idx [of i j] ij(1) by simp
      with Inl show False by simp
    qed
    then show ?thesis
      unfolding eq using gm.lookup_fold_other [of l ?f _ ?g gm_empty] Inl by (simp add: rv_of_def)
  next
    case (Inr ij)
    obtain i j where ij [simp]: "ij = (i, j)" by (cases ij)
    have loc: "?loc = nth_location i j" and inS: "(i, j) \<in> set ?slots"
      using Inr idx [of i j] by (auto simp: rv_index_Inr nth_location_def)
    have l: "l = ?f (i, j)"
      using loc f [OF inS] by (cases l) (simp add: nth_location_def)
    have rv: "rv_of ns ?loc = currentRVs ns ! i ! j" using Inr by (simp add: rv_of_def)
    show ?thesis
    proof (cases "currentRVs ns ! i ! j > 0")
      case True
      then have "(i, j) \<in> set (filter ?P ?slots)" using inS by simp
      then have "gm_get (GetCurrentResourceVersions ns) (?f (i, j)) = Some (?g (i, j))"
        unfolding eq using dist by (rule gm.lookup_fold_unique)
      then show ?thesis unfolding Let_def rv l [symmetric] using True by simp
    next
      case False
      have "l \<notin> ?f ` set (filter ?P ?slots)"
      proof
        assume "l \<in> ?f ` set (filter ?P ?slots)"
        then obtain i' j' where "(i', j') \<in> set ?slots" "?P (i', j')" "l = ?f (i', j')" by auto
        then have "(i', j') = (i, j)" "?P (i', j')" using f inS l by fastforce+
        with False show False by simp
      qed
      then show ?thesis
        unfolding eq Let_def rv using gm.lookup_fold_other [of l ?f _ ?g gm_empty] False by simp
    qed
  qed
qed

text \<open>A snapshot: every node kept, and for each location the newest version among them.\<close>

lemma SnapShot_nodes:
  "range_order ord \<Longrightarrow>
    mset (fst (SnapShot ord vs)) = image_mset (\<lambda>kv. ne_Node (nodeEvent (snd kv))) (mset (nodeEventByHash vs))"
  by (simp add: SnapShot_def Let_def range_order_mset)

definition newest_rv :: "ManagedNodeEvent set \<Rightarrow> RvLocation \<Rightarrow> uint64 option" where
  "newest_rv es l =
     (let vs = GetResourceVersion ` {e \<in> es. GetRvLocation e = l} in
      if vs = {} then None else Some (Max vs))"

lemma SnapShot_rvs:
  assumes "range_order ord"
  shows "gm_get (snd (SnapShot ord vs)) l = newest_rv (snd ` set (nodeEventByHash vs)) l"
proof -
  let ?es = "ord (nodeEventByHash vs)"
  let ?kv = "map (\<lambda>kv. (GetRvLocation (snd kv), GetResourceVersion (snd kv))) ?es"
  have "snd (SnapShot ord vs) = fold (\<lambda>(l, rv). keep_newest_rv l rv) ?kv gm_empty"
    by (simp add: SnapShot_def Let_def fold_map comp_def)
  moreover define vl where "vl = [rv. (l', rv) \<leftarrow> ?kv, l' = l]"
  ultimately have get: "gm_get (snd (SnapShot ord vs)) l =
      (case vl of [] \<Rightarrow> None | v # vs' \<Rightarrow> Some (fold max vs' v))"
    by (simp add: keep_newest_rv_fold Let_def)
  have set_eq: "set vl = GetResourceVersion ` {e \<in> snd ` set (nodeEventByHash vs). GetRvLocation e = l}"
    using assms by (auto simp: vl_def image_iff)
  show ?thesis
  proof (cases vl)
    case Nil
    have "GetResourceVersion ` {e \<in> snd ` set (nodeEventByHash vs). GetRvLocation e = l} = {}"
      unfolding set_eq [symmetric] Nil by simp
    then show ?thesis using get Nil by (simp add: newest_rv_def Let_def)
  next
    case (Cons v vs')
    have "GetResourceVersion ` {e \<in> snd ` set (nodeEventByHash vs). GetRvLocation e = l} = insert v (set vs')"
      unfolding set_eq [symmetric] Cons by simp
    then show ?thesis using get Cons by (simp add: newest_rv_def Let_def fold_max_Max)
  qed
qed

lemma GenerateBookmarkEvent_location:
  assumes "GenerateBookmarkEvent ord vs = Some e" "range_order ord"
  shows "\<exists>k n. (k, n) \<in> set (nodeEventByHash vs) \<and> GetLocation e = GetLocation n \<and>
    ne_Type (GetNodeEvent e) = Bookmark \<and> ne_Node (GetNodeEvent e) = ne_Node (nodeEvent n)"
proof -
  obtain k n rest where o': "ord (nodeEventByHash vs) = (k, n) # rest"
    and e: "e = NewManagedNodeEvent (NewNodeEvent (CopyNode n) Bookmark) (GetLocation n)"
    using assms(1) by (auto simp: GenerateBookmarkEvent_def split: list.splits)
  have "(k, n) \<in> set (nodeEventByHash vs)"
    using range_order_set [OF assms(2), of "nodeEventByHash vs"] o' by (metis list.set_intros(1))
  then show ?thesis unfolding e by (auto simp: NewNodeEvent_def)
qed

text \<open>\<open>GetNode\<close> reads the slot that the location and the id select.\<close>

definition node_query :: "Location \<Rightarrow> string \<Rightarrow> ManagedNodeEvent" where
  "node_query loc nodeId =
     NewManagedNodeEvent (NewNodeEvent (zero_node\<lparr>node_Id := nodeId\<rparr>) Bookmark) loc"

lemma node_query_hash:
  "getVirtualNodeStore (node_query (GetLocation e) (GetId e)) ns = getVirtualNodeStore e ns"
  using getNodeHash_cong [of "node_query (GetLocation e) (GetId e)" e]
  by (simp add: getVirtualNodeStore_def node_query_def NewNodeEvent_def)

lemma GetNode_slot:
  "GetNode r p nodeId ns =
    (case getVirtualNodeStore (node_query (NewLocation r p) nodeId) ns of
       Inl err \<Rightarrow> Inl err
     | Inr (k, i) \<Rightarrow> (case slot_of ns k i of Some n \<Rightarrow> Inr (ne_Node (nodeEvent n)) | None \<Rightarrow> Inl Error_ObjectNotFound))"
  by (simp add: GetNode_def Let_def node_query_def slot_of_def split: sum.splits option.splits)

lemma GetNode_event:
  assumes "getVirtualNodeStore e ns = Inr (k, i)"
  shows "GetNode (loc_region (GetLocation e)) (loc_partition (GetLocation e)) (GetId e) ns =
    (case slot_of ns k i of Some n \<Rightarrow> Inr (ne_Node (nodeEvent n)) | None \<Rightarrow> Inl Error_ObjectNotFound)"
proof -
  have "NewLocation (loc_region (GetLocation e)) (loc_partition (GetLocation e)) = GetLocation e"
    by (simp add: NewLocation_def)
  then show ?thesis using assms by (simp add: GetNode_slot node_query_hash)
qed

end
