(* ===== verification/GRS_Ring.thy ===== *)
theory GRS_Ring
  imports GRS_NodeStore
begin

text \<open>
  Where a node lands on the ring in the configuration \<open>createNodeStore\<close> uses: 9 regions of 40
  partitions with 1000 virtual stores each. The granularity, \<open>360 / 360000\<close> in \<open>float64\<close>, is
  slightly larger than 1/1000. The lemmas show that nodes land in the 1000 stores of their own
  location, except for hash values so close to the end of the arc (or 0) that the position rounds
  to the upper end of the arc, which belongs to the next location.
\<close>

section \<open>The granularity\<close>

definition default_gran :: f64 where
  "default_gran = f64_div RingRange (f64_of_int 360000)"

lemma default_gran_eq: "default_gran = 1152921504606847 / 2 ^ 60"
proof -
  have n: "f64_of_int 360000 = 360000" using f64_of_int_small [of 360000] by simp
  have "f64_rep (of_int 1152921504606847 * 2 powi (- 60))"
    by (rule f64_repI [OF _ _ refl]) simp_all
  moreover have "of_int 1152921504606847 * 2 powi (- 60) = (1152921504606847 / 2 ^ 60 :: rat)"
    by (simp add: power_int_minus field_simps)
  ultimately have rep: "f64_rep (1152921504606847 / 2 ^ 60)" by simp
  show ?thesis
    unfolding default_gran_def f64_div_def n RingRange_def
    by (rule fl_near [OF rep]) simp
qed

lemma default_gran_bounds: "1 / 1000 < default_gran" "default_gran < 1 / 1000 * (1 + 1 / 2 ^ 55)"
  unfolding default_gran_eq by simp_all

lemma default_gran_pos: "0 < default_gran"
  unfolding default_gran_eq by simp

section \<open>The position of a node\<close>

lemma f64_of_int_max: "f64_of_int (2 ^ 64 - 1) = 2 ^ 64"
proof -
  have "f64_rep (2 powi 64)" by (rule f64_rep_powi)
  then have rep: "f64_rep (2 ^ 64)" by simp
  show ?thesis unfolding f64_of_int_def by (rule fl_near [OF rep]) simp
qed

lemma fl_nonneg: "0 \<le> x \<Longrightarrow> 0 \<le> fl x"
  using fl_mono [of 0 x] by simp

lemma ring_value_bounds:
  assumes "h \<noteq> 0" "uint h \<le> 2 ^ 64 - 2 ^ 20"
  shows "0 \<le> ring_value h" "ring_value h \<le> 1 - 1 / 2 ^ 44"
proof -
  have rep: "f64_rep (2 ^ 64 - 2 ^ 20)"
    by (rule f64_repI [of "2 ^ 44 - 1" _ 20]) simp_all
  have "of_int (uint h) \<le> (of_int (2 ^ 64 - 2 ^ 20) :: rat)" using assms(2) by (simp only: of_int_le_iff)
  then have le: "of_int (uint h) \<le> (2 ^ 64 - 2 ^ 20 :: rat)" by simp
  have n: "f64_of_int (uint h) \<le> 2 ^ 64 - 2 ^ 20"
    using fl_mono [OF le] fl_rep [OF rep] unfolding f64_of_int_def by linarith
  have "0 \<le> rat_of_int (uint h)" by (simp only: of_int_0_le_iff uint_ge_0)
  then have "0 \<le> f64_of_int (uint h)" unfolding f64_of_int_def by (rule fl_nonneg)
  then have d: "0 \<le> f64_of_int (uint h) / 2 ^ 64" "f64_of_int (uint h) / 2 ^ 64 \<le> 1 - 1 / 2 ^ 44"
    using n by simp_all
  have rep1: "f64_rep (1 - 1 / 2 ^ 44)"
    by (rule f64_repI [of "2 ^ 44 - 1" _ "-44"]) (simp_all add: power_int_minus field_simps)
  have rv: "ring_value h = fl (f64_of_int (uint h) / 2 ^ 64)"
    unfolding ring_value_def f64_div_def f64_of_int_max using assms(1) by (simp only: if_False)
  show "0 \<le> ring_value h" unfolding rv using d(1) by (rule fl_nonneg)
  show "ring_value h \<le> 1 - 1 / 2 ^ 44"
    using fl_mono [OF d(2)] fl_rep [OF rep1] unfolding rv by linarith
qed

lemma ring_value_rep: "fl (ring_value h) = ring_value h"
proof (cases "h = 0")
  case True
  then show ?thesis using fl_int [of 1] by (simp add: ring_value_def)
next
  case False
  then have "0 < uint h" by (metis unsigned_eq_0_iff uint_ge_0 order_less_le)
  then have "0 < rat_of_int (uint h)" by (simp only: of_int_0_less_iff)
  then have "0 < f64_of_int (uint h)" unfolding f64_of_int_def by (simp only: fl_of_pos fl_pos_pos)
  then have "0 < f64_of_int (uint h) / 2 ^ 64" by simp
  then show ?thesis
    unfolding ring_value_def f64_div_def f64_of_int_max using False
    by (simp only: if_False fl_rep f64_rep_fl)
qed

lemma getNodeHash_eq:
  assumes "valid_location (GetLocation e)"
  shows "getNodeHash e = fl (of_int (loc_index (GetLocation e)) + ring_value (HashStrToUInt64 (GetId e)))"
proof -
  have "f64_sub (of_int (loc_index (GetLocation e) + 1)) (of_int (loc_index (GetLocation e))) = 1"
    using fl_int [of 1] by (simp add: f64_sub_def)
  then show ?thesis
    by (simp add: getNodeHash_def Let_def arc_range [OF assms] f64_mul_def ring_value_rep f64_add_def)
qed

lemma ring_position:
  assumes "valid_location (GetLocation e)" "h = HashStrToUInt64 (GetId e)" "h \<noteq> 0" "uint h \<le> 2 ^ 64 - 2 ^ 20"
  shows "of_int (loc_index (GetLocation e)) \<le> getNodeHash e"
    "getNodeHash e \<le> of_int (loc_index (GetLocation e)) + 1 - 1 / 2 ^ 44"
proof -
  let ?L = "loc_index (GetLocation e)"
  have L: "0 \<le> ?L" "?L < 360" using loc_index_bounds [OF assms(1)] by simp_all
  note rv = ring_value_bounds [OF assms(3,4)]
  have hash: "getNodeHash e = fl (of_int ?L + ring_value h)"
    using getNodeHash_eq [OF assms(1)] assms(2) by simp
  have "fl (of_int ?L) = of_int ?L" using L by (intro fl_int) simp_all
  then show "of_int ?L \<le> getNodeHash e"
    unfolding hash using fl_mono [of "of_int ?L" "of_int ?L + ring_value h"] rv(1) by simp
  have rep: "f64_rep (of_int ?L + 1 - 1 / 2 ^ 44)"
    using L by (intro f64_repI [of "(?L + 1) * 2 ^ 44 - 1" _ "-44"])
      (simp_all add: power_int_minus field_simps)
  have "of_int ?L + ring_value h \<le> of_int ?L + 1 - 1 / 2 ^ 44" using rv(2) by simp
  from fl_mono [OF this] show "getNodeHash e \<le> of_int ?L + 1 - 1 / 2 ^ 44"
    unfolding hash fl_rep [OF rep] .
qed

section \<open>The virtual store of a node\<close>

lemma div_gran_lower:
  assumes "of_int L \<le> x" "0 \<le> L" "L \<le> 360"
  shows "of_int (1000 * L) \<le> f64_div x default_gran"
proof (cases "L = 0")
  case True
  then have "0 \<le> x / default_gran" using assms(1) default_gran_pos by simp
  then show ?thesis using True by (simp add: f64_div_def fl_nonneg)
next
  case False
  define g where "g = default_gran"
  define y where "y = rat_of_int (1000 * L)"
  have g: "0 < g" "1 / 1000 < g" "g < 1 / 1000 * (1 + 1 / 2 ^ 55)"
    using default_gran_bounds default_gran_pos by (simp_all add: g_def)
  have y: "0 < y" "f64_rep y"
    using False assms(2,3) f64_rep_int [of "1000 * L"] unfolding y_def
    by (simp_all only: of_int_0_less_iff) simp_all
  have Ly: "rat_of_int L = y / 1000" by (simp add: y_def)
  have "1000 * g * (1 - 1 / 2 ^ 54) < 1" using g(3) by simp
  then have "y * (1000 * g * (1 - 1 / 2 ^ 54)) < y * 1" using y(1) by (rule mult_strict_left_mono)
  moreover have "(y - y / 2 ^ 54) * (1000 * g) = y * (1000 * g * (1 - 1 / 2 ^ 54))"
    by (simp add: field_simps)
  ultimately have "(y - y / 2 ^ 54) * (1000 * g) < y" by (simp only: mult_1_right)
  moreover have "0 < 1000 * g" using g(1) by simp
  ultimately have lo: "y - y / 2 ^ 54 < y / (1000 * g)" by (simp only: pos_less_divide_eq)
  have "y / (1000 * g) \<le> y" using y(1) g(2) by (simp add: divide_le_eq)
  moreover have "of_int L / g = y / (1000 * g)" by (simp add: Ly)
  ultimately have "\<bar>of_int L / g - y\<bar> < y / 2 ^ 54" using lo y(1) by (simp only: abs_less_iff) linarith
  with y(2) have "fl (of_int L / g) = y" by (rule fl_near)
  moreover have "fl (of_int L / g) \<le> fl (x / g)"
    using assms(1) g(1) by (intro fl_mono divide_right_mono) simp_all
  ultimately show ?thesis by (simp add: f64_div_def y_def g_def)
qed

lemma div_gran_upper:
  assumes "0 \<le> x" "x \<le> of_int U - 1 / 2 ^ 44" "0 < U" "U \<le> 360"
  shows "f64_div x default_gran < of_int (1000 * U)"
proof -
  define z where "z = 1000 * (rat_of_int U - 1 / 2 ^ 44)"
  have U: "1 \<le> rat_of_int U" "rat_of_int U \<le> 360" using assms(3,4) by simp_all
  then have z: "0 < z" "z \<le> 360000" by (simp_all add: z_def)
  have "x / default_gran \<le> x / (1 / 1000)"
    using assms(1) default_gran_bounds(1) by (intro divide_left_mono) simp_all
  also have "\<dots> \<le> z" using assms(2) by (simp add: z_def)
  finally have "fl (x / default_gran) \<le> fl z" by (rule fl_mono)
  also have "fl z \<le> z + z / 2 ^ 53" using z(1) by (rule fl_upper)
  also have "\<dots> < of_int (1000 * U)" using z(2) by (simp add: z_def)
  finally show ?thesis by (simp add: f64_div_def)
qed

lemma position_floor:
  assumes "of_int a \<le> q" "q < of_int b" shows "a \<le> \<lfloor>q\<rfloor>" "\<lfloor>q\<rfloor> < b"
  using assms by (simp_all add: le_floor_iff floor_less_iff)

lemma node_store_index:
  assumes ns: "granularOfRing ns = default_gran" "length (vNodeStores ns) = 360000"
    and e: "valid_location (GetLocation e)"
    and h: "HashStrToUInt64 (GetId e) \<noteq> 0" "uint (HashStrToUInt64 (GetId e)) \<le> 2 ^ 64 - 2 ^ 20"
  shows "\<exists>i. getVirtualNodeStore e ns = Inr (getNodeHash e, i) \<and>
    1000 * loc_index (GetLocation e) \<le> int i \<and> int i < 1000 * (loc_index (GetLocation e) + 1)"
proof -
  let ?L = "loc_index (GetLocation e)" and ?q = "f64_div (getNodeHash e) default_gran"
  have L: "0 \<le> ?L" "?L < 360" using loc_index_bounds [OF e] by simp_all
  note pos = ring_position [OF e refl h]
  have lo: "of_int (1000 * ?L) \<le> ?q" using pos(1) L by (intro div_gran_lower) simp_all
  have "0 \<le> getNodeHash e" using pos(1) L by (meson of_int_0_le_iff order_trans)
  then have up: "?q < of_int (1000 * (?L + 1))" using pos(2) L by (intro div_gran_upper) simp_all
  note fl = position_floor [OF lo up]
  have "0 \<le> 1000 * ?L" "1000 * (?L + 1) \<le> 360000" using L by simp_all
  then have "0 \<le> \<lfloor>?q\<rfloor>" "\<lfloor>?q\<rfloor> < 360000"
    using order_trans [OF _ fl(1)] order_less_le_trans [OF fl(2)] by blast+
  then have "getVirtualNodeStore e ns = Inr (getNodeHash e, nat \<lfloor>?q\<rfloor>)"
    using ns by (simp add: getVirtualNodeStore_def Let_def del: zero_le_floor floor_less_zero)
  then show ?thesis using fl \<open>0 \<le> \<lfloor>?q\<rfloor>\<close> by (intro exI [of _ "nat \<lfloor>?q\<rfloor>"]) simp
qed

text \<open>A hash of 0 is mapped to ring value 1, the upper end of the arc.\<close>

lemma zero_hash_index:
  assumes e: "valid_location (GetLocation e)" and h: "HashStrToUInt64 (GetId e) = 0"
    and ns: "granularOfRing ns = default_gran"
  shows "f64_div (getNodeHash e) (granularOfRing ns) = of_int (1000 * (loc_index (GetLocation e) + 1))"
proof -
  let ?U = "loc_index (GetLocation e) + 1"
  have U: "0 < ?U" "?U \<le> 360" using loc_index_bounds [OF e] by simp_all
  have "fl (of_int ?U) = of_int ?U" using U by (intro fl_int) simp_all
  then have hash: "getNodeHash e = of_int ?U"
    using getNodeHash_eq [OF e] h by (simp add: ring_value_def)
  have lo: "of_int (1000 * ?U) \<le> f64_div (of_int ?U) default_gran"
    using U by (intro div_gran_lower) simp_all
  have "of_int ?U / default_gran \<le> of_int ?U / (1 / 1000)"
    using U default_gran_bounds(1) by (intro divide_left_mono) simp_all
  also have "\<dots> = of_int (1000 * ?U)" by simp
  finally have "fl (of_int ?U / default_gran) \<le> fl (of_int (1000 * ?U))" by (rule fl_mono)
  also have "\<dots> = of_int (1000 * ?U)" using U by (intro fl_int) simp_all
  finally show ?thesis using lo by (simp add: hash ns f64_div_def)
qed

end
