(* ===== verification/GRS_Persist.thy ===== *)
theory GRS_Persist
  imports GRS_NodeStore
begin

text \<open>
  \<open>common-lib/interfaces/store\<close>, \<open>distributor/storage/memorycache.go\<close>, \<open>fakestore.go\<close> and
  \<open>NodeStore.ProcessNodeEvents\<close>: processed nodes are handed in batches to goroutines that persist
  them with retries, and a wait group tells the distributor when all of them have finished.
  A Go interface value is a record of its methods over the state of the provider. The goroutines
  are the running batches of a world record; the step relation \<open>pstep\<close> lets any of them make its
  next call, from the moment the distributor waits for them.
\<close>

section \<open>The store interface\<close>

record 's StoreInterface =
  si_PersistNodes :: "LogicalNode list option \<Rightarrow> 's \<Rightarrow> (bool \<times> 's) result"
  si_PersistNodeStoreStatus :: "NodeStoreStatus \<Rightarrow> 's \<Rightarrow> bool \<times> 's"
  si_PersistVirtualNodesAssignments :: "VirtualNodeAssignment \<Rightarrow> 's \<Rightarrow> bool \<times> 's"
  si_PersistClient :: "string \<Rightarrow> Client \<Rightarrow> 's \<Rightarrow> GoError option \<times> 's"
  si_GetClient :: "string \<Rightarrow> 's \<Rightarrow> Client result"
  si_GetClients :: "'s \<Rightarrow> Client list result"
  si_UpdateClient :: "string \<Rightarrow> Client \<Rightarrow> 's \<Rightarrow> GoError option \<times> 's"
  si_InitNodeIdCache :: "'s \<Rightarrow> 's"
  si_GetNodeIdCount :: "'s \<Rightarrow> int"
  si_SetTestNodeIdMatch :: "bool \<Rightarrow> 's \<Rightarrow> 's"

section \<open>The persist helper\<close>

record 's PersistWorld =
  waitCount :: int
  running :: "(LogicalNode list \<times> nat) list"
  pw_store :: 's

definition NewDistributorPersistHelper :: "'s \<Rightarrow> 's PersistWorld" where
  "NewDistributorPersistHelper s = \<lparr>waitCount = 0, running = [], pw_store = s\<rparr>"

text \<open>\<open>sync.WaitGroup\<close>: a negative counter panics.\<close>

definition wg_Add :: "int \<Rightarrow> 's PersistWorld \<Rightarrow> 's PersistWorld result" where
  "wg_Add delta w =
     (if waitCount w + delta < 0 then Inl (Panicked NegativeWaitGroup)
      else Inr (w\<lparr>waitCount := waitCount w + delta\<rparr>))"

definition wg_Done :: "'s PersistWorld \<Rightarrow> 's PersistWorld result" where
  "wg_Done w = wg_Add (-1) w"

fun wg_Done_times :: "nat \<Rightarrow> 's PersistWorld \<Rightarrow> 's PersistWorld result" where
  "wg_Done_times 0 w = Inr w"
| "wg_Done_times (Suc n) w = (case wg_Done w of Inl err \<Rightarrow> Inl err | Inr w' \<Rightarrow> wg_Done_times n w')"

definition SetWaitCount :: "nat \<Rightarrow> 's PersistWorld \<Rightarrow> 's PersistWorld result" where
  "SetWaitCount n w = wg_Add (int n) w"

text \<open>\<open>PersistNodes\<close> starts a goroutine; its number of retries is next to its nodes.\<close>

definition PersistNodes :: "LogicalNode list \<Rightarrow> 's PersistWorld \<Rightarrow> 's PersistWorld" where
  "PersistNodes newNodes w = w\<lparr>running := running w @ [(newNodes, 0)]\<rparr>"

text \<open>
  One turn of the goroutine's loop. It returns on success or when \<open>retries >= 5\<close>; its deferred
  function then calls \<open>Done\<close> once per node.
\<close>

definition persist_attempt :: "'s StoreInterface \<Rightarrow> nat \<Rightarrow> 's PersistWorld \<Rightarrow> 's PersistWorld result" where
  "persist_attempt si j w =
     (let nodes = fst (running w ! j); retries = snd (running w ! j) in
      case si_PersistNodes si (Some nodes) (pw_store w) of
        Inl err \<Rightarrow> Inl err
      | Inr (result, s') \<Rightarrow>
          let w' = w\<lparr>pw_store := s'\<rparr> in
          if result \<or> retries \<ge> 5
          then wg_Done_times (length nodes)
                 (w'\<lparr>running := take j (running w) @ drop (Suc j) (running w)\<rparr>)
          else Inr (w'\<lparr>running := (running w)[j := (nodes, retries + 1)]\<rparr>))"

inductive pstep :: "'s StoreInterface \<Rightarrow> 's PersistWorld \<Rightarrow> 's PersistWorld \<Rightarrow> bool"
  for si :: "'s StoreInterface" where
  attempt: "j < length (running w) \<Longrightarrow> persist_attempt si j w = Inr w' \<Longrightarrow> pstep si w w'"

inductive_cases pstepE: "pstep si w w'"

text \<open>\<open>WaitForAllNodesSaved\<close> returns when the counter is zero.\<close>

definition WaitForAllNodesSaved_returns :: "'s PersistWorld \<Rightarrow> bool" where
  "WaitForAllNodesSaved_returns w \<longleftrightarrow> waitCount w = 0"

definition PersistStoreConfigs ::
  "'s StoreInterface \<Rightarrow> NodeStoreStatus \<Rightarrow> 's PersistWorld \<Rightarrow> bool \<times> 's PersistWorld" where
  "PersistStoreConfigs si status w =
     (case si_PersistNodeStoreStatus si status (pw_store w) of (result, s') \<Rightarrow> (result, w\<lparr>pw_store := s'\<rparr>))"

definition PersistVirtualNodesAssignment ::
  "'s StoreInterface \<Rightarrow> VirtualNodeAssignment \<Rightarrow> 's PersistWorld \<Rightarrow> bool \<times> 's PersistWorld" where
  "PersistVirtualNodesAssignment si assignment w =
     (case si_PersistVirtualNodesAssignments si assignment (pw_store w) of
        (result, s') \<Rightarrow> (result, w\<lparr>pw_store := s'\<rparr>))"

section \<open>Processing a batch of events\<close>

definition BatchPersistSize :: nat where
  "BatchPersistSize = 100"

text \<open>
  The loop of \<open>ProcessNodeEvents\<close>; the first \<open>i\<close> entries of \<open>eventsToPersist\<close> are the list
  \<open>batch\<close>. The boolean result of \<open>processNodeEvent\<close> is ignored.
\<close>

fun process_loop ::
  "ManagedNodeEvent option list \<Rightarrow> LogicalNode list \<Rightarrow> NodeStore \<times> queue_heap \<Rightarrow> 's PersistWorld \<Rightarrow>
     (LogicalNode list \<times> (NodeStore \<times> queue_heap) \<times> 's PersistWorld) result" where
  "process_loop [] batch st w = Inr (batch, st, w)"
| "process_loop (None # es) batch st w =
     (case wg_Done w of Inl err \<Rightarrow> Inl err | Inr w' \<Rightarrow> process_loop es batch st w')"
| "process_loop (Some e # es) batch st w =
     (case processNodeEvent e st of
        Inl err \<Rightarrow> Inl err
      | Inr (_, st') \<Rightarrow>
          let batch' = batch @ [ne_Node (GetNodeEvent e)] in
          if length batch' = BatchPersistSize then process_loop es [] st' (PersistNodes batch' w)
          else process_loop es batch' st' w)"

definition ProcessNodeEvents ::
  "'s StoreInterface \<Rightarrow> ManagedNodeEvent option list \<Rightarrow> NodeStore \<times> queue_heap \<Rightarrow> 's PersistWorld \<Rightarrow>
     ((bool \<times> TransitResourceVersionMap) \<times> (NodeStore \<times> queue_heap) \<times> 's PersistWorld) result" where
  "ProcessNodeEvents si nodeEvents st w =
     (case SetWaitCount (length nodeEvents) w of
        Inl err \<Rightarrow> Inl err
      | Inr w1 \<Rightarrow>
          (case process_loop nodeEvents [] st w1 of
             Inl err \<Rightarrow> Inl err
           | Inr (batch, st2, w2) \<Rightarrow>
               let w3 = (if length batch > 0 then PersistNodes batch w2 else w2);
                   w4 = snd (PersistStoreConfigs si (getNodeStoreStatus (fst st2)) w3)
               in Inr ((True, GetCurrentResourceVersions (fst st2)), st2, w4)))"

section \<open>The fake storage\<close>

record FakeStorageInterface =
  PersistDelayInNS :: int
  NodeIds :: "(string, bool) gomap option"
  isTestNodeIdMatch :: bool
  slept :: int

definition PersistDelayDefault :: int where
  "PersistDelayDefault = 20"

definition simulateDelay :: "nat \<Rightarrow> FakeStorageInterface \<Rightarrow> FakeStorageInterface" where
  "simulateDelay timesOfWrite fs =
     (if PersistDelayInNS fs > 0
      then fs\<lparr>slept := slept fs + int timesOfWrite * PersistDelayInNS fs\<rparr>
      else fs\<lparr>slept := slept fs + int timesOfWrite * PersistDelayDefault\<rparr>)"

definition fs_InitNodeIdCache :: "FakeStorageInterface \<Rightarrow> FakeStorageInterface" where
  "fs_InitNodeIdCache fs = fs\<lparr>NodeIds := Some gm_empty\<rparr>"

definition fs_GetNodeIdCount :: "FakeStorageInterface \<Rightarrow> int" where
  "fs_GetNodeIdCount fs = (case NodeIds fs of None \<Rightarrow> 0 | Some m \<Rightarrow> int (gm_len m))"

definition fs_SetTestNodeIdMatch :: "bool \<Rightarrow> FakeStorageInterface \<Rightarrow> FakeStorageInterface" where
  "fs_SetTestNodeIdMatch isMatch fs = fs\<lparr>isTestNodeIdMatch := isMatch\<rparr>"

text \<open>The nil slice has length 0. Writing to the nil map panics.\<close>

definition fs_PersistNodes ::
  "LogicalNode list option \<Rightarrow> FakeStorageInterface \<Rightarrow> (bool \<times> FakeStorageInterface) result" where
  "fs_PersistNodes nodesToPersist fs =
     (let nodes = (case nodesToPersist of None \<Rightarrow> [] | Some ns \<Rightarrow> ns);
          fs1 = simulateDelay (length nodes) fs
      in if isTestNodeIdMatch fs1 \<and> nodes \<noteq> [] then
           (case NodeIds fs1 of
              None \<Rightarrow> Inl (Panicked NilMapWrite)
            | Some m \<Rightarrow> Inr (True, fs1\<lparr>NodeIds := Some (fold (\<lambda>n. gm_put (node_Id n) True) nodes m)\<rparr>))
         else Inr (True, fs1))"

definition fs_PersistNodeStoreStatus :: "NodeStoreStatus \<Rightarrow> FakeStorageInterface \<Rightarrow> bool \<times> FakeStorageInterface" where
  "fs_PersistNodeStoreStatus status fs =
     (True, simulateDelay (gm_len (ss_CurrentResourceVerions status) + 3) fs)"

definition fs_PersistVirtualNodesAssignments ::
  "VirtualNodeAssignment \<Rightarrow> FakeStorageInterface \<Rightarrow> bool \<times> FakeStorageInterface" where
  "fs_PersistVirtualNodesAssignments assignment fs =
     (True, simulateDelay (length (va_VirtualNodes assignment) + 1) fs)"

definition fs_PersistClient :: "string \<Rightarrow> Client \<Rightarrow> FakeStorageInterface \<Rightarrow> GoError option \<times> FakeStorageInterface" where
  "fs_PersistClient clientId client fs = (None, simulateDelay 1 fs)"

definition fs_GetClient :: "string \<Rightarrow> FakeStorageInterface \<Rightarrow> Client result" where
  "fs_GetClient clientId fs = Inl (ErrorText ''not implemented'')"

definition fs_UpdateClient :: "string \<Rightarrow> Client \<Rightarrow> FakeStorageInterface \<Rightarrow> GoError option \<times> FakeStorageInterface" where
  "fs_UpdateClient clientId client fs = (Some (ErrorText ''not implemented''), fs)"

definition fs_GetClients :: "FakeStorageInterface \<Rightarrow> Client list result" where
  "fs_GetClients fs = Inl (ErrorText ''not implemented'')"

definition fake_store :: "FakeStorageInterface StoreInterface" where
  "fake_store =
     \<lparr>si_PersistNodes = fs_PersistNodes, si_PersistNodeStoreStatus = fs_PersistNodeStoreStatus,
      si_PersistVirtualNodesAssignments = fs_PersistVirtualNodesAssignments,
      si_PersistClient = fs_PersistClient, si_GetClient = fs_GetClient, si_GetClients = fs_GetClients,
      si_UpdateClient = fs_UpdateClient, si_InitNodeIdCache = fs_InitNodeIdCache,
      si_GetNodeIdCount = fs_GetNodeIdCount, si_SetTestNodeIdMatch = fs_SetTestNodeIdMatch\<rparr>"

section \<open>Batches and the wait counter\<close>

definition outstanding :: "(LogicalNode list \<times> nat) list \<Rightarrow> nat" where
  "outstanding rs = sum_list (map (\<lambda>r. length (fst r)) rs)"

text \<open>The counter is what the running goroutines still have to subtract.\<close>

definition wait_balanced :: "'s PersistWorld \<Rightarrow> bool" where
  "wait_balanced w \<longleftrightarrow> waitCount w = int (outstanding (running w))"

lemma wait_balanced_new [simp]: "wait_balanced (NewDistributorPersistHelper s)"
  by (simp add: wait_balanced_def NewDistributorPersistHelper_def outstanding_def)

lemma outstanding_append [simp]: "outstanding (xs @ ys) = outstanding xs + outstanding ys"
  by (simp add: outstanding_def)

lemma outstanding_simps [simp]: "outstanding [] = 0" "outstanding (r # rs) = length (fst r) + outstanding rs"
  by (simp_all add: outstanding_def)

lemma wg_Done_times_ok:
  "int n \<le> waitCount w \<Longrightarrow> wg_Done_times n w = Inr (w\<lparr>waitCount := waitCount w - int n\<rparr>)"
proof (induction n arbitrary: w)
  case (Suc n)
  then have "wg_Done w = Inr (w\<lparr>waitCount := waitCount w - 1\<rparr>)"
    by (simp add: wg_Done_def wg_Add_def)
  then show ?case
    using Suc.IH [of "w\<lparr>waitCount := waitCount w - 1\<rparr>"] Suc.prems by (simp add: algebra_simps)
qed simp

text \<open>What the events do to the node store, one after the other.\<close>

fun process_all :: "ManagedNodeEvent list \<Rightarrow> NodeStore \<times> queue_heap \<Rightarrow> (NodeStore \<times> queue_heap) result" where
  "process_all [] st = Inr st"
| "process_all (e # es) st =
     (case processNodeEvent e st of Inl err \<Rightarrow> Inl err | Inr (_, st') \<Rightarrow> process_all es st')"

definition non_nil :: "'a option list \<Rightarrow> 'a list" where
  "non_nil es = map the (filter (\<lambda>e. e \<noteq> None) es)"

lemma non_nil_simps [simp]:
  "non_nil [] = []" "non_nil (None # es) = non_nil es" "non_nil (Some e # es) = e # non_nil es"
  by (simp_all add: non_nil_def)

definition node_of :: "ManagedNodeEvent \<Rightarrow> LogicalNode" where
  "node_of e = ne_Node (GetNodeEvent e)"

lemma BatchPersistSize_pos [simp]: "0 < BatchPersistSize"
  by (simp add: BatchPersistSize_def)

lemma process_loop_spec:
  assumes "process_all (non_nil es) st = Inr st'"
    and "waitCount w = int (outstanding (running w) + length batch + length es)"
    and "length batch < BatchPersistSize"
  shows "\<exists>bs batch' w'. process_loop es batch st w = Inr (batch', st', w') \<and>
    running w' = running w @ map (\<lambda>b. (b, 0)) bs \<and> pw_store w' = pw_store w \<and>
    waitCount w' = int (outstanding (running w') + length batch') \<and>
    (\<forall>b\<in>set bs. length b = BatchPersistSize) \<and> length batch' < BatchPersistSize \<and>
    concat bs @ batch' = batch @ map node_of (non_nil es)"
  using assms
proof (induction es batch st w rule: process_loop.induct)
  case (1 batch st w)
  then show ?case by (intro exI [of _ "[]"] exI [of _ batch] exI [of _ w]) simp
next
  case (2 es batch st w)
  have d: "wg_Done w = Inr (w\<lparr>waitCount := waitCount w - 1\<rparr>)"
    using "2.prems"(2) by (simp add: wg_Done_def wg_Add_def)
  show ?case using "2.IH" [OF d] "2.prems" d by simp
next
  case (3 e es batch st w)
  obtain b st1 where p: "processNodeEvent e st = Inr (b, st1)"
    using "3.prems"(1) by (auto split: sum.splits)
  have rest: "process_all (non_nil es) st1 = Inr st'" using "3.prems"(1) p by simp
  let ?batch = "batch @ [node_of e]"
  show ?case
  proof (cases "length ?batch = BatchPersistSize")
    case True
    have "waitCount (PersistNodes ?batch w) =
        int (outstanding (running (PersistNodes ?batch w)) + length ([] :: LogicalNode list) + length es)"
      using "3.prems"(2) by (simp add: PersistNodes_def)
    from "3.IH"(1) [OF p refl [of "(b, st1)"] refl _ rest] True this obtain bs batch' w' where
      "process_loop es [] st1 (PersistNodes ?batch w) = Inr (batch', st', w')"
      "running w' = running (PersistNodes ?batch w) @ map (\<lambda>b. (b, 0)) bs"
      "pw_store w' = pw_store (PersistNodes ?batch w)"
      "waitCount w' = int (outstanding (running w') + length batch')"
      "\<forall>b\<in>set bs. length b = BatchPersistSize" "length batch' < BatchPersistSize"
      "concat bs @ batch' = map node_of (non_nil es)"
      by (auto simp: node_of_def)
    then show ?thesis
      using True p by (intro exI [of _ "?batch # bs"]) (simp add: node_of_def PersistNodes_def)
  next
    case False
    have "length ?batch < BatchPersistSize" using False "3.prems"(3) by simp
    with "3.IH"(2) [OF p refl [of "(b, st1)"] refl _ rest] False "3.prems"(2) obtain bs batch' w' where
      "process_loop es ?batch st1 w = Inr (batch', st', w')"
      "running w' = running w @ map (\<lambda>b. (b, 0)) bs" "pw_store w' = pw_store w"
      "waitCount w' = int (outstanding (running w') + length batch')"
      "\<forall>b\<in>set bs. length b = BatchPersistSize" "length batch' < BatchPersistSize"
      "concat bs @ batch' = ?batch @ map node_of (non_nil es)"
      by (auto simp: node_of_def)
    then show ?thesis
      using False p by (intro exI [of _ bs]) (simp add: node_of_def)
  qed
qed

lemma process_loop_Inl:
  "process_all (non_nil es) st = Inl err \<Longrightarrow>
    waitCount w = int (outstanding (running w) + length batch + length es) \<Longrightarrow>
    process_loop es batch st w = Inl err"
proof (induction es batch st w rule: process_loop.induct)
  case (2 es batch st w)
  have d: "wg_Done w = Inr (w\<lparr>waitCount := waitCount w - 1\<rparr>)"
    using "2.prems"(2) by (simp add: wg_Done_def wg_Add_def)
  show ?case using "2.IH" [OF d] "2.prems" d by simp
next
  case (3 e es batch st w)
  then show ?case
    by (auto simp: PersistNodes_def Let_def split: sum.splits)
qed simp

lemma ProcessNodeEvents_spec:
  assumes bal: "wait_balanced w" and ok: "process_all (non_nil es) st = Inr (ns', h')"
  obtains w' bs where
    "ProcessNodeEvents si es st w = Inr ((True, GetCurrentResourceVersions ns'), (ns', h'), w')"
    "wait_balanced w'" "running w' = running w @ map (\<lambda>b. (b, 0)) bs"
    "pw_store w' = snd (si_PersistNodeStoreStatus si (getNodeStoreStatus ns') (pw_store w))"
    "concat bs = map node_of (non_nil es)"
    "\<forall>b\<in>set bs. b \<noteq> [] \<and> length b \<le> BatchPersistSize"
proof -
  define w1 where "w1 = w\<lparr>waitCount := waitCount w + int (length es)\<rparr>"
  have w1: "SetWaitCount (length es) w = Inr w1"
    "waitCount w1 = int (outstanding (running w1) + length ([] :: LogicalNode list) + length es)"
    using bal by (simp_all add: w1_def SetWaitCount_def wg_Add_def wait_balanced_def)
  obtain bs batch w2 where L: "process_loop es [] st w1 = Inr (batch, (ns', h'), w2)"
    "running w2 = running w1 @ map (\<lambda>b. (b, 0)) bs" "pw_store w2 = pw_store w1"
    "waitCount w2 = int (outstanding (running w2) + length batch)"
    "\<forall>b\<in>set bs. length b = BatchPersistSize" "length batch < BatchPersistSize"
    "concat bs @ batch = map node_of (non_nil es)"
    using process_loop_spec [OF ok w1(2)] by auto
  define w3 where "w3 = (if length batch > 0 then PersistNodes batch w2 else w2)"
  define bs' where "bs' = (if length batch > 0 then bs @ [batch] else bs)"
  let ?w4 = "snd (PersistStoreConfigs si (getNodeStoreStatus ns') w3)"
  have w4: "waitCount ?w4 = waitCount w3" "running ?w4 = running w3"
    "pw_store ?w4 = snd (si_PersistNodeStoreStatus si (getNodeStoreStatus ns') (pw_store w3))"
    by (simp_all add: PersistStoreConfigs_def split: prod.splits)
  show thesis
  proof (rule that [of ?w4 bs'])
    show "ProcessNodeEvents si es st w = Inr ((True, GetCurrentResourceVersions ns'), (ns', h'), ?w4)"
      by (simp add: ProcessNodeEvents_def w1 L(1) w3_def Let_def)
    show "wait_balanced ?w4"
      using L(4) unfolding wait_balanced_def w4 by (simp add: w3_def PersistNodes_def)
    show "running ?w4 = running w @ map (\<lambda>b. (b, 0)) bs'"
      unfolding w4 by (simp add: w3_def bs'_def PersistNodes_def L(2) w1_def)
    show "pw_store ?w4 = snd (si_PersistNodeStoreStatus si (getNodeStoreStatus ns') (pw_store w))"
      unfolding w4(3) by (simp add: w3_def PersistNodes_def L(3) w1_def)
    show "concat bs' = map node_of (non_nil es)"
      using L(7) by (cases "batch = []") (simp_all add: bs'_def)
    show "\<forall>b\<in>set bs'. b \<noteq> [] \<and> length b \<le> BatchPersistSize"
    proof
      fix b assume "b \<in> set bs'"
      then have "b \<in> set bs \<or> b = batch \<and> batch \<noteq> []" by (auto simp: bs'_def split: if_splits)
      then have "0 < length b \<and> length b \<le> BatchPersistSize"
        using L(5,6) BatchPersistSize_pos by fastforce
      then show "b \<noteq> [] \<and> length b \<le> BatchPersistSize" by simp
    qed
  qed
qed

section \<open>Running the goroutines\<close>

definition retries_ok :: "'s PersistWorld \<Rightarrow> bool" where
  "retries_ok w \<longleftrightarrow> (\<forall>r\<in>set (running w). snd r \<le> 5)"

definition attempts_left :: "'s PersistWorld \<Rightarrow> nat" where
  "attempts_left w = sum_list (map (\<lambda>r. 6 - snd r) (running w))"

lemma split_running:
  "j < length xs \<Longrightarrow> xs = take j xs @ xs ! j # drop (Suc j) xs"
  by (rule id_take_nth_drop)

lemma persist_attempt_Inr:
  assumes "persist_attempt si j w = Inr w'" "j < length (running w)" "wait_balanced w"
  obtains nodes r ok s' where "running w ! j = (nodes, r)"
    "si_PersistNodes si (Some nodes) (pw_store w) = Inr (ok, s')" "pw_store w' = s'"
    "wait_balanced w'"
    "running w' = (if ok \<or> r \<ge> 5 then take j (running w) @ drop (Suc j) (running w)
                   else take j (running w) @ (nodes, r + 1) # drop (Suc j) (running w))"
proof -
  obtain nodes r where j: "running w ! j = (nodes, r)" by (cases "running w ! j")
  obtain ok s' where p: "si_PersistNodes si (Some nodes) (pw_store w) = Inr (ok, s')"
    using assms(1) j by (auto simp: persist_attempt_def Let_def split: sum.splits)
  have out: "outstanding (running w) = outstanding (take j (running w)) + (length nodes + outstanding (drop (Suc j) (running w)))"
    by (subst split_running [OF assms(2)]) (simp add: j)
  then have le: "int (length nodes) \<le> waitCount w" using assms(3) by (simp add: wait_balanced_def)
  let ?ws = "w\<lparr>pw_store := s', running := take j (running w) @ drop (Suc j) (running w)\<rparr>"
  have w': "w' = (if ok \<or> r \<ge> 5 then ?ws\<lparr>waitCount := waitCount w - int (length nodes)\<rparr>
             else w\<lparr>pw_store := s', running := (running w)[j := (nodes, r + 1)]\<rparr>)"
    using assms(1) le wg_Done_times_ok [of "length nodes" ?ws] j p
    by (cases "ok \<or> r \<ge> 5") (auto simp: persist_attempt_def Let_def)
  have upd: "(running w)[j := (nodes, Suc r)] = take j (running w) @ (nodes, Suc r) # drop (Suc j) (running w)"
    using assms(2) by (rule upd_conv_take_nth_drop)
  show thesis
    using assms(3) out by (intro that [OF j p]) (simp_all add: w' upd wait_balanced_def)
qed

lemma pstep_progress:
  assumes "pstep si w w'" "wait_balanced w" "retries_ok w"
  shows "wait_balanced w'" "retries_ok w'" "attempts_left w' < attempts_left w"
proof -
  obtain j where j: "j < length (running w)" "persist_attempt si j w = Inr w'"
    using assms(1) by (auto elim: pstepE)
  obtain nodes r ok s' where S: "running w ! j = (nodes, r)" "wait_balanced w'"
    "running w' = (if ok \<or> r \<ge> 5 then take j (running w) @ drop (Suc j) (running w)
                   else take j (running w) @ (nodes, r + 1) # drop (Suc j) (running w))"
    using persist_attempt_Inr [OF j(2,1) assms(2)] by metis
  have split: "running w = take j (running w) @ (nodes, r) # drop (Suc j) (running w)"
    using split_running [OF j(1)] S(1) by simp
  have r: "r \<le> 5" using assms(3) nth_mem [OF j(1)] S(1) by (auto simp: retries_ok_def)
  show "wait_balanced w'" by (rule S(2))
  have rest: "\<forall>x\<in>set (take j (running w)) \<union> set (drop (Suc j) (running w)). snd x \<le> 5"
    using assms(3) by (auto simp: retries_ok_def dest: in_set_takeD in_set_dropD)
  then show "retries_ok w'"
    using r by (auto simp: retries_ok_def S(3))
  have "attempts_left w = sum_list (map (\<lambda>r. 6 - snd r) (take j (running w))) + (6 - r) +
      sum_list (map (\<lambda>r. 6 - snd r) (drop (Suc j) (running w)))"
    unfolding attempts_left_def by (subst split) simp
  moreover have "0 < 6 - r" "\<not> r \<ge> 5 \<Longrightarrow> 6 - Suc r < 6 - r" using r by simp_all
  ultimately show "attempts_left w' < attempts_left w"
    unfolding attempts_left_def [of w'] S(3) by (cases "ok \<or> r \<ge> 5") simp_all
qed

text \<open>Every schedule of the goroutines is finite: six calls per batch at most.\<close>

lemma pstep_bounded:
  "(pstep si ^^ n) w w' \<Longrightarrow> wait_balanced w \<Longrightarrow> retries_ok w \<Longrightarrow>
    wait_balanced w' \<and> retries_ok w' \<and> n + attempts_left w' \<le> attempts_left w"
proof (induction n arbitrary: w')
  case (Suc n)
  then obtain v where v: "(pstep si ^^ n) w v" "pstep si v w'" by auto
  then show ?case using Suc.IH [OF v(1) Suc.prems(2,3)] pstep_progress [OF v(2)] by fastforce
qed simp

lemma wait_over:
  assumes "wait_balanced w" "\<forall>r\<in>set (running w). fst r \<noteq> []"
  shows "WaitForAllNodesSaved_returns w \<longleftrightarrow> running w = []"
proof
  assume z: "WaitForAllNodesSaved_returns w"
  show "running w = []"
  proof (cases "running w")
    case (Cons r rs)
    then have "0 < length (fst r)" using assms(2) by simp
    then show ?thesis
      using z assms(1) Cons
      by (simp add: WaitForAllNodesSaved_returns_def wait_balanced_def flip: of_nat_add)
  qed
next
  assume "running w = []"
  then show "WaitForAllNodesSaved_returns w"
    using assms(1) by (simp add: WaitForAllNodesSaved_returns_def wait_balanced_def)
qed

section \<open>What the callers expect of a store\<close>

text \<open>
  \<open>inv\<close> is the provider's own invariant and \<open>saved s n\<close> says that node \<open>n\<close> is on record: no call
  panics, a record is never lost, and a call of \<open>PersistNodes\<close> that reports success has recorded
  its nodes.
\<close>

locale store_provider =
  fixes si :: "'s StoreInterface"
    and inv :: "'s \<Rightarrow> bool"
    and saved :: "'s \<Rightarrow> LogicalNode \<Rightarrow> bool"
  assumes persist_nodes: "inv s \<Longrightarrow> \<exists>ok s'. si_PersistNodes si (Some ns) s = Inr (ok, s')"
    and persist_nodes_inv: "inv s \<Longrightarrow> si_PersistNodes si (Some ns) s = Inr (ok, s') \<Longrightarrow> inv s'"
    and persist_nodes_keeps:
      "inv s \<Longrightarrow> si_PersistNodes si (Some ns) s = Inr (ok, s') \<Longrightarrow> saved s n \<Longrightarrow> saved s' n"
    and persist_nodes_saves:
      "inv s \<Longrightarrow> si_PersistNodes si (Some ns) s = Inr (True, s') \<Longrightarrow> n \<in> set ns \<Longrightarrow> saved s' n"
    and persist_status_inv: "inv s \<Longrightarrow> inv (snd (si_PersistNodeStoreStatus si status s))"
begin

lemma pstep_inv:
  assumes "pstep si w w'" "inv (pw_store w)" "wait_balanced w"
  shows "inv (pw_store w')"
proof -
  obtain j where j: "j < length (running w)" "persist_attempt si j w = Inr w'"
    using assms(1) by (auto elim: pstepE)
  show ?thesis
    by (rule persist_attempt_Inr [OF j(2,1) assms(3)]) (use assms(2) persist_nodes_inv in blast)
qed

text \<open>As long as a goroutine is running, it can make its next call.\<close>

lemma first_attempt:
  assumes "inv (pw_store w)" "wait_balanced w" "running w \<noteq> []"
  shows "\<exists>w'. persist_attempt si 0 w = Inr w'"
proof -
  obtain nodes r rs where r: "running w = (nodes, r) # rs" using assms(3) by (cases "running w") auto
  obtain ok s' where p: "si_PersistNodes si (Some nodes) (pw_store w) = Inr (ok, s')"
    using persist_nodes [OF assms(1)] by blast
  have le: "int (length nodes) \<le> waitCount w" using assms(2) by (simp add: wait_balanced_def r)
  show ?thesis
    using p le wg_Done_times_ok [of "length nodes" "w\<lparr>pw_store := s', running := rs\<rparr>"]
    by (simp add: persist_attempt_def r Let_def)
qed

lemma pstep_enabled:
  assumes "inv (pw_store w)" "wait_balanced w" "running w \<noteq> []"
  shows "\<exists>w'. pstep si w w'"
proof -
  have "0 < length (running w)" using assms(3) by simp
  then show ?thesis using first_attempt [OF assms] by (blast intro: pstep.attempt)
qed

lemma psteps_keep_saved:
  assumes "pstep si w w'" "inv (pw_store w)" "wait_balanced w" "saved (pw_store w) n"
  shows "saved (pw_store w') n"
proof -
  obtain j where j: "j < length (running w)" "persist_attempt si j w = Inr w'"
    using assms(1) by (auto elim: pstepE)
  show ?thesis
    by (rule persist_attempt_Inr [OF j(2,1) assms(3)]) (use assms(2,4) persist_nodes_keeps in blast)
qed

end

text \<open>A node is on record or still in the hands of a goroutine.\<close>

definition on_record :: "('s \<Rightarrow> LogicalNode \<Rightarrow> bool) \<Rightarrow> LogicalNode \<Rightarrow> 's PersistWorld \<Rightarrow> bool" where
  "on_record saved n w \<longleftrightarrow> saved (pw_store w) n \<or> (\<exists>r\<in>set (running w). n \<in> set (fst r))"

text \<open>A provider that never reports a failure.\<close>

locale reliable_store = store_provider +
  assumes reliable: "inv s \<Longrightarrow> si_PersistNodes si (Some ns) s = Inr (ok, s') \<Longrightarrow> ok"
begin

lemma pstep_on_record:
  assumes "pstep si w w'" "inv (pw_store w)" "wait_balanced w" "on_record saved n w"
  shows "on_record saved n w'"
proof (cases "saved (pw_store w) n")
  case True
  then show ?thesis using psteps_keep_saved [OF assms(1-3)] by (simp add: on_record_def)
next
  case False
  obtain j where j: "j < length (running w)" "persist_attempt si j w = Inr w'"
    using assms(1) by (auto elim: pstepE)
  obtain nodes r ok s' where S: "running w ! j = (nodes, r)"
    "si_PersistNodes si (Some nodes) (pw_store w) = Inr (ok, s')" "pw_store w' = s'"
    "running w' = (if ok \<or> r \<ge> 5 then take j (running w) @ drop (Suc j) (running w)
                   else take j (running w) @ (nodes, r + 1) # drop (Suc j) (running w))"
    using persist_attempt_Inr [OF j(2,1) assms(3)] by metis
  have ok: "ok" using reliable [OF assms(2) S(2)] .
  obtain x where x: "x \<in> set (running w)" "n \<in> set (fst x)"
    using assms(4) False by (auto simp: on_record_def)
  have "set (running w) = set (running w') \<union> {(nodes, r)}"
    using arg_cong [OF split_running [OF j(1)], of set] S(1,4) ok by auto
  then consider "x \<in> set (running w')" | "x = (nodes, r)" using x(1) by blast
  then show ?thesis
  proof cases
    case 1
    then show ?thesis using x(2) by (auto simp: on_record_def)
  next
    case 2
    then have "saved s' n" using persist_nodes_saves [OF assms(2)] S(2) ok x(2) by simp
    then show ?thesis by (simp add: on_record_def S(3))
  qed
qed

text \<open>When the wait is over, every node handed to the helper is on record.\<close>

lemma all_saved:
  assumes "(pstep si ^^ m) w w'" "inv (pw_store w)" "wait_balanced w" "retries_ok w"
    and "running w' = []" "n \<in> set (concat (map fst (running w)))"
  shows "saved (pw_store w') n"
proof -
  have "inv (pw_store v) \<and> wait_balanced v \<and> retries_ok v \<and> on_record saved n v" if "(pstep si ^^ k) w v" for k v
    using that
  proof (induction k arbitrary: v)
    case 0
    then show ?case using assms(2-4,6) by (auto simp: on_record_def)
  next
    case (Suc k)
    then obtain u where u: "(pstep si ^^ k) w u" "pstep si u v" by auto
    then show ?case
      using Suc.IH [OF u(1)] pstep_progress [OF u(2)] pstep_inv [OF u(2)] pstep_on_record [OF u(2)] by blast
  qed
  from this [OF assms(1)] assms(5) show ?thesis by (simp add: on_record_def)
qed

end

text \<open>The fake storage with a node id cache.\<close>

definition fs_ready :: "FakeStorageInterface \<Rightarrow> bool" where
  "fs_ready fs \<longleftrightarrow> isTestNodeIdMatch fs \<and> NodeIds fs \<noteq> None"

definition fs_saved :: "FakeStorageInterface \<Rightarrow> LogicalNode \<Rightarrow> bool" where
  "fs_saved fs n \<longleftrightarrow> (\<exists>m. NodeIds fs = Some m \<and> gm_get m (node_Id n) = Some True)"

lemma simulateDelay_frame [simp]:
  "NodeIds (simulateDelay t fs) = NodeIds fs" "isTestNodeIdMatch (simulateDelay t fs) = isTestNodeIdMatch fs"
  by (simp_all add: simulateDelay_def)

lemma put_ids_get:
  "gm_get (fold (\<lambda>n. gm_put (node_Id n) True) ns m) i =
     (if i \<in> node_Id ` set ns then Some True else gm_get m i)"
  by (induction ns arbitrary: m) (auto simp: gomap_simps)

lemma fs_PersistNodes_eq:
  "fs_ready fs \<Longrightarrow> NodeIds fs = Some m \<Longrightarrow>
    fs_PersistNodes (Some ns) fs =
      Inr (True, (simulateDelay (length ns) fs)
            \<lparr>NodeIds := Some (fold (\<lambda>n. gm_put (node_Id n) True) ns m)\<rparr>)"
  by (cases "ns = []") (simp_all add: fs_PersistNodes_def fs_ready_def Let_def)

interpretation fake: reliable_store fake_store fs_ready fs_saved
proof
  fix s :: FakeStorageInterface and ns ok s' n status
  assume ready: "fs_ready s"
  obtain m where m: "NodeIds s = Some m" using ready by (auto simp: fs_ready_def)
  note eq = fs_PersistNodes_eq [OF ready m]
  show "\<exists>ok s'. si_PersistNodes fake_store (Some ns) s = Inr (ok, s')"
    by (simp add: fake_store_def eq) blast
  show "fs_ready (snd (si_PersistNodeStoreStatus fake_store status s))"
    using ready by (simp add: fake_store_def fs_PersistNodeStoreStatus_def fs_ready_def)
  show "fs_saved s' n" if "si_PersistNodes fake_store (Some ns) s = Inr (True, s')" "n \<in> set ns"
    using that by (auto simp: fake_store_def eq fs_saved_def put_ids_get)
  assume p: "si_PersistNodes fake_store (Some ns) s = Inr (ok, s')"
  then have s': "ok" "s' = (simulateDelay (length ns) s)
      \<lparr>NodeIds := Some (fold (\<lambda>n. gm_put (node_Id n) True) ns m)\<rparr>"
    by (simp_all add: fake_store_def eq)
  show "fs_ready s'" using ready by (simp add: s' fs_ready_def)
  show "ok" by (rule s'(1))
  show "fs_saved s' n" if "fs_saved s n" using that m by (auto simp: s' fs_saved_def put_ids_get)
qed

end
