(* ===== verification/GRS_Distributor.thy ===== *)
theory GRS_Distributor
  imports GRS_Persist GRS_Ring
begin

text \<open>
  \<open>distributor/distributor.go\<close>: registration of clients, allocation of virtual stores to them,
  list, watch and the processing of events. A virtual store is its index in \<open>vNodeStores\<close>, an
  event queue its index in the heap of queues. \<open>dis_store\<close> is the state of the store behind
  \<open>persistHelper\<close>, whose methods \<open>si\<close> are an argument, as is the order of every loop over a map.
  An operation that fails returns the error; only \<open>RegisterClient\<close> can fail after it has changed
  the state, so it returns the state as well.
\<close>

record 's Distributor =
  defaultNodeStore :: NodeStore
  nodeEventQueueMap :: "(string, nat) gomap"
  clientToStores :: "(string, nat list) gomap"
  dis_queues :: queue_heap
  dis_store :: 's

definition MinimalRequestHostNum :: int where
  "MinimalRequestHostNum = 50"

definition virutalStoreNumPerResourcePartition :: nat where
  "virutalStoreNumPerResourcePartition = 1000"

definition createNodeStore :: "NodeStore result" where
  "createNodeStore = NewNodeStore virutalStoreNumPerResourcePartition GetRegionNum GetRPNum"

definition GetResourceDistributor :: "'s \<Rightarrow> 's Distributor result" where
  "GetResourceDistributor s =
     map_sum id (\<lambda>ns. \<lparr>defaultNodeStore = ns, nodeEventQueueMap = gm_empty, clientToStores = gm_empty,
                     dis_queues = [], dis_store = s\<rparr>) createNodeStore"

definition SetPersistHelper :: "'t \<Rightarrow> 's Distributor \<Rightarrow> 't Distributor" where
  "SetPersistHelper s dis =
     \<lparr>defaultNodeStore = defaultNodeStore dis, nodeEventQueueMap = nodeEventQueueMap dis,
      clientToStores = clientToStores dis, dis_queues = dis_queues dis, dis_store = s\<rparr>"

definition virtual_store :: "'s Distributor \<Rightarrow> nat \<Rightarrow> VirtualNodeStore" where
  "virtual_store dis i = vNodeStores (defaultNodeStore dis) ! i"

section \<open>Allocation\<close>

type_synonym store_order = "nat list \<Rightarrow> nat list"

definition free_stores :: "'s Distributor \<Rightarrow> nat list" where
  "free_stores dis =
     filter (\<lambda>i. GetAssignedClient (virtual_store dis i) = '''' \<and> GetHostNum (virtual_store dis i) > 0)
       [0..<length (vNodeStores (defaultNodeStore dis))]"

definition getSortedVirtualStores :: "store_order \<Rightarrow> nat list \<Rightarrow> nat list" where
  "getSortedVirtualStores ord stores = ord stores"

text \<open>The selection loop: the stores taken, the hosts in them and whether they are enough.\<close>

fun select_stores :: "(nat \<Rightarrow> nat) \<Rightarrow> int \<Rightarrow> nat list \<Rightarrow> nat list \<Rightarrow> nat \<Rightarrow> nat list \<times> nat \<times> bool" where
  "select_stores hosts requested [] selected assigned = (selected, assigned, False)"
| "select_stores hosts requested (i # is) selected assigned =
     (let selected' = selected @ [i]; assigned' = assigned + hosts i in
      if int assigned' \<ge> requested then (selected', assigned', True)
      else select_stores hosts requested is selected' assigned')"

fun addBookmarkEvent ::
  "node_order \<Rightarrow> VirtualNodeStore list \<Rightarrow> Location list \<Rightarrow> NodeEventQueue \<Rightarrow> NodeEventQueue result" where
  "addBookmarkEvent ord [] locations eventQueue = Inr eventQueue"
| "addBookmarkEvent ord (vs # stores) locations eventQueue =
     (let loc = vs_GetLocation vs in
      if loc \<in> set locations then addBookmarkEvent ord stores locations eventQueue
      else case GenerateBookmarkEvent ord vs of
             None \<Rightarrow> Inl (Panicked NilDereference)
           | Some e \<Rightarrow> addBookmarkEvent ord stores (loc # locations) (EnqueueEvent e eventQueue))"

definition assign_store :: "string \<Rightarrow> nat \<Rightarrow> nat \<Rightarrow> NodeStore \<Rightarrow> NodeStore" where
  "assign_store clientId q i ns =
     ns\<lparr>vNodeStores := (vNodeStores ns)[i := snd (AssignToClient clientId (Some q) (vNodeStores ns ! i))]\<rparr>"

definition persistVirtualNodesAssignment ::
  "'s StoreInterface \<Rightarrow> string \<Rightarrow> nat list \<Rightarrow> 's Distributor \<Rightarrow> bool \<times> 's Distributor" where
  "persistVirtualNodesAssignment si clientId assignedStores dis =
     (let vNodeConfigs = map (\<lambda>i. let vs = virtual_store dis i in
             \<lparr>vc_Lowerbound = fst (GetRange vs), vc_Upperbound = snd (GetRange vs),
              vc_Location = vs_GetLocation vs\<rparr>) assignedStores;
          assignment = \<lparr>va_ClientId = clientId, va_VirtualNodes = vNodeConfigs\<rparr>;
          (result, w) = PersistVirtualNodesAssignment si assignment
             (NewDistributorPersistHelper (dis_store dis))
      in (result, dis\<lparr>dis_store := pw_store w\<rparr>))"

definition allocateNodesToClient ::
  "'s StoreInterface \<Rightarrow> store_order \<Rightarrow> node_order \<Rightarrow> string \<Rightarrow> int \<Rightarrow> 's Distributor \<Rightarrow>
     (nat \<times> 's Distributor) result" where
  "allocateNodesToClient si ordS ordN clientId requestedHostNum dis =
     (if requestedHostNum \<le> MinimalRequestHostNum then Inl Error_HostRequestLessThanMiniaml
      else if requestedHostNum > int (GetTotalHostNum (defaultNodeStore dis))
      then Inl Error_HostRequestExceedLimit
      else if \<not> CheckFreeCapacity requestedHostNum (defaultNodeStore dis)
      then Inl Error_HostRequestExceedCapacity
      else if gm_get (nodeEventQueueMap dis) clientId \<noteq> None then Inl Error_ClientIdExisted
      else if gm_get (clientToStores dis) clientId \<noteq> None then Inl Error_ClientIdExisted
      else
        let freeStores = free_stores dis in
        if freeStores = [] then Inl (ErrorText ''No available hosts'')
        else
          let storesToSelectInorder = getSortedVirtualStores ordS freeStores;
              (selectedStores, assignedHostCount, hostAssignIsOK) =
                select_stores (\<lambda>i. GetHostNum (virtual_store dis i)) requestedHostNum
                  storesToSelectInorder [] 0
          in if \<not> hostAssignIsOK then Inl (ErrorText ''Not enough hosts'')
             else
               case addBookmarkEvent ordN (map (virtual_store dis) selectedStores) []
                      (NewNodeEventQueue clientId) of
                 Inl err \<Rightarrow> Inl err
               | Inr eventQueue \<Rightarrow>
                   let q = length (dis_queues dis);
                       dis1 = dis\<lparr>dis_queues := dis_queues dis @ [eventQueue],
                                  nodeEventQueueMap := gm_put clientId q (nodeEventQueueMap dis),
                                  defaultNodeStore :=
                                    fold (assign_store clientId q) selectedStores (defaultNodeStore dis),
                                  clientToStores := gm_put clientId selectedStores (clientToStores dis)\<rparr>
                   in Inr (assignedHostCount,
                           snd (persistVirtualNodesAssignment si clientId selectedStores dis1)))"

definition RegisterClient ::
  "'s StoreInterface \<Rightarrow> store_order \<Rightarrow> node_order \<Rightarrow> Client \<Rightarrow> 's Distributor \<Rightarrow>
     GoError option \<times> 's Distributor" where
  "RegisterClient si ordS ordN client dis =
     (let clientId = ClientId client in
      case allocateNodesToClient si ordS ordN clientId (TotalMachines (Resource client)) dis of
        Inl err \<Rightarrow> (Some err, dis)
      | Inr (assignedHostNum, dis') \<Rightarrow>
          (case si_PersistClient si clientId client (dis_store dis') of
             (Some err, s') \<Rightarrow> (Some err, dis'\<lparr>dis_store := s'\<rparr>)
           | (None, s') \<Rightarrow> (None, dis'\<lparr>dis_store := s'\<rparr>)))"

section \<open>List and watch\<close>

type_synonym transit_order = "(RvLocation \<times> uint64) list \<Rightarrow> (RvLocation \<times> uint64) list"

definition combine_rvs :: "transit_order \<Rightarrow> TransitResourceVersionMap list \<Rightarrow> TransitResourceVersionMap" where
  "combine_rvs ordR rvMapByStore =
     fold (\<lambda>currentRVs finalRVs. fold (\<lambda>(loc, rv). keep_newest_rv loc rv) (ordR currentRVs) finalRVs)
       rvMapByStore gm_empty"

definition ListNodesForClient ::
  "node_order \<Rightarrow> transit_order \<Rightarrow> string \<Rightarrow> 's Distributor \<Rightarrow>
     (LogicalNode list \<times> TransitResourceVersionMap) result" where
  "ListNodesForClient ordN ordR clientId dis =
     (if clientId = '''' then Inl (ErrorText ''Empty clientId'')
      else case gm_get (clientToStores dis) clientId of
        None \<Rightarrow> Inl (ErrorText (''Client '' @ clientId @ '' not registered.''))
      | Some assignedStores \<Rightarrow>
          (case gm_get (nodeEventQueueMap dis) clientId of
             None \<Rightarrow> Inl (ErrorText (''Internal error: missing event queue for Client '' @ clientId @ ''.''))
           | Some _ \<Rightarrow>
               let snapshots = map (\<lambda>i. SnapShot ordN (virtual_store dis i)) assignedStores
               in Inr (concat (map fst snapshots), combine_rvs ordR (map snd snapshots))))"

text \<open>\<open>rvs\<close> is None when nil; the two booleans say that the channel is not nil.\<close>

definition dis_Watch ::
  "transit_order \<Rightarrow> rv_order \<Rightarrow> queue_order \<Rightarrow> string \<Rightarrow> TransitResourceVersionMap option \<Rightarrow>
     bool \<Rightarrow> bool \<Rightarrow> 's Distributor \<Rightarrow> (NodeEvent list \<times> 's Distributor) result" where
  "dis_Watch ordT ordR ordQ clientId rvs hasWatchChan hasStopCh dis =
     (case gm_get (nodeEventQueueMap dis) clientId of
        None \<Rightarrow> Inl (ErrorText (''Client '' @ clientId @ '' not registered''))
      | Some q \<Rightarrow>
          (case rvs of
             None \<Rightarrow> Inl (ErrorText ''Invalid resource versions: nil'')
           | Some rvs' \<Rightarrow>
               if \<not> hasWatchChan then Inl (ErrorText ''Watch channel not provided'')
               else if \<not> hasStopCh then Inl (ErrorText ''Stop watch channel not provided'')
               else
                 (case Watch ordR ordQ (ConvertToInternalResourceVersionMap ordT rvs') (dis_queues dis ! q) of
                    Inl err \<Rightarrow> Inl err
                  | Inr (events, queue') \<Rightarrow>
                      Inr (events, dis\<lparr>dis_queues := (dis_queues dis)[q := queue']\<rparr>))))"

section \<open>Processing events\<close>

text \<open>
  The loop over the events stops at the first nil; the entries it has not reached stay nil.
  \<open>now i\<close> is the time at which event \<open>i\<close> is stamped.
  \<open>NewLocation\<close> never returns nil, so every event is processed.
\<close>

definition managed_event :: "bool \<Rightarrow> go_time \<Rightarrow> NodeEvent \<Rightarrow> ManagedNodeEvent" where
  "managed_event enabled now e =
     (let loc = NewLocation (geo_Region (node_GeoInfo (ne_Node e)))
                  (geo_ResourcePartition (node_GeoInfo (ne_Node e)))
      in NewManagedNodeEvent (SetCheckpoint enabled now Distributor_Received e) loc)"

fun events_to_process ::
  "bool \<Rightarrow> (nat \<Rightarrow> go_time) \<Rightarrow> nat \<Rightarrow> NodeEvent option list \<Rightarrow> ManagedNodeEvent option list" where
  "events_to_process enabled now i [] = []"
| "events_to_process enabled now i (None # es) = None # replicate (length es) None"
| "events_to_process enabled now i (Some e # es) =
     Some (managed_event enabled (now i) e) # events_to_process enabled now (i + 1) es"

text \<open>\<open>ProcessEvents\<close> up to the wait for the goroutines.\<close>

definition ProcessEvents_start ::
  "'s StoreInterface \<Rightarrow> bool \<Rightarrow> (nat \<Rightarrow> go_time) \<Rightarrow> NodeEvent option list \<Rightarrow> 's Distributor \<Rightarrow>
     ((bool \<times> TransitResourceVersionMap) \<times> 's Distributor \<times> 's PersistWorld) result" where
  "ProcessEvents_start si enabled now events dis =
     (case ProcessNodeEvents si (events_to_process enabled now 0 events)
             (defaultNodeStore dis, dis_queues dis) (NewDistributorPersistHelper (dis_store dis)) of
        Inl err \<Rightarrow> Inl err
      | Inr (r, (ns, h), w) \<Rightarrow>
          Inr (r, dis\<lparr>defaultNodeStore := ns, dis_queues := h, dis_store := pw_store w\<rparr>, w))"

text \<open>The whole call: the goroutines run in any order until the wait is over.\<close>

inductive ProcessEvents ::
  "'s StoreInterface \<Rightarrow> bool \<Rightarrow> (nat \<Rightarrow> go_time) \<Rightarrow> NodeEvent option list \<Rightarrow> 's Distributor \<Rightarrow>
     bool \<times> TransitResourceVersionMap \<Rightarrow> 's Distributor \<Rightarrow> bool"
  for si :: "'s StoreInterface" where
  returns: "ProcessEvents_start si enabled now events dis = Inr (r, dis', w) \<Longrightarrow>
    (pstep si)\<^sup>*\<^sup>* w w' \<Longrightarrow> WaitForAllNodesSaved_returns w' \<Longrightarrow>
    ProcessEvents si enabled now events dis r (dis'\<lparr>dis_store := pw_store w'\<rparr>)"

inductive_cases ProcessEventsE: "ProcessEvents si enabled now events dis r dis'"

definition GetNodeStatus ::
  "Region \<Rightarrow> ResourcePartition \<Rightarrow> string \<Rightarrow> 's Distributor \<Rightarrow> LogicalNode result" where
  "GetNodeStatus region resourcePartition nodeId dis =
     GetNode region resourcePartition nodeId (defaultNodeStore dis)"

section \<open>Capacity and selection\<close>

lemma free_capacity_iff:
  "free_capacity requested vss allocatable \<longleftrightarrow>
     vss \<noteq> [] \<and> requested \<le> allocatable + int (sum_list (map GetHostNum vss))"
  by (induction requested vss allocatable rule: free_capacity.induct) (auto simp: Let_def)

lemma CheckFreeCapacity_iff:
  "CheckFreeCapacity requested ns \<longleftrightarrow>
     vNodeStores ns \<noteq> [] \<and> requested \<le> int (sum_list (map GetHostNum (vNodeStores ns)))"
  by (simp add: CheckFreeCapacity_def free_capacity_iff)

lemma select_stores_spec:
  assumes "select_stores hosts requested is selected assigned = (selected', assigned', ok)"
    and "int assigned < requested"
  shows "\<exists>k\<le>length is. selected' = selected @ take k is \<and>
    assigned' = assigned + sum_list (map hosts (take k is)) \<and>
    (ok \<longrightarrow> 0 < k \<and> requested \<le> int assigned' \<and>
       int (assigned + sum_list (map hosts (take (k - 1) is))) < requested) \<and>
    (\<not> ok \<longrightarrow> k = length is \<and> int assigned' < requested)"
  using assms
proof (induction hosts requested "is" selected assigned rule: select_stores.induct)
  case (1 hosts requested selected assigned)
  then show ?case by simp
next
  case (2 hosts requested i "is" selected assigned)
  show ?case
  proof (cases "requested \<le> int (assigned + hosts i)")
    case True
    with "2.prems" have "selected' = selected @ [i]" "assigned' = assigned + hosts i" "ok"
      by (simp_all add: Let_def)
    with True "2.prems"(2) show ?thesis by (intro exI [of _ "1"]) simp
  next
    case False
    then have "select_stores hosts requested is (selected @ [i]) (assigned + hosts i) = (selected', assigned', ok)"
      "int (assigned + hosts i) < requested"
      using "2.prems"(1) by (simp_all add: Let_def)
    from "2.IH" [OF refl refl False this] obtain k where k: "k \<le> length is"
      "selected' = (selected @ [i]) @ take k is"
      "assigned' = assigned + hosts i + sum_list (map hosts (take k is))"
      "ok \<Longrightarrow> 0 < k" "ok \<Longrightarrow> requested \<le> int assigned'"
      "ok \<Longrightarrow> int (assigned + hosts i + sum_list (map hosts (take (k - 1) is))) < requested"
      "\<not> ok \<Longrightarrow> k = length is" "\<not> ok \<Longrightarrow> int assigned' < requested"
      by blast
    have "int (assigned + sum_list (map hosts (take k (i # is)))) < requested" if ok
      using k(4,6) [OF that] by (cases k) (simp_all add: add.assoc)
    then show ?thesis
      using k by (intro exI [of _ "Suc k"]) (simp add: add.assoc)
  qed
qed

text \<open>The loop succeeds exactly when the stores hold enough hosts.\<close>

lemma select_stores_ok:
  assumes sel: "select_stores hosts requested is [] 0 = (selected, assigned, ok)" and pos: "0 < requested"
  shows "ok \<longleftrightarrow> requested \<le> int (sum_list (map hosts is))"
proof -
  have "int 0 < requested" using pos by simp
  from select_stores_spec [OF sel this] obtain k where k: "assigned = sum_list (map hosts (take k is))"
    "ok \<Longrightarrow> requested \<le> int assigned" "\<not> ok \<Longrightarrow> k = length is" "\<not> ok \<Longrightarrow> int assigned < requested"
    by auto
  have le: "sum_list (map hosts (take k is)) \<le> sum_list (map hosts is)"
    by (metis append_take_drop_id le_add1 map_append sum_list_append)
  show ?thesis
  proof (cases ok)
    case True
    with k(1,2) le show ?thesis by simp
  next
    case False
    with k(1,3,4) show ?thesis by simp
  qed
qed

lemma free_stores_iff:
  "i \<in> set (free_stores dis) \<longleftrightarrow>
     i < length (vNodeStores (defaultNodeStore dis)) \<and> vs_clientId (virtual_store dis i) = '''' \<and>
     GetHostNum (virtual_store dis i) > 0"
  by (auto simp: free_stores_def GetAssignedClient_def)

lemma distinct_free_stores [simp]: "distinct (free_stores dis)"
  by (simp add: free_stores_def)

definition free_hosts :: "'s Distributor \<Rightarrow> nat" where
  "free_hosts dis = sum_list (map (\<lambda>i. GetHostNum (virtual_store dis i)) (free_stores dis))"

section \<open>Bookmarks\<close>

lemma GenerateBookmarkEvent_Some:
  assumes "range_order ord" "GetHostNum vs > 0"
  shows "\<exists>e. GenerateBookmarkEvent ord vs = Some e"
proof -
  have "length (ord (nodeEventByHash vs)) > 0"
    using assms by (simp add: GetHostNum_def gm_len_def)
  then show ?thesis by (auto simp: GenerateBookmarkEvent_def split: list.splits)
qed

text \<open>Every node of the store comes from the store's own location.\<close>

definition store_located :: "VirtualNodeStore \<Rightarrow> bool" where
  "store_located vs \<longleftrightarrow> (\<forall>(k, e)\<in>set (nodeEventByHash vs). GetLocation e = vs_location vs)"

lemma addBookmarkEvent_ok:
  assumes "range_order ord" "\<forall>vs\<in>set stores. GetHostNum vs > 0" "NodeEventQueue_wf eq"
  shows "\<exists>eq'. addBookmarkEvent ord stores locations eq = Inr eq' \<and> NodeEventQueue_wf eq' \<and>
    neq_clientId eq' = neq_clientId eq \<and> watchChan eq' = watchChan eq"
  using assms
proof (induction ord stores locations eq rule: addBookmarkEvent.induct)
  case (2 ord vs stores locations eq)
  then obtain e where "GenerateBookmarkEvent ord vs = Some e"
    using GenerateBookmarkEvent_Some [of ord vs] by auto
  with 2 show ?case by (simp add: Let_def)
qed simp

text \<open>The new queue has exactly one event, a bookmark, for each location of the selected stores.\<close>

lemma addBookmarkEvent_events:
  assumes "range_order ord" "addBookmarkEvent ord stores locations eq = Inr eq'" "NodeEventQueue_wf eq"
    and "\<forall>vs\<in>set stores. store_located vs"
    and "\<forall>loc. loc \<notin> set locations \<longrightarrow> queue_events eq loc = []"
  shows "(loc \<notin> vs_location ` set stores \<or> loc \<in> set locations \<longrightarrow> queue_events eq' loc = queue_events eq loc) \<and>
    (loc \<in> vs_location ` set stores \<and> loc \<notin> set locations \<longrightarrow>
      (\<exists>e. queue_events eq' loc = [e] \<and> GetEventType e = Bookmark \<and>
        (\<exists>vs\<in>set stores. \<exists>k n. (k, n) \<in> set (nodeEventByHash vs) \<and> ne_Node (nodeEvent e) = ne_Node (nodeEvent n) \<and>
           GetLocation n = loc)))"
  using assms
proof (induction ord stores locations eq rule: addBookmarkEvent.induct)
  case (1 ord locations eq)
  then show ?case by simp
next
  case (2 ord vs stores locations eq)
  let ?l = "vs_GetLocation vs"
  have located: "\<forall>vs\<in>set stores. store_located vs" using "2.prems"(4) by simp
  show ?case
  proof (cases "?l \<in> set locations")
    case True
    have p: "addBookmarkEvent ord stores locations eq = Inr eq'" using "2.prems"(2) True by simp
    show ?thesis
      using "2.IH"(1) [OF refl True "2.prems"(1) p "2.prems"(3) located "2.prems"(5)] True
      by (auto simp: vs_GetLocation_def)
  next
    case False
    obtain e where e: "GenerateBookmarkEvent ord vs = Some e"
      using "2.prems"(2) False by (cases "GenerateBookmarkEvent ord vs") (simp_all add: Let_def)
    have p: "addBookmarkEvent ord stores (?l # locations) (EnqueueEvent e eq) = Inr eq'"
      using "2.prems"(2) False e by (simp add: Let_def)
    obtain k n where n: "(k, n) \<in> set (nodeEventByHash vs)" "GetLocation e = GetLocation n"
      "ne_Type (GetNodeEvent e) = Bookmark" "ne_Node (GetNodeEvent e) = ne_Node (nodeEvent n)"
      using GenerateBookmarkEvent_location [OF e "2.prems"(1)] by blast
    have loc: "GetLocation e = ?l" "GetLocation n = ?l"
      using n(1,2) "2.prems"(4) by (auto simp: store_located_def vs_GetLocation_def)
    have q: "queue_events (EnqueueEvent e eq) l = (if l = ?l then [e] else queue_events eq l)" for l
      using "2.prems"(5) False by (simp add: queue_events_enqueue [OF "2.prems"(3)] loc lastn_id Suc_leI)
    have empty: "\<forall>l. l \<notin> set (?l # locations) \<longrightarrow> queue_events (EnqueueEvent e eq) l = []"
      using "2.prems"(5) by (simp add: q)
    note IH = "2.IH"(2) [OF refl False e "2.prems"(1) p NodeEventQueue_wf_enqueue [OF "2.prems"(3)] located empty]
    show ?thesis
    proof (cases "loc = ?l")
      case True
      then have "queue_events eq' loc = [e]" using IH q by simp
      then show ?thesis
        using True False n loc by (auto simp: vs_GetLocation_def GetEventType_def GetNodeEvent_def)
    next
      case False
      then show ?thesis using IH q by (auto simp: vs_GetLocation_def)
    qed
  qed
qed

section \<open>The state after an allocation\<close>

lemma assign_store_frame [simp]:
  "granularOfRing (assign_store c q i ns) = granularOfRing ns"
  "regionNum (assign_store c q i ns) = regionNum ns"
  "partitionMaxNum (assign_store c q i ns) = partitionMaxNum ns"
  "totalHostNum (assign_store c q i ns) = totalHostNum ns"
  "currentRVs (assign_store c q i ns) = currentRVs ns"
  "length (vNodeStores (assign_store c q i ns)) = length (vNodeStores ns)"
  by (simp_all add: assign_store_def)

lemma fold_assign_frame [simp]:
  "granularOfRing (fold (assign_store c q) is ns) = granularOfRing ns"
  "regionNum (fold (assign_store c q) is ns) = regionNum ns"
  "partitionMaxNum (fold (assign_store c q) is ns) = partitionMaxNum ns"
  "totalHostNum (fold (assign_store c q) is ns) = totalHostNum ns"
  "currentRVs (fold (assign_store c q) is ns) = currentRVs ns"
  "length (vNodeStores (fold (assign_store c q) is ns)) = length (vNodeStores ns)"
  by (induction "is" arbitrary: ns) simp_all

definition assigned_to :: "string \<Rightarrow> nat \<Rightarrow> VirtualNodeStore \<Rightarrow> VirtualNodeStore" where
  "assigned_to c q vs = vs\<lparr>vs_clientId := c, vs_eventQueue := Some q\<rparr>"

lemma fold_assign_nth:
  assumes "distinct is" "c \<noteq> ''''" "j < length (vNodeStores ns)"
    and "\<forall>i\<in>set is. vs_clientId (vNodeStores ns ! i) = ''''"
  shows "vNodeStores (fold (assign_store c q) is ns) ! j =
    (if j \<in> set is then assigned_to c q (vNodeStores ns ! j) else vNodeStores ns ! j)"
  using assms
proof (induction "is" arbitrary: ns)
  case (Cons i "is")
  have nth: "vNodeStores (assign_store c q i ns) ! l =
      (if l = i \<and> i < length (vNodeStores ns) then assigned_to c q (vNodeStores ns ! i) else vNodeStores ns ! l)" for l
    using Cons.prems(2,4)
    by (cases "i < length (vNodeStores ns)"; cases "l = i")
      (simp_all add: assign_store_def AssignToClient_def assigned_to_def list_update_beyond)
  have "vs_clientId (vNodeStores (assign_store c q i ns) ! l) = ''''" if "l \<in> set is" for l
    using that Cons.prems(1,4) nth by auto
  then have "vNodeStores (fold (assign_store c q) is (assign_store c q i ns)) ! j =
      (if j \<in> set is then assigned_to c q (vNodeStores (assign_store c q i ns) ! j)
       else vNodeStores (assign_store c q i ns) ! j)"
    using Cons.prems(1-3) by (intro Cons.IH) simp_all
  then show ?case using Cons.prems(1,3) nth by auto
qed simp

lemma assigned_to_frame [simp]:
  "nodeEventByHash (assigned_to c q vs) = nodeEventByHash vs"
  "vs_location (assigned_to c q vs) = vs_location vs"
  "vs_clientId (assigned_to c q vs) = c"
  "vs_eventQueue (assigned_to c q vs) = Some q"
  "GetHostNum (assigned_to c q vs) = GetHostNum vs"
  by (simp_all add: assigned_to_def GetHostNum_def)

lemma persist_assignment_state:
  "\<exists>s'. snd (persistVirtualNodesAssignment si c ss dis) = dis\<lparr>dis_store := s'\<rparr>"
  by (auto simp: persistVirtualNodesAssignment_def Let_def split: prod.splits)

lemma allocate_Inr:
  assumes "allocateNodesToClient si ordS ordN c requested dis = Inr (n, dis')"
  obtains selected eventQueue s' where
    "50 < requested" "requested \<le> int (totalHostNum (defaultNodeStore dis))"
    "gm_get (nodeEventQueueMap dis) c = None" "gm_get (clientToStores dis) c = None"
    "select_stores (\<lambda>i. GetHostNum (virtual_store dis i)) requested (ordS (free_stores dis)) [] 0 = (selected, n, True)"
    "addBookmarkEvent ordN (map (virtual_store dis) selected) [] (NewNodeEventQueue c) = Inr eventQueue"
    "dis' = dis\<lparr>dis_queues := dis_queues dis @ [eventQueue],
               nodeEventQueueMap := gm_put c (length (dis_queues dis)) (nodeEventQueueMap dis),
               defaultNodeStore := fold (assign_store c (length (dis_queues dis))) selected (defaultNodeStore dis),
               clientToStores := gm_put c selected (clientToStores dis), dis_store := s'\<rparr>"
proof -
  obtain selected n' ok where sel: "select_stores (\<lambda>i. GetHostNum (virtual_store dis i)) requested
      (ordS (free_stores dis)) [] 0 = (selected, n', ok)"
    by (metis prod_cases3)
  have guards: "50 < requested" "requested \<le> int (totalHostNum (defaultNodeStore dis))"
    "gm_get (nodeEventQueueMap dis) c = None" "gm_get (clientToStores dis) c = None" "ok"
    using assms sel
    by (auto simp: allocateNodesToClient_def MinimalRequestHostNum_def GetTotalHostNum_def
        getSortedVirtualStores_def Let_def split: if_splits)
  obtain eq where eq: "addBookmarkEvent ordN (map (virtual_store dis) selected) [] (NewNodeEventQueue c) = Inr eq"
    using assms sel guards
    by (auto simp: allocateNodesToClient_def getSortedVirtualStores_def Let_def split: if_splits sum.splits)
  let ?dis1 = "dis\<lparr>dis_queues := dis_queues dis @ [eq],
    nodeEventQueueMap := gm_put c (length (dis_queues dis)) (nodeEventQueueMap dis),
    defaultNodeStore := fold (assign_store c (length (dis_queues dis))) selected (defaultNodeStore dis),
    clientToStores := gm_put c selected (clientToStores dis)\<rparr>"
  have n: "n' = n" "dis' = snd (persistVirtualNodesAssignment si c selected ?dis1)"
    using assms sel guards eq
    by (auto simp: allocateNodesToClient_def getSortedVirtualStores_def Let_def split: if_splits)
  obtain s' where "dis' = ?dis1\<lparr>dis_store := s'\<rparr>"
    using persist_assignment_state [of si c selected ?dis1] n(2) by blast
  then show thesis
    using sel guards n(1) by (intro that [OF guards(1-4) _ eq]) simp_all
qed

lemma selected_free:
  assumes "range_order ordS" "0 < requested"
    "select_stores (\<lambda>i. GetHostNum (virtual_store dis i)) requested (ordS (free_stores dis)) [] 0 = (selected, n, ok)"
  shows "distinct selected" "set selected \<subseteq> set (free_stores dis)"
    "n = sum_list (map (\<lambda>i. GetHostNum (virtual_store dis i)) selected)"
    "ok \<Longrightarrow> requested \<le> int n" "ok \<Longrightarrow> selected \<noteq> []"
    "ok \<Longrightarrow> int (sum_list (map (\<lambda>i. GetHostNum (virtual_store dis i)) (butlast selected))) < requested"
proof -
  have "int 0 < requested" using assms(2) by simp
  from select_stores_spec [OF assms(3) this] obtain k where k: "k \<le> length (ordS (free_stores dis))"
    "selected = take k (ordS (free_stores dis))"
    "n = sum_list (map (\<lambda>i. GetHostNum (virtual_store dis i)) (take k (ordS (free_stores dis))))"
    "ok \<longrightarrow> 0 < k \<and> requested \<le> int n \<and>
       int (sum_list (map (\<lambda>i. GetHostNum (virtual_store dis i)) (take (k - 1) (ordS (free_stores dis))))) < requested"
    by auto
  show "distinct selected" using k(2) assms(1) by simp
  show "set selected \<subseteq> set (free_stores dis)"
    using k(2) assms(1) set_take_subset [of k "ordS (free_stores dis)"] by simp
  show "n = sum_list (map (\<lambda>i. GetHostNum (virtual_store dis i)) selected)" using k(2,3) by simp
  show "ok \<Longrightarrow> requested \<le> int n" using k(4) by simp
  show "ok \<Longrightarrow> selected \<noteq> []" using k(1,2,4) by auto
  show "ok \<Longrightarrow> int (sum_list (map (\<lambda>i. GetHostNum (virtual_store dis i)) (butlast selected))) < requested"
    using k(1,2,4) by (simp add: butlast_take)
qed

text \<open>
  Who owns what: a registered client and the stores listed for it point at each other and share one
  queue, and a store with a client is listed for that client.
\<close>

definition owner_links :: "'s Distributor \<Rightarrow> bool" where
  "owner_links dis \<longleftrightarrow>
     (\<forall>c ss. gm_get (clientToStores dis) c = Some ss \<longrightarrow>
        c \<noteq> '''' \<and> distinct ss \<and>
        (\<exists>q. gm_get (nodeEventQueueMap dis) c = Some q \<and> q < length (dis_queues dis) \<and>
           (\<forall>i\<in>set ss. i < length (vNodeStores (defaultNodeStore dis)) \<and>
              vs_clientId (virtual_store dis i) = c \<and> vs_eventQueue (virtual_store dis i) = Some q))) \<and>
     (\<forall>i<length (vNodeStores (defaultNodeStore dis)). vs_clientId (virtual_store dis i) \<noteq> '''' \<longrightarrow>
        (\<exists>ss. gm_get (clientToStores dis) (vs_clientId (virtual_store dis i)) = Some ss \<and> i \<in> set ss)) \<and>
     (\<forall>c. gm_get (nodeEventQueueMap dis) c = None \<longleftrightarrow> gm_get (clientToStores dis) c = None) \<and>
     (\<forall>c c' q. gm_get (nodeEventQueueMap dis) c = Some q \<longrightarrow> gm_get (nodeEventQueueMap dis) c' = Some q \<longrightarrow> c = c')"

definition dis_inv :: "'s Distributor \<Rightarrow> bool" where
  "dis_inv dis \<longleftrightarrow>
     NodeStore_inv (defaultNodeStore dis) (dis_queues dis) \<and> owner_links dis \<and>
     gm_wf (nodeEventQueueMap dis) \<and> gm_wf (clientToStores dis)"

lemma NodeStore_inv_assign:
  assumes inv: "NodeStore_inv ns h" and sel: "distinct is" "c \<noteq> ''''"
    "\<forall>i\<in>set is. vs_clientId (vNodeStores ns ! i) = ''''" and q: "NodeEventQueue_wf q"
  shows "NodeStore_inv (fold (assign_store c (length h)) is ns) (h @ [q])"
proof -
  let ?ns = "fold (assign_store c (length h)) is ns"
  have nth: "vNodeStores ?ns ! j = (if j \<in> set is then assigned_to c (length h) (vNodeStores ns ! j) else vNodeStores ns ! j)"
    if "j < length (vNodeStores ns)" for j
    using fold_assign_nth [OF sel(1,2) that sel(3)] .
  have slot: "slot_of ?ns k j = slot_of ns k j" if "j < length (vNodeStores ns)" for k j
    using nth [OF that] by (simp add: slot_of_def)
  have gv: "getVirtualNodeStore e ?ns = getVirtualNodeStore e ns" for e
    by (rule getVirtualNodeStore_cong) simp_all
  have hosts: "map GetHostNum (vNodeStores ?ns) = map GetHostNum (vNodeStores ns)"
    by (intro nth_equalityI) (simp_all add: nth)
  have rv: "rv_of ?ns = rv_of ns"
    using rv_index_frame [of ?ns ns] by (auto simp: rv_of_def fun_eq_iff split: sum.splits)
  have "nodes_placed ?ns" using inv nth slot by (auto simp: NodeStore_inv_def nodes_placed_def gv)
  moreover have "hosts_counted ?ns" using inv by (simp add: NodeStore_inv_def hosts_counted_def hosts)
  moreover have "rvs_cover ?ns" using inv slot by (simp add: NodeStore_inv_def rvs_cover_def rv)
  moreover have "rvs_shape ?ns" using inv by (simp add: NodeStore_inv_def rvs_shape_def)
  moreover have "queues_linked ?ns (h @ [q])"
  proof -
    have old: "p < length h" if "j < length (vNodeStores ns)" "vs_eventQueue (vNodeStores ns ! j) = Some p" for j p
      using inv that nth_mem [OF that(1)] unfolding NodeStore_inv_def queues_linked_def by blast
    have "p < length (h @ [q])" if vs: "vs \<in> set (vNodeStores ?ns)" "vs_eventQueue vs = Some p" for vs p
    proof -
      obtain j where "j < length (vNodeStores ns)" "vs = vNodeStores ?ns ! j"
        using vs(1) by (auto simp: in_set_conv_nth)
      then show ?thesis using vs(2) nth old [of j p] by (auto split: if_splits)
    qed
    then show ?thesis using inv q by (auto simp: NodeStore_inv_def queues_linked_def)
  qed
  ultimately show ?thesis by (simp add: NodeStore_inv_def)
qed

lemma selected_stores_unassigned:
  assumes "set selected \<subseteq> set (free_stores dis)"
  shows "\<forall>i\<in>set selected. vs_clientId (vNodeStores (defaultNodeStore dis) ! i) = ''''"
    "\<forall>i\<in>set selected. i < length (vNodeStores (defaultNodeStore dis))"
    "\<forall>vs\<in>set (map (virtual_store dis) selected). GetHostNum vs > 0"
  using assms by (auto simp: free_stores_iff virtual_store_def subset_iff)

lemma allocate_keeps_inv:
  assumes inv: "dis_inv dis" and ord: "range_order ordS" "range_order ordN" and c: "c \<noteq> ''''"
    and al: "allocateNodesToClient si ordS ordN c requested dis = Inr (n, dis')"
  shows "dis_inv dis'"
proof -
  let ?ns = "defaultNodeStore dis" and ?q = "length (dis_queues dis)"
  obtain selected eventQueue s' where A: "50 < requested" "gm_get (nodeEventQueueMap dis) c = None"
    "gm_get (clientToStores dis) c = None"
    "select_stores (\<lambda>i. GetHostNum (virtual_store dis i)) requested (ordS (free_stores dis)) [] 0 = (selected, n, True)"
    "addBookmarkEvent ordN (map (virtual_store dis) selected) [] (NewNodeEventQueue c) = Inr eventQueue"
    and dis': "dis' = dis\<lparr>dis_queues := dis_queues dis @ [eventQueue],
               nodeEventQueueMap := gm_put c ?q (nodeEventQueueMap dis),
               defaultNodeStore := fold (assign_store c ?q) selected ?ns,
               clientToStores := gm_put c selected (clientToStores dis), dis_store := s'\<rparr>"
    using allocate_Inr [OF al] by metis
  have "0 < requested" using A(1) by simp
  note sel = selected_free [OF ord(1) this A(4)] and un = selected_stores_unassigned [OF sel(2)]
  have "NodeEventQueue_wf eventQueue"
    using addBookmarkEvent_ok [OF ord(2) un(3), of "NewNodeEventQueue c" "[]"] A(5) by simp
  then have ns: "NodeStore_inv (fold (assign_store c ?q) selected ?ns) (dis_queues dis @ [eventQueue])"
    using inv sel(1) c un(1) by (intro NodeStore_inv_assign) (simp_all add: dis_inv_def)
  have vs: "virtual_store dis' j =
      (if j \<in> set selected then assigned_to c ?q (virtual_store dis j) else virtual_store dis j)"
    if "j < length (vNodeStores ?ns)" for j
    using fold_assign_nth [OF sel(1) c that un(1), of ?q] by (simp add: virtual_store_def dis')
  have ol: "owner_links dis" using inv by (simp add: dis_inv_def)
  have len: "length (vNodeStores (defaultNodeStore dis')) = length (vNodeStores ?ns)" by (simp add: dis')
  have q_old: "q < ?q" if "gm_get (nodeEventQueueMap dis) c' = Some q" for c' q
    using ol that unfolding owner_links_def by (metis not_None_eq option.inject)
  have "owner_links dis'"
    unfolding owner_links_def len
  proof (intro conjI allI impI)
    fix c' ss
    assume ss: "gm_get (clientToStores dis') c' = Some ss"
    have "c' \<noteq> '''' \<and> distinct ss \<and> (\<exists>q. gm_get (nodeEventQueueMap dis') c' = Some q \<and> q < length (dis_queues dis') \<and>
        (\<forall>i\<in>set ss. i < length (vNodeStores ?ns) \<and> vs_clientId (virtual_store dis' i) = c' \<and>
          vs_eventQueue (virtual_store dis' i) = Some q))"
    proof (cases "c' = c")
      case True
      then have "ss = selected" using ss by (simp add: dis' gomap_simps)
      then show ?thesis using True c sel(1) un(2) vs by (simp add: dis' gomap_simps)
    next
      case False
      then have old: "gm_get (clientToStores dis) c' = Some ss" using ss by (simp add: dis' gomap_simps)
      then obtain q where q: "c' \<noteq> ''''" "distinct ss" "gm_get (nodeEventQueueMap dis) c' = Some q" "q < ?q"
        "\<forall>i\<in>set ss. i < length (vNodeStores ?ns) \<and> vs_clientId (virtual_store dis i) = c' \<and> vs_eventQueue (virtual_store dis i) = Some q"
        using ol unfolding owner_links_def by blast
      have "i \<notin> set selected" if "i \<in> set ss" for i
        using q(1,5) that un(1) by (auto simp: virtual_store_def)
      then show ?thesis using q False vs by (simp add: dis' gomap_simps less_SucI)
    qed
    then show "c' \<noteq> ''''" "distinct ss" "\<exists>q. gm_get (nodeEventQueueMap dis') c' = Some q \<and> q < length (dis_queues dis') \<and>
        (\<forall>i\<in>set ss. i < length (vNodeStores ?ns) \<and> vs_clientId (virtual_store dis' i) = c' \<and>
          vs_eventQueue (virtual_store dis' i) = Some q)" by blast+
  next
    fix i
    assume i: "i < length (vNodeStores ?ns)" "vs_clientId (virtual_store dis' i) \<noteq> ''''"
    show "\<exists>ss. gm_get (clientToStores dis') (vs_clientId (virtual_store dis' i)) = Some ss \<and> i \<in> set ss"
    proof (cases "i \<in> set selected")
      case True
      then show ?thesis using vs [OF i(1)] by (simp add: dis' gomap_simps)
    next
      case False
      then have v: "virtual_store dis' i = virtual_store dis i" using vs [OF i(1)] by simp
      then obtain ss where ss: "gm_get (clientToStores dis) (vs_clientId (virtual_store dis i)) = Some ss" "i \<in> set ss"
        using ol i unfolding owner_links_def by auto
      moreover have "vs_clientId (virtual_store dis i) \<noteq> c" using ss(1) A(3) by auto
      ultimately show ?thesis unfolding v by (simp add: dis' gomap_simps)
    qed
  next
    fix c'
    show "(gm_get (nodeEventQueueMap dis') c' = None) = (gm_get (clientToStores dis') c' = None)"
      using ol by (simp add: dis' gomap_simps owner_links_def)
  next
    fix c1 c2 q
    assume "gm_get (nodeEventQueueMap dis') c1 = Some q" "gm_get (nodeEventQueueMap dis') c2 = Some q"
    moreover have "\<forall>c1 c2 q. gm_get (nodeEventQueueMap dis) c1 = Some q \<longrightarrow>
        gm_get (nodeEventQueueMap dis) c2 = Some q \<longrightarrow> c1 = c2" using ol unfolding owner_links_def by blast
    moreover have "gm_get (nodeEventQueueMap dis) c0 \<noteq> Some ?q" for c0 using q_old by blast
    ultimately show "c1 = c2" by (auto simp: dis' gomap_simps split: if_splits)
  qed
  then show ?thesis using inv ns by (simp add: dis_inv_def dis')
qed

text \<open>Registration succeeds whenever the guards hold and enough hosts are free.\<close>

lemma allocate_succeeds:
  assumes "range_order ordS" "range_order ordN" "50 < requested"
    "requested \<le> int (totalHostNum (defaultNodeStore dis))" "requested \<le> int (free_hosts dis)"
    "gm_get (nodeEventQueueMap dis) c = None" "gm_get (clientToStores dis) c = None"
  shows "\<exists>n dis'. allocateNodesToClient si ordS ordN c requested dis = Inr (n, dis')"
proof -
  let ?hosts = "\<lambda>i. GetHostNum (virtual_store dis i)" and ?vss = "vNodeStores (defaultNodeStore dis)"
  have pos: "0 < requested" using assms(3) by simp
  have "free_hosts dis \<le> sum_list (map ?hosts [0..<length ?vss])"
    unfolding free_hosts_def free_stores_def by (rule sum_list_filter_le_nat)
  also have "map ?hosts [0..<length ?vss] = map GetHostNum ?vss"
    by (intro nth_equalityI) (simp_all add: virtual_store_def)
  finally have all: "requested \<le> int (sum_list (map GetHostNum ?vss))" using assms(5) by simp
  then have cap: "CheckFreeCapacity requested (defaultNodeStore dis)"
    using pos by (auto simp: CheckFreeCapacity_iff)
  obtain selected n ok where sel: "select_stores ?hosts requested (ordS (free_stores dis)) [] 0 = (selected, n, ok)"
    by (metis prod_cases3)
  have "sum_list (map ?hosts (ordS (free_stores dis))) = free_hosts dis"
    unfolding free_hosts_def by (rule range_order_sum [OF assms(1)])
  then have ok: ok using select_stores_ok [OF sel pos] assms(5) by simp
  note S = selected_free [OF assms(1) pos sel]
  have ne: "free_stores dis \<noteq> []" using S(2,5) ok by auto
  obtain eq where "addBookmarkEvent ordN (map (virtual_store dis) selected) [] (NewNodeEventQueue c) = Inr eq"
    using addBookmarkEvent_ok [OF assms(2) selected_stores_unassigned(3) [OF S(2)], of "NewNodeEventQueue c" "[]"]
    by auto
  then show ?thesis
    using assms(3,4,6,7) cap sel ok ne
    by (simp add: allocateNodesToClient_def MinimalRequestHostNum_def GetTotalHostNum_def
        getSortedVirtualStores_def Let_def)
qed

section \<open>Listing\<close>

lemma newest_rv_Some:
  assumes "finite es"
  shows "newest_rv es l = Some v \<longleftrightarrow>
    (\<exists>e\<in>es. GetRvLocation e = l \<and> GetResourceVersion e = v) \<and>
    (\<forall>e\<in>es. GetRvLocation e = l \<longrightarrow> GetResourceVersion e \<le> v)"
proof -
  let ?V = "GetResourceVersion ` {e \<in> es. GetRvLocation e = l}"
  have fin: "finite ?V" using assms by simp
  have mem: "v \<in> ?V \<longleftrightarrow> (\<exists>e\<in>es. GetRvLocation e = l \<and> GetResourceVersion e = v)" by auto
  have le: "(\<forall>x\<in>?V. x \<le> v) \<longleftrightarrow> (\<forall>e\<in>es. GetRvLocation e = l \<longrightarrow> GetResourceVersion e \<le> v)" by auto
  show ?thesis
  proof (cases "?V = {}")
    case True
    then show ?thesis using mem by (simp add: newest_rv_def)
  next
    case False
    then have "newest_rv es l = Some v \<longleftrightarrow> Max ?V = v"
      unfolding newest_rv_def Let_def by (simp only: if_False option.inject)
    also have "\<dots> \<longleftrightarrow> v \<in> ?V \<and> (\<forall>x\<in>?V. x \<le> v)" using Max_eq_iff [OF fin False] .
    finally show ?thesis unfolding mem le .
  qed
qed

lemma keep_newest_fold_Some:
  "gm_get (fold (\<lambda>(l, rv). keep_newest_rv l rv) xs gm_empty) l = Some v \<longleftrightarrow>
     (l, v) \<in> set xs \<and> (\<forall>rv. (l, rv) \<in> set xs \<longrightarrow> rv \<le> v)"
proof -
  define vl where "vl = [rv. (l', rv) \<leftarrow> xs, l' = l]"
  have set_vl: "set vl = {rv. (l, rv) \<in> set xs}" by (auto simp: vl_def)
  have get: "gm_get (fold (\<lambda>(l, rv). keep_newest_rv l rv) xs gm_empty) l =
      (case vl of [] \<Rightarrow> None | v # vs' \<Rightarrow> Some (fold max vs' v))"
    by (simp add: keep_newest_rv_fold Let_def vl_def)
  show ?thesis
  proof (cases vl)
    case Nil
    then show ?thesis using get set_vl by auto
  next
    case (Cons a vs)
    have "fold max vs a = Max (set vl)" unfolding Cons by (simp add: fold_max_Max)
    then have "gm_get (fold (\<lambda>(l, rv). keep_newest_rv l rv) xs gm_empty) l = Some v \<longleftrightarrow> Max (set vl) = v"
      using get Cons by simp
    also have "\<dots> \<longleftrightarrow> v \<in> set vl \<and> (\<forall>x\<in>set vl. x \<le> v)"
      by (rule Max_eq_iff) (simp_all add: Cons)
    finally show ?thesis unfolding set_vl by simp
  qed
qed

lemma combine_rvs_flat:
  "combine_rvs ordR ms = fold (\<lambda>(l, rv). keep_newest_rv l rv) (concat (map ordR ms)) gm_empty"
proof -
  have "fold (\<lambda>m acc. fold (\<lambda>(l, rv). keep_newest_rv l rv) (ordR m) acc) ms a =
      fold (\<lambda>(l, rv). keep_newest_rv l rv) (concat (map ordR ms)) a" for a
    by (induction ms arbitrary: a) simp_all
  then show ?thesis by (simp add: combine_rvs_def)
qed

lemma SnapShot_rvs_wf: "gm_wf (snd (SnapShot ord vs))"
proof -
  have "gm_wf (fold (\<lambda>kv. keep_newest_rv (GetRvLocation (snd kv)) (GetResourceVersion (snd kv))) xs m)"
    if "gm_wf m" for xs :: "(f64 \<times> ManagedNodeEvent) list" and m
    using that by (induction xs arbitrary: m) simp_all
  then show ?thesis by (simp add: SnapShot_def Let_def)
qed

text \<open>The managed events kept in the stores of a client.\<close>

definition client_events :: "'s Distributor \<Rightarrow> nat list \<Rightarrow> ManagedNodeEvent set" where
  "client_events dis ss = (\<Union>i\<in>set ss. snd ` set (nodeEventByHash (virtual_store dis i)))"

lemma finite_client_events [simp]: "finite (client_events dis ss)"
  by (simp add: client_events_def)

lemma ListNodes_rvs:
  assumes ord: "range_order ordN" "range_order ordR"
    and list: "ListNodesForClient ordN ordR c dis = Inr (nodes, rvs)"
    and ss: "gm_get (clientToStores dis) c = Some ss"
  shows "gm_get rvs l = newest_rv (client_events dis ss) l"
proof -
  let ?snap = "\<lambda>i. snd (SnapShot ordN (virtual_store dis i))"
  let ?es = "\<lambda>i. snd ` set (nodeEventByHash (virtual_store dis i))"
  have rvs: "rvs = fold (\<lambda>(l, rv). keep_newest_rv l rv) (concat (map ordR (map ?snap ss))) gm_empty"
    using list ss
    by (auto simp: ListNodesForClient_def Let_def combine_rvs_flat comp_def split: if_splits option.splits)
  have mem: "(l, v) \<in> set (concat (map ordR (map ?snap ss))) \<longleftrightarrow> (\<exists>i\<in>set ss. newest_rv (?es i) l = Some v)" for v
    using ord by (auto simp: gm_in_iff SnapShot_rvs_wf SnapShot_rvs)
  have "gm_get rvs l = Some v \<longleftrightarrow> newest_rv (client_events dis ss) l = Some v" for v
  proof
    assume "gm_get rvs l = Some v"
    then have a: "\<exists>i\<in>set ss. newest_rv (?es i) l = Some v"
      "\<And>i rv. i \<in> set ss \<Longrightarrow> newest_rv (?es i) l = Some rv \<Longrightarrow> rv \<le> v"
      unfolding rvs keep_newest_fold_Some mem by blast+
    have "GetResourceVersion e \<le> v" if e: "i \<in> set ss" "e \<in> ?es i" "GetRvLocation e = l" for i e
    proof -
      have "newest_rv (?es i) l \<noteq> None"
        using e(2,3) unfolding newest_rv_def Let_def by auto
      then obtain rv where rv: "newest_rv (?es i) l = Some rv" by blast
      then have "GetResourceVersion e \<le> rv" using newest_rv_Some [of "?es i" l rv] e(2,3) by auto
      then show ?thesis using a(2) [OF e(1) rv] by (rule order_trans)
    qed
    then show "newest_rv (client_events dis ss) l = Some v"
      using a(1) unfolding newest_rv_Some [OF finite_client_events] client_events_def
      by (auto simp: newest_rv_Some)
  next
    assume "newest_rv (client_events dis ss) l = Some v"
    from iffD1 [OF newest_rv_Some [OF finite_client_events] this] have b: "\<exists>i\<in>set ss. \<exists>e\<in>?es i. GetRvLocation e = l \<and> GetResourceVersion e = v"
      "\<And>i e. i \<in> set ss \<Longrightarrow> e \<in> ?es i \<Longrightarrow> GetRvLocation e = l \<Longrightarrow> GetResourceVersion e \<le> v"
      unfolding client_events_def by blast+
    have "\<exists>i\<in>set ss. newest_rv (?es i) l = Some v" using b by (auto simp: newest_rv_Some)
    moreover have "rv \<le> v" if "i \<in> set ss" "newest_rv (?es i) l = Some rv" for i rv
      using that b(2) by (auto simp: newest_rv_Some)
    ultimately show "gm_get rvs l = Some v" unfolding rvs keep_newest_fold_Some mem by blast
  qed
  then show ?thesis by (metis not_Some_eq)
qed

lemma ListNodes_nodes:
  assumes ord: "range_order ordN"
    and list: "ListNodesForClient ordN ordR c dis = Inr (nodes, rvs)"
    and ss: "gm_get (clientToStores dis) c = Some ss"
  shows "mset nodes = sum_list (map (\<lambda>i. image_mset (\<lambda>kv. ne_Node (nodeEvent (snd kv)))
      (mset (nodeEventByHash (virtual_store dis i)))) ss)"
proof -
  have nodes: "nodes = concat (map (\<lambda>i. fst (SnapShot ordN (virtual_store dis i))) ss)"
    using list ss by (auto simp: ListNodesForClient_def Let_def comp_def split: if_splits option.splits)
  show ?thesis unfolding nodes by (induction ss) (simp_all add: SnapShot_nodes [OF ord])
qed

lemma ListNodes_count:
  assumes "range_order ordN" "ListNodesForClient ordN ordR c dis = Inr (nodes, rvs)"
    and ss: "gm_get (clientToStores dis) c = Some ss"
  shows "length nodes = sum_list (map (\<lambda>i. GetHostNum (virtual_store dis i)) ss)"
proof -
  have "size (sum_list (map (\<lambda>i. image_mset (\<lambda>kv. ne_Node (nodeEvent (snd kv)))
      (mset (nodeEventByHash (virtual_store dis i)))) ss)) = sum_list (map (\<lambda>i. GetHostNum (virtual_store dis i)) ss)"
    by (induction ss) (simp_all add: GetHostNum_def gm_len_def)
  then show ?thesis using ListNodes_nodes [OF assms] by (metis size_mset)
qed

section \<open>Processing keeps the owners\<close>

definition same_meta :: "NodeStore \<Rightarrow> NodeStore \<Rightarrow> bool" where
  "same_meta ns ns' \<longleftrightarrow>
     granularOfRing ns' = granularOfRing ns \<and> length (vNodeStores ns') = length (vNodeStores ns) \<and>
     regionNum ns' = regionNum ns \<and> partitionMaxNum ns' = partitionMaxNum ns \<and>
     (\<forall>j<length (vNodeStores ns).
        vs_eventQueue (vNodeStores ns' ! j) = vs_eventQueue (vNodeStores ns ! j) \<and>
        vs_clientId (vNodeStores ns' ! j) = vs_clientId (vNodeStores ns ! j) \<and>
        vs_location (vNodeStores ns' ! j) = vs_location (vNodeStores ns ! j))"

lemma same_meta_refl [simp]: "same_meta ns ns"
  by (simp add: same_meta_def)

lemma same_meta_trans: "same_meta a b \<Longrightarrow> same_meta b c \<Longrightarrow> same_meta a c"
  by (simp add: same_meta_def)

lemma processNodeEvent_meta:
  assumes "processNodeEvent e (ns, h) = Inr (b, ns', h')"
  shows "same_meta ns ns'"
proof (cases b)
  case False
  then have "ns' = ns"
    using assms by (auto simp: processNodeEvent_def Let_def split: if_splits sum.splits)
  then show ?thesis by simp
next
  case True
  obtain k i where up: "update_rv e (ring_store e k i ns) = Inr ns'"
    using processNodeEvent_Inr [of e ns h ns' h'] assms True by (metis (full_types))
  show ?thesis
    using ring_store_meta [of _ ns e k i] by (simp add: same_meta_def update_rv_frame [OF up])
qed

lemma process_all_inv:
  "process_all es (ns, h) = Inr (ns', h') \<Longrightarrow> NodeStore_inv ns h \<Longrightarrow>
    NodeStore_inv ns' h' \<and> length h' = length h \<and> same_meta ns ns'"
proof (induction es arbitrary: ns h)
  case (Cons e es)
  then obtain b ns1 h1 where p: "processNodeEvent e (ns, h) = Inr (b, ns1, h1)"
    "process_all es (ns1, h1) = Inr (ns', h')"
    by (auto split: sum.splits)
  then show ?case
    using Cons.IH [OF p(2)] processNodeEvent_inv_step [OF Cons.prems(2) p(1)] processNodeEvent_meta [OF p(1)]
    by (auto intro: same_meta_trans)
qed simp

lemma owner_links_meta:
  assumes "owner_links dis" "same_meta (defaultNodeStore dis) ns" "length h = length (dis_queues dis)"
  shows "owner_links (dis\<lparr>defaultNodeStore := ns, dis_queues := h, dis_store := s\<rparr>)"
proof -
  have len: "length (vNodeStores ns) = length (vNodeStores (defaultNodeStore dis))"
    using assms(2) by (simp add: same_meta_def)
  have eq: "vs_clientId (vNodeStores ns ! i) = vs_clientId (vNodeStores (defaultNodeStore dis) ! i)"
    "vs_eventQueue (vNodeStores ns ! i) = vs_eventQueue (vNodeStores (defaultNodeStore dis) ! i)"
    if "i < length (vNodeStores (defaultNodeStore dis))" for i
    using assms(2) that by (simp_all add: same_meta_def)
  show ?thesis
    using assms(1) unfolding owner_links_def virtual_store_def
    by (simp add: len assms(3) eq cong: conj_cong)
qed

lemma dis_inv_update:
  assumes "dis_inv dis" "NodeStore_inv ns h" "same_meta (defaultNodeStore dis) ns"
    "length h = length (dis_queues dis)"
  shows "dis_inv (dis\<lparr>defaultNodeStore := ns, dis_queues := h, dis_store := s\<rparr>)"
  using assms owner_links_meta [OF _ assms(3,4)] by (simp add: dis_inv_def)

section \<open>Refusals\<close>

lemma allocate_guards:
  "requested \<le> 50 \<Longrightarrow> allocateNodesToClient si ordS ordN c requested dis = Inl Error_HostRequestLessThanMiniaml"
  "50 < requested \<Longrightarrow> int (totalHostNum (defaultNodeStore dis)) < requested \<Longrightarrow>
    allocateNodesToClient si ordS ordN c requested dis = Inl Error_HostRequestExceedLimit"
  "50 < requested \<Longrightarrow> requested \<le> int (totalHostNum (defaultNodeStore dis)) \<Longrightarrow>
    \<not> CheckFreeCapacity requested (defaultNodeStore dis) \<Longrightarrow>
    allocateNodesToClient si ordS ordN c requested dis = Inl Error_HostRequestExceedCapacity"
  "50 < requested \<Longrightarrow> requested \<le> int (totalHostNum (defaultNodeStore dis)) \<Longrightarrow>
    CheckFreeCapacity requested (defaultNodeStore dis) \<Longrightarrow>
    gm_get (nodeEventQueueMap dis) c \<noteq> None \<Longrightarrow>
    allocateNodesToClient si ordS ordN c requested dis = Inl Error_ClientIdExisted"
  unfolding allocateNodesToClient_def MinimalRequestHostNum_def GetTotalHostNum_def
     apply (rule if_P, assumption)
    apply (subst if_not_P, linarith, subst if_P, linarith, rule refl)
   apply (subst if_not_P, linarith, subst if_not_P, linarith, subst if_P, assumption, rule refl)
  apply (subst if_not_P, linarith, subst if_not_P, linarith, subst if_not_P, simp, subst if_P, assumption, rule refl)
  done
lemma allocate_no_room:
  assumes "range_order ordS" "50 < requested" "requested \<le> int (totalHostNum (defaultNodeStore dis))"
    "CheckFreeCapacity requested (defaultNodeStore dis)" "gm_get (nodeEventQueueMap dis) c = None"
    "gm_get (clientToStores dis) c = None" "int (free_hosts dis) < requested"
  shows "\<exists>msg. allocateNodesToClient si ordS ordN c requested dis = Inl (ErrorText msg)"
proof -
  let ?sel = "select_stores (\<lambda>i. GetHostNum (virtual_store dis i)) requested (ordS (free_stores dis)) [] 0"
  obtain selected n ok where s: "?sel = (selected, n, ok)" by (cases ?sel)
  have "\<not> ok" using select_stores_ok [OF s] assms(2,7) range_order_sum [OF assms(1)] by (simp add: free_hosts_def)
  moreover have "\<not> requested \<le> 50" "\<not> int (totalHostNum (defaultNodeStore dis)) < requested"
    using assms(2,3) by simp_all
  ultimately have "allocateNodesToClient si ordS ordN c requested dis =
      (if free_stores dis = [] then Inl (ErrorText ''No available hosts'') else Inl (ErrorText ''Not enough hosts''))"
    unfolding allocateNodesToClient_def Let_def getSortedVirtualStores_def s MinimalRequestHostNum_def GetTotalHostNum_def
    by (simp only: assms(4-6) if_False if_True simp_thms prod.case)
  then show ?thesis by (cases "free_stores dis = []") simp_all
qed

end
