(* ===== verification/GRS_Interface.thy ===== *)
theory GRS_Interface
  imports GRS_Distributor
begin

text \<open>
  \<open>common-lib/interfaces/distributor\<close>: the interface through which the service API and the
  aggregator use the distributor, as a record of its methods over the distributor's state, the laws
  these callers rely on, and the distributor as an implementation of it. For the interface,
  \<open>ProcessEvents\<close> is a function: \<open>run_goroutines\<close> is one of the schedules that the relation
  \<open>ProcessEvents\<close> allows, the one that finishes the batches in the order they were started.
\<close>

record 'd DistributorInterface =
  di_RegisterClient :: "Client \<Rightarrow> 'd \<Rightarrow> GoError option \<times> 'd"
  di_ListNodesForClient :: "string \<Rightarrow> 'd \<Rightarrow> (LogicalNode list \<times> TransitResourceVersionMap) result"
  di_Watch :: "string \<Rightarrow> TransitResourceVersionMap option \<Rightarrow> bool \<Rightarrow> bool \<Rightarrow> 'd \<Rightarrow> (NodeEvent list \<times> 'd) result"
  di_ProcessEvents :: "NodeEvent option list \<Rightarrow> 'd \<Rightarrow> ((bool \<times> TransitResourceVersionMap) \<times> 'd) result"
  di_GetNodeStatus :: "Region \<Rightarrow> ResourcePartition \<Rightarrow> string \<Rightarrow> 'd \<Rightarrow> LogicalNode result"

section \<open>The invariant of the distributor\<close>

lemma RegisterClient_keeps_inv:
  assumes "dis_inv dis" "range_order ordS" "range_order ordN" "ClientId client \<noteq> ''''"
    and "RegisterClient si ordS ordN client dis = (err, dis')"
  shows "dis_inv dis'"
proof -
  have store: "dis_inv (d\<lparr>dis_store := s\<rparr>) = dis_inv d" for d :: "'a Distributor" and s
    by (simp add: dis_inv_def owner_links_def virtual_store_def)
  show ?thesis
  proof (cases "allocateNodesToClient si ordS ordN (ClientId client) (TotalMachines (Resource client)) dis")
    case (Inl e)
    then show ?thesis using assms(1,5) by (simp add: RegisterClient_def Let_def)
  next
    case (Inr r)
    obtain n d where r: "r = (n, d)" by (cases r)
    have "dis_inv d" using allocate_keeps_inv [OF assms(1-4)] Inr r by simp
    then show ?thesis
      using assms(5) Inr r store
      by (auto simp: RegisterClient_def Let_def split: prod.splits option.splits)
  qed
qed

lemma Watch_queue:
  assumes "Watch ordR ordQ rvs eq = Inr (events, eq')"
  shows "eventQueueByLoc eq' = eventQueueByLoc eq" "watchChan eq = None" "watchChan eq' = Some (chansMade eq)"
    "neq_clientId eq' = neq_clientId eq" "spawnedSends eq' = spawnedSends eq"
    "getAllEventsSinceResourceVersion ordR ordQ rvs eq = Inr events"
  using assms by (auto simp: Watch_def split: if_splits sum.splits)

lemma dis_Watch_Inr:
  assumes "dis_Watch ordT ordR ordQ c rvs wc sc dis = Inr (events, dis')"
  obtains q rvs' eq' where "gm_get (nodeEventQueueMap dis) c = Some q" "rvs = Some rvs'" "wc" "sc"
    "Watch ordR ordQ (ConvertToInternalResourceVersionMap ordT rvs') (dis_queues dis ! q) = Inr (events, eq')"
    "dis' = dis\<lparr>dis_queues := (dis_queues dis)[q := eq']\<rparr>"
  using assms by (auto simp: dis_Watch_def split: option.splits if_splits sum.splits)

lemma queues_linked_update:
  assumes "queues_linked ns h" "NodeEventQueue_wf eq'"
  shows "queues_linked ns (h[q := eq'])"
  using assms by (auto simp: queues_linked_def dest!: set_update_subset_insert [THEN subsetD])

lemma Watch_keeps_inv:
  assumes "dis_inv dis" "dis_Watch ordT ordR ordQ c rvs wc sc dis = Inr (events, dis')"
  shows "dis_inv dis'"
proof -
  obtain q rvs' eq' where W: "gm_get (nodeEventQueueMap dis) c = Some q"
    "Watch ordR ordQ (ConvertToInternalResourceVersionMap ordT rvs') (dis_queues dis ! q) = Inr (events, eq')"
    "dis' = dis\<lparr>dis_queues := (dis_queues dis)[q := eq']\<rparr>"
    using dis_Watch_Inr [OF assms(2)] by metis
  have ol: "owner_links dis" and ns: "NodeStore_inv (defaultNodeStore dis) (dis_queues dis)"
    using assms(1) by (simp_all add: dis_inv_def)
  have "q < length (dis_queues dis)"
    using ol W(1) unfolding owner_links_def by (metis not_None_eq option.inject)
  then have "NodeEventQueue_wf (dis_queues dis ! q)"
    using ns by (simp add: NodeStore_inv_def queues_linked_def)
  then have "NodeEventQueue_wf eq'"
    using Watch_queue(1) [OF W(2)] by (simp add: NodeEventQueue_wf_def)
  then have "NodeStore_inv (defaultNodeStore dis) ((dis_queues dis)[q := eq'])"
    using ns queues_linked_update by (simp add: NodeStore_inv_def)
  from dis_inv_update [OF assms(1) this, of "dis_store dis"] show ?thesis by (simp add: W(3))
qed

text \<open>The managed events of a batch that are processed: up to the first nil.\<close>

lemma non_nil_events_to_process:
  "map node_of (non_nil (events_to_process False now i es)) =
     map (ne_Node \<circ> the) (takeWhile (\<lambda>e. e \<noteq> None) es)"
  by (induction es arbitrary: i)
    (auto simp: managed_event_def node_of_def NewManagedNodeEvent_def GetNodeEvent_def Let_def
      non_nil_def split: option.splits)

lemma ProcessEvents_start_ok:
  assumes inv: "dis_inv dis"
    and ok: "process_all (non_nil (events_to_process enabled now 0 events)) (defaultNodeStore dis, dis_queues dis) = Inr (ns', h')"
  obtains w bs where
    "ProcessEvents_start si enabled now events dis =
       Inr ((True, GetCurrentResourceVersions ns'),
            dis\<lparr>defaultNodeStore := ns', dis_queues := h', dis_store := pw_store w\<rparr>, w)"
    "wait_balanced w" "retries_ok w" "running w = map (\<lambda>b. (b, 0)) bs"
    "pw_store w = snd (si_PersistNodeStoreStatus si (getNodeStoreStatus ns') (dis_store dis))"
    "concat bs = map node_of (non_nil (events_to_process enabled now 0 events))"
    "\<forall>b\<in>set bs. b \<noteq> [] \<and> length b \<le> BatchPersistSize"
    "\<And>s. dis_inv (dis\<lparr>defaultNodeStore := ns', dis_queues := h', dis_store := s\<rparr>)"
proof -
  obtain w bs where W: "ProcessNodeEvents si (events_to_process enabled now 0 events)
      (defaultNodeStore dis, dis_queues dis) (NewDistributorPersistHelper (dis_store dis)) =
      Inr ((True, GetCurrentResourceVersions ns'), (ns', h'), w)"
    "wait_balanced w" "running w = running (NewDistributorPersistHelper (dis_store dis)) @ map (\<lambda>b. (b, 0)) bs"
    "pw_store w = snd (si_PersistNodeStoreStatus si (getNodeStoreStatus ns') (pw_store (NewDistributorPersistHelper (dis_store dis))))"
    "concat bs = map node_of (non_nil (events_to_process enabled now 0 events))"
    "\<forall>b\<in>set bs. b \<noteq> [] \<and> length b \<le> BatchPersistSize"
    by (rule ProcessNodeEvents_spec [OF wait_balanced_new ok]) (rule that, assumption+)
  have run: "running w = map (\<lambda>b. (b, 0)) bs"
    using W(3) by (simp add: NewDistributorPersistHelper_def)
  have inv': "dis_inv (dis\<lparr>defaultNodeStore := ns', dis_queues := h', dis_store := s\<rparr>)" for s
    using process_all_inv [OF ok] inv by (intro dis_inv_update) (simp_all add: dis_inv_def)
  show thesis
  proof (rule that [OF _ W(2) _ run _ W(5,6) inv'])
    show "ProcessEvents_start si enabled now events dis =
       Inr ((True, GetCurrentResourceVersions ns'),
            dis\<lparr>defaultNodeStore := ns', dis_queues := h', dis_store := pw_store w\<rparr>, w)"
      by (simp add: ProcessEvents_start_def W(1))
    show "retries_ok w" by (simp add: retries_ok_def run)
    show "pw_store w = snd (si_PersistNodeStoreStatus si (getNodeStoreStatus ns') (dis_store dis))"
      using W(4) by (simp add: NewDistributorPersistHelper_def)
  qed
qed

lemma ProcessEvents_start_Inl:
  assumes "process_all (non_nil (events_to_process enabled now 0 events)) (defaultNodeStore dis, dis_queues dis) = Inl err"
  shows "ProcessEvents_start si enabled now events dis = Inl err"
proof -
  let ?es = "events_to_process enabled now 0 events"
  let ?w = "(NewDistributorPersistHelper (dis_store dis))\<lparr>waitCount := int (length ?es)\<rparr>"
  have "SetWaitCount (length ?es) (NewDistributorPersistHelper (dis_store dis)) = Inr ?w"
    by (simp add: SetWaitCount_def wg_Add_def NewDistributorPersistHelper_def)
  moreover have "process_loop ?es [] (defaultNodeStore dis, dis_queues dis) ?w = Inl err"
    by (rule process_loop_Inl [OF assms]) (simp add: NewDistributorPersistHelper_def)
  ultimately show ?thesis by (simp add: ProcessEvents_start_def ProcessNodeEvents_def)
qed

section \<open>One schedule of the goroutines\<close>

fun run_goroutines :: "nat \<Rightarrow> 's StoreInterface \<Rightarrow> 's PersistWorld \<Rightarrow> 's PersistWorld result" where
  "run_goroutines 0 si w = Inr w"
| "run_goroutines (Suc fuel) si w =
     (if running w = [] then Inr w
      else case persist_attempt si 0 w of
             Inl err \<Rightarrow> Inl err
           | Inr w' \<Rightarrow> run_goroutines fuel si w')"

lemma run_goroutines_steps:
  "run_goroutines fuel si w = Inr w' \<Longrightarrow> (pstep si)\<^sup>*\<^sup>* w w'"
proof (induction fuel arbitrary: w)
  case (Suc fuel)
  show ?case
  proof (cases "running w = []")
    case False
    then obtain v where v: "persist_attempt si 0 w = Inr v" "run_goroutines fuel si v = Inr w'"
      using Suc.prems by (auto split: sum.splits)
    have "pstep si w v" using False v(1) by (intro pstep.attempt [of 0]) simp_all
    then show ?thesis using Suc.IH [OF v(2)] by (rule converse_rtranclp_into_rtranclp)
  qed (use Suc.prems in simp)
qed simp

text \<open>\<open>attempts_left\<close> is enough fuel.\<close>

lemma run_goroutines_enough:
  "run_goroutines fuel si w = Inr w' \<Longrightarrow> attempts_left w \<le> fuel \<Longrightarrow> wait_balanced w \<Longrightarrow> retries_ok w \<Longrightarrow>
    running w' = [] \<and> wait_balanced w'"
proof (induction fuel arbitrary: w)
  case 0
  have "running w = []"
  proof (rule ccontr)
    assume "running w \<noteq> []"
    then obtain r rs where "running w = r # rs" by (cases "running w") auto
    then have "snd r \<le> 5" "6 - snd r = 0"
      using "0.prems"(2,4) by (simp_all add: retries_ok_def attempts_left_def)
    then show False by simp
  qed
  then show ?case using "0.prems" by simp
next
  case (Suc fuel)
  show ?case
  proof (cases "running w = []")
    case False
    then obtain v where v: "persist_attempt si 0 w = Inr v" "run_goroutines fuel si v = Inr w'"
      using Suc.prems(1) by (auto split: sum.splits)
    have "pstep si w v" using False v(1) by (intro pstep.attempt [of 0]) simp_all
    from pstep_progress [OF this Suc.prems(3,4)] show ?thesis
      using Suc.IH [OF v(2)] Suc.prems(2) by simp
  qed (use Suc.prems in simp)
qed

definition ProcessEvents_fun ::
  "'s StoreInterface \<Rightarrow> bool \<Rightarrow> (nat \<Rightarrow> go_time) \<Rightarrow> NodeEvent option list \<Rightarrow> 's Distributor \<Rightarrow>
     ((bool \<times> TransitResourceVersionMap) \<times> 's Distributor) result" where
  "ProcessEvents_fun si enabled now events dis =
     (case ProcessEvents_start si enabled now events dis of
        Inl err \<Rightarrow> Inl err
      | Inr (r, dis', w) \<Rightarrow>
          map_sum id (\<lambda>w'. (r, dis'\<lparr>dis_store := pw_store w'\<rparr>)) (run_goroutines (attempts_left w) si w))"

lemma ProcessEvents_fun_sound:
  assumes inv: "dis_inv dis" and run: "ProcessEvents_fun si enabled now events dis = Inr (r, dis')"
  shows "ProcessEvents si enabled now events dis r dis'" "dis_inv dis'"
proof -
  let ?es = "non_nil (events_to_process enabled now 0 events)"
  obtain ns' h' where ok: "process_all ?es (defaultNodeStore dis, dis_queues dis) = Inr (ns', h')"
    using run ProcessEvents_start_Inl [of enabled now events dis _ si]
    by (cases "process_all ?es (defaultNodeStore dis, dis_queues dis)") (auto simp: ProcessEvents_fun_def)
  obtain w bs where S: "ProcessEvents_start si enabled now events dis =
       Inr ((True, GetCurrentResourceVersions ns'),
            dis\<lparr>defaultNodeStore := ns', dis_queues := h', dis_store := pw_store w\<rparr>, w)"
    "wait_balanced w" "retries_ok w"
    and inv': "\<And>s. dis_inv (dis\<lparr>defaultNodeStore := ns', dis_queues := h', dis_store := s\<rparr>)"
    using ProcessEvents_start_ok [OF inv ok] by metis
  obtain w' where w': "run_goroutines (attempts_left w) si w = Inr w'"
    "r = (True, GetCurrentResourceVersions ns')"
    "dis' = dis\<lparr>defaultNodeStore := ns', dis_queues := h', dis_store := pw_store w'\<rparr>"
    using run S(1) by (cases "run_goroutines (attempts_left w) si w") (auto simp: ProcessEvents_fun_def)
  have "WaitForAllNodesSaved_returns w'"
    using run_goroutines_enough [OF w'(1) order_refl S(2,3)]
    by (simp add: WaitForAllNodesSaved_returns_def wait_balanced_def)
  from ProcessEvents.returns [OF S(1) run_goroutines_steps [OF w'(1)] this]
  show "ProcessEvents si enabled now events dis r dis'" by (simp add: w')
  show "dis_inv dis'" unfolding w'(3) by (rule inv')
qed

definition distributor ::
  "'s StoreInterface \<Rightarrow> store_order \<Rightarrow> node_order \<Rightarrow> transit_order \<Rightarrow> rv_order \<Rightarrow> queue_order \<Rightarrow>
     bool \<Rightarrow> (nat \<Rightarrow> go_time) \<Rightarrow> 's Distributor DistributorInterface" where
  "distributor si ordS ordN ordT ordR ordQ enabled now =
     \<lparr>di_RegisterClient = RegisterClient si ordS ordN,
      di_ListNodesForClient = ListNodesForClient ordN ordT,
      di_Watch = dis_Watch ordT ordR ordQ,
      di_ProcessEvents = ProcessEvents_fun si enabled now,
      di_GetNodeStatus = GetNodeStatus\<rparr>"

section \<open>The contract of the interface\<close>

text \<open>
  What the aggregator and the service API rely on: every method keeps the invariant, a processed
  batch is always reported as processed, and the resource version of a location, as the returned
  maps report it, never goes back.
\<close>

locale event_processor =
  fixes di :: "'d DistributorInterface"
    and inv :: "'d \<Rightarrow> bool"
    and current :: "'d \<Rightarrow> RvLocation \<Rightarrow> uint64"
  assumes register_inv:
      "inv d \<Longrightarrow> ClientId client \<noteq> '''' \<Longrightarrow> di_RegisterClient di client d = (err, d') \<Longrightarrow> inv d'"
    and watch_inv: "inv d \<Longrightarrow> di_Watch di c rvs wc sc d = Inr (events, d') \<Longrightarrow> inv d'"
    and process_inv: "inv d \<Longrightarrow> di_ProcessEvents di es d = Inr ((b, crv), d') \<Longrightarrow> inv d'"
    and process_true: "inv d \<Longrightarrow> di_ProcessEvents di es d = Inr ((b, crv), d') \<Longrightarrow> b"
    and process_crv: "inv d \<Longrightarrow> di_ProcessEvents di es d = Inr ((b, crv), d') \<Longrightarrow>
      gm_get crv l = (if current d' l > 0 then Some (current d' l) else None)"
    and process_mono: "inv d \<Longrightarrow> di_ProcessEvents di es d = Inr ((b, crv), d') \<Longrightarrow> current d l \<le> current d' l"
    and process_wf: "di_ProcessEvents di es d = Inr ((b, crv), d') \<Longrightarrow> inv d \<Longrightarrow> gm_wf crv"
    and register_current:
      "inv d \<Longrightarrow> ClientId client \<noteq> '''' \<Longrightarrow> di_RegisterClient di client d = (err, d') \<Longrightarrow> current d' l = current d l"
    and watch_current: "inv d \<Longrightarrow> di_Watch di c rvs wc sc d = Inr (events, d') \<Longrightarrow> current d' l = current d l"

definition current_rv :: "'s Distributor \<Rightarrow> RvLocation \<Rightarrow> uint64" where
  "current_rv dis l =
     rv_of (defaultNodeStore dis) \<lparr>loc_region = rv_Region l, loc_partition = rv_Partition l\<rparr>"

text \<open>The invariant with the dimensions of the configuration.\<close>

definition dis_ok :: "'s Distributor \<Rightarrow> bool" where
  "dis_ok dis \<longleftrightarrow> dis_inv dis \<and> regionNum (defaultNodeStore dis) \<le> 9 \<and> partitionMaxNum (defaultNodeStore dis) \<le> 40"

lemma processNodeEvent_rv_mono:
  assumes "processNodeEvent e (ns, h) = Inr (b, ns', h')"
  shows "rv_of ns loc \<le> rv_of ns' loc"
proof (cases b)
  case False
  then have "ns' = ns"
    using assms by (auto simp: processNodeEvent_def Let_def split: if_splits sum.splits)
  then show ?thesis by simp
next
  case True
  obtain k i where "update_rv e (ring_store e k i ns) = Inr ns'"
    using processNodeEvent_Inr [of e ns h ns' h'] assms True by (metis (full_types))
  then show ?thesis by (auto simp: update_rv_of)
qed

lemma process_all_rv_mono:
  "process_all es (ns, h) = Inr (ns', h') \<Longrightarrow> rv_of ns loc \<le> rv_of ns' loc"
proof (induction es arbitrary: ns h)
  case (Cons e es)
  then obtain b ns1 h1 where p: "processNodeEvent e (ns, h) = Inr (b, ns1, h1)"
    "process_all es (ns1, h1) = Inr (ns', h')"
    by (auto split: sum.splits)
  show ?case using processNodeEvent_rv_mono [OF p(1)] Cons.IH [OF p(2)] by (rule order_trans)
qed simp

lemma ProcessEvents_fun_result:
  assumes ok: "dis_ok dis" and run: "ProcessEvents_fun si enabled now events dis = Inr ((b, crv), dis')"
  shows "b" "dis_ok dis'" "crv = GetCurrentResourceVersions (defaultNodeStore dis')"
    "current_rv dis l \<le> current_rv dis' l"
proof -
  have inv: "dis_inv dis" using ok by (simp add: dis_ok_def)
  let ?es = "non_nil (events_to_process enabled now 0 events)"
  obtain ns' h' where pa: "process_all ?es (defaultNodeStore dis, dis_queues dis) = Inr (ns', h')"
    using run ProcessEvents_start_Inl [of enabled now events dis _ si]
    by (cases "process_all ?es (defaultNodeStore dis, dis_queues dis)") (auto simp: ProcessEvents_fun_def)
  obtain w where S: "ProcessEvents_start si enabled now events dis =
       Inr ((True, GetCurrentResourceVersions ns'),
            dis\<lparr>defaultNodeStore := ns', dis_queues := h', dis_store := pw_store w\<rparr>, w)"
    using ProcessEvents_start_ok [OF inv pa] by metis
  obtain s where R: "(b, crv) = (True, GetCurrentResourceVersions ns')"
    "dis' = dis\<lparr>defaultNodeStore := ns', dis_queues := h', dis_store := s\<rparr>"
    using run S by (cases "run_goroutines (attempts_left w) si w") (auto simp: ProcessEvents_fun_def)
  show b using R(1) by simp
  show "crv = GetCurrentResourceVersions (defaultNodeStore dis')" using R by simp
  have "NodeStore_inv (defaultNodeStore dis) (dis_queues dis)" using inv by (simp add: dis_inv_def)
  from process_all_inv [OF pa this] show "dis_ok dis'"
    using ok ProcessEvents_fun_sound(2) [OF inv run] by (simp add: dis_ok_def R(2) same_meta_def)
  show "current_rv dis l \<le> current_rv dis' l"
    using process_all_rv_mono [OF pa] by (simp add: current_rv_def R(2))
qed

lemma dis_ok_rvs:
  "dis_ok dis \<Longrightarrow> gm_get (GetCurrentResourceVersions (defaultNodeStore dis)) l =
    (if current_rv dis l > 0 then Some (current_rv dis l) else None)"
  by (simp add: dis_ok_def dis_inv_def NodeStore_inv_def GetCurrentResourceVersions_get current_rv_def Let_def)

lemma fold_keeps_wf: "gm_wf m \<Longrightarrow> (\<And>x m. gm_wf m \<Longrightarrow> gm_wf (f x m)) \<Longrightarrow> gm_wf (fold f xs m)"
  by (induction xs arbitrary: m) simp_all

lemma GetCurrentResourceVersions_wf: "gm_wf (GetCurrentResourceVersions ns)"
  unfolding GetCurrentResourceVersions_def by (rule fold_keeps_wf) (auto split: prod.splits)

lemma dis_ok_register:
  assumes "dis_ok dis" "range_order ordS" "range_order ordN" "ClientId client \<noteq> ''''"
    and reg: "RegisterClient si ordS ordN client dis = (err, dis')"
  shows "dis_ok dis'" "current_rv dis' l = current_rv dis l"
proof -
  have r: "regionNum (defaultNodeStore dis') = regionNum (defaultNodeStore dis)"
    "partitionMaxNum (defaultNodeStore dis') = partitionMaxNum (defaultNodeStore dis)"
    "currentRVs (defaultNodeStore dis') = currentRVs (defaultNodeStore dis)"
    using reg
    by (auto simp: RegisterClient_def Let_def split: sum.splits prod.splits option.splits elim!: allocate_Inr)
  then show "dis_ok dis'"
    using assms RegisterClient_keeps_inv [OF _ assms(2-4) reg] by (simp add: dis_ok_def)
  show "current_rv dis' l = current_rv dis l" by (simp only: current_rv_def rv_of_def rv_index_def r)
qed

lemma dis_ok_watch:
  assumes "dis_ok dis" "dis_Watch ordT ordR ordQ c rvs wc sc dis = Inr (events, dis')"
  shows "dis_ok dis'" "current_rv dis' l = current_rv dis l"
proof -
  have s: "defaultNodeStore dis' = defaultNodeStore dis" by (rule dis_Watch_Inr [OF assms(2)]) simp
  then show "dis_ok dis'" using assms Watch_keeps_inv [OF _ assms(2)] by (simp add: dis_ok_def)
  show "current_rv dis' l = current_rv dis l" by (simp add: current_rv_def s)
qed

text \<open>
  The distributor keeps the contract whatever order \<open>range\<close> chooses for each of its maps; the
  interpretation takes the orders of the association lists.
\<close>

lemma distributor_event_processor:
  assumes ord: "range_order ordS" "range_order ordN"
  shows "event_processor (distributor (si :: 's StoreInterface) ordS ordN ordT ordR ordQ enabled now) dis_ok current_rv"
proof
  let ?di = "distributor (si :: 's StoreInterface) ordS ordN ordT ordR ordQ enabled now"
  fix d d' :: "'s Distributor"
  assume ok: "dis_ok d"
  show "dis_ok d'" if "ClientId client \<noteq> ''''" "di_RegisterClient ?di client d = (err, d')" for client err
    using dis_ok_register(1) [OF ok ord] that by (simp add: distributor_def)
  show "current_rv d' l = current_rv d l"
    if "ClientId client \<noteq> ''''" "di_RegisterClient ?di client d = (err, d')" for client err l
    using dis_ok_register(2) [OF ok ord] that by (simp add: distributor_def)
  show "dis_ok d'" if "di_Watch ?di c rvs wc sc d = Inr (events, d')" for c rvs wc sc events
    using dis_ok_watch(1) [OF ok] that by (simp add: distributor_def)
  show "current_rv d' l = current_rv d l" if "di_Watch ?di c rvs wc sc d = Inr (events, d')" for c rvs wc sc events l
    using dis_ok_watch(2) [OF ok] that by (simp add: distributor_def)
  fix es b crv l
  assume "di_ProcessEvents ?di es d = Inr ((b, crv), d')"
  then have "ProcessEvents_fun si enabled now es d = Inr ((b, crv), d')" by (simp add: distributor_def)
  note R = ProcessEvents_fun_result [OF ok this]
  show "dis_ok d'" by (rule R(2))
  show b by (rule R(1))
  show "gm_get crv l = (if current_rv d' l > 0 then Some (current_rv d' l) else None)"
    unfolding R(3) by (rule dis_ok_rvs [OF R(2)])
  show "gm_wf crv" unfolding R(3) by (rule GetCurrentResourceVersions_wf)
  show "current_rv d l \<le> current_rv d' l" by (rule R(4))
qed

interpretation dp: event_processor
  "distributor si (\<lambda>xs. xs) (\<lambda>xs. xs) (\<lambda>xs. xs) (\<lambda>xs. xs) (\<lambda>xs. xs) enabled now" dis_ok current_rv
  for si :: "'s StoreInterface" and enabled now
  by (rule distributor_event_processor) (rule range_order_id)+

end
