(* ===== verification/GRS_Watch.thy ===== *)
theory GRS_Watch
  imports GRS_EventQueue
begin

text \<open>
  The concurrent part of \<open>eventqueue.go\<close>: after \<open>Watch\<close> has made the channel of a queue, its
  goroutine sends the initial events to the client and then forwards what it receives from the
  channel, while every \<open>EnqueueEvent\<close> starts a goroutine of its own that sends one event on the
  channel. The step relation is their interleaving. Time stamps, which change only the
  checkpoints of an event, are left out. The channel to the client is buffered and drained by the
  API server: a send to it is one step.
\<close>

text \<open>Where the watch goroutine is. \<open>Forwarding e\<close>: received from the channel, not yet sent on.\<close>

datatype watch_phase =
    SendingInit "NodeEvent list"
  | Selecting
  | Forwarding NodeEvent
  | WatchStopped

text \<open>
  \<open>ws_started\<close> are the enqueue goroutines that have not yet read \<open>eq.watchChan\<close> (the field
  \<open>spawnedSends\<close> of the queue holds all ever started, in order), \<open>ws_sending\<close> those blocked in a
  send on a channel, \<open>ws_stuck\<close> those that read nil and block forever. \<open>ws_delivered\<close> is what the
  client's channel has received. \<open>ws_log\<close> is a ghost: the events enqueued while a channel was set.
\<close>

record WatchState =
  ws_queue :: NodeEventQueue
  ws_chan :: nat
  ws_phase :: watch_phase
  ws_stopRequested :: bool
  ws_started :: "NodeEvent list"
  ws_sending :: "(nat \<times> NodeEvent) list"
  ws_stuck :: "NodeEvent list"
  ws_delivered :: "NodeEvent list"
  ws_log :: "NodeEvent list"

definition watch_start :: "NodeEvent list \<Rightarrow> NodeEventQueue \<Rightarrow> nat \<Rightarrow> WatchState" where
  "watch_start events eq ch =
     \<lparr>ws_queue = eq, ws_chan = ch, ws_phase = SendingInit events, ws_stopRequested = False,
      ws_started = [], ws_sending = [], ws_stuck = [], ws_delivered = [], ws_log = []\<rparr>"

definition remove_nth :: "nat \<Rightarrow> 'a list \<Rightarrow> 'a list" where
  "remove_nth i xs = take i xs @ drop (Suc i) xs"

inductive watch_step :: "WatchState \<Rightarrow> WatchState \<Rightarrow> bool" where
  enqueue:
    "watch_step s (s\<lparr>ws_queue := EnqueueEvent e (ws_queue s),
       ws_started := (if watchChan (ws_queue s) = None then ws_started s else ws_started s @ [GetNodeEvent e]),
       ws_log := (if watchChan (ws_queue s) = None then ws_log s else ws_log s @ [GetNodeEvent e])\<rparr>)"
| read_chan:
    "i < length (ws_started s) \<Longrightarrow> watchChan (ws_queue s) = Some ch \<Longrightarrow>
     watch_step s (s\<lparr>ws_started := remove_nth i (ws_started s),
       ws_sending := ws_sending s @ [(ch, ws_started s ! i)]\<rparr>)"
| read_nil:
    "i < length (ws_started s) \<Longrightarrow> watchChan (ws_queue s) = None \<Longrightarrow>
     watch_step s (s\<lparr>ws_started := remove_nth i (ws_started s), ws_stuck := ws_stuck s @ [ws_started s ! i]\<rparr>)"
| send_init:
    "ws_phase s = SendingInit (e # es) \<Longrightarrow>
     watch_step s (s\<lparr>ws_phase := SendingInit es, ws_delivered := ws_delivered s @ [e]\<rparr>)"
| init_done:
    "ws_phase s = SendingInit [] \<Longrightarrow> watch_step s (s\<lparr>ws_phase := Selecting\<rparr>)"
| receive:
    "ws_phase s = Selecting \<Longrightarrow> i < length (ws_sending s) \<Longrightarrow> ws_sending s ! i = (ws_chan s, e) \<Longrightarrow>
     watch_step s (s\<lparr>ws_phase := Forwarding e, ws_sending := remove_nth i (ws_sending s)\<rparr>)"
| forward:
    "ws_phase s = Forwarding e \<Longrightarrow>
     watch_step s (s\<lparr>ws_phase := Selecting, ws_delivered := ws_delivered s @ [e]\<rparr>)"
| request_stop:
    "watch_step s (s\<lparr>ws_stopRequested := True\<rparr>)"
| stop:
    "ws_phase s = Selecting \<Longrightarrow> ws_stopRequested s \<Longrightarrow>
     watch_step s (s\<lparr>ws_phase := WatchStopped, ws_queue := (ws_queue s)\<lparr>watchChan := None\<rparr>\<rparr>)"

inductive_cases watch_stepE: "watch_step s s'"

abbreviation watch_reach :: "WatchState \<Rightarrow> WatchState \<Rightarrow> bool" where
  "watch_reach \<equiv> watch_step\<^sup>*\<^sup>*"

section \<open>No event is lost, invented or delivered twice\<close>

fun in_phase :: "watch_phase \<Rightarrow> NodeEvent list" where
  "in_phase (SendingInit es) = es"
| "in_phase Selecting = []"
| "in_phase (Forwarding e) = [e]"
| "in_phase WatchStopped = []"

definition in_flight :: "WatchState \<Rightarrow> NodeEvent multiset" where
  "in_flight s = mset (in_phase (ws_phase s)) + mset (ws_started s) + mset (map snd (ws_sending s)) + mset (ws_stuck s)"

lemma mset_remove_nth: "i < length xs \<Longrightarrow> add_mset (xs ! i) (mset (remove_nth i xs)) = mset xs"
  by (simp add: remove_nth_def) (metis id_take_nth_drop mset.simps(2) mset_append union_mset_add_mset_right)

lemma mset_remove_nth_snd:
  "i < length xs \<Longrightarrow> add_mset (snd (xs ! i)) (mset (map snd (remove_nth i xs))) = mset (map snd xs)"
  using mset_remove_nth [of i "map snd xs"] by (simp add: remove_nth_def take_map drop_map)

definition conserved :: "NodeEvent list \<Rightarrow> WatchState \<Rightarrow> bool" where
  "conserved init s \<longleftrightarrow> mset (ws_delivered s) + in_flight s = mset init + mset (ws_log s)"

lemma conserved_step:
  assumes "watch_step s s'" "conserved init s"
  shows "conserved init s'"
  using assms(1)
proof cases
  case (read_chan i ch)
  then show ?thesis
    using assms(2) mset_remove_nth [of i "ws_started s", symmetric] by (simp add: conserved_def in_flight_def)
next
  case (read_nil i)
  then show ?thesis
    using assms(2) mset_remove_nth [of i "ws_started s", symmetric] by (simp add: conserved_def in_flight_def)
next
  case (receive i e)
  then show ?thesis
    using assms(2) mset_remove_nth_snd [of i "ws_sending s", symmetric] by (simp add: conserved_def in_flight_def)
qed (use assms(2) in \<open>simp_all add: conserved_def in_flight_def\<close>)

lemma watch_conserved:
  assumes "watch_reach (watch_start init eq ch) s"
  shows "mset (ws_delivered s) + in_flight s = mset init + mset (ws_log s)"
proof -
  have "conserved init s"
    using assms
  proof induction
    case base
    show ?case by (simp add: conserved_def in_flight_def watch_start_def)
  next
    case (step s s')
    then show ?case using conserved_step by blast
  qed
  then show ?thesis by (simp add: conserved_def)
qed

text \<open>The initial events come first and in order.\<close>

definition init_first :: "NodeEvent list \<Rightarrow> WatchState \<Rightarrow> bool" where
  "init_first init s \<longleftrightarrow>
     (case ws_phase s of
        SendingInit es \<Rightarrow> ws_delivered s @ es = init
      | _ \<Rightarrow> (\<exists>later. ws_delivered s = init @ later))"

lemma init_first_step:
  assumes "watch_step s s'" "init_first init s"
  shows "init_first init s'"
  using assms by cases (auto simp: init_first_def split: watch_phase.splits)

lemma watch_init_first:
  assumes "watch_reach (watch_start init eq ch) s"
  shows "init_first init s"
  using assms
proof induction
  case base
  show ?case by (simp add: init_first_def watch_start_def)
next
  case (step s s')
  then show ?case using init_first_step by blast
qed

text \<open>The queue itself is not disturbed: its invariant holds in every reachable state.\<close>

lemma watch_queue_wf_step:
  assumes "watch_step s s'" "NodeEventQueue_wf (ws_queue s)"
  shows "NodeEventQueue_wf (ws_queue s')"
  using assms by cases (simp_all add: NodeEventQueue_wf_def [of "_\<lparr>watchChan := _\<rparr>"] flip: NodeEventQueue_wf_def)

text \<open>
  Two goroutines started in one order may send in the other: the client can receive the later
  event first.
\<close>

lemma watch_may_reorder:
  assumes eq: "watchChan eq = Some ch" and e: "e1 = GetNodeEvent m1" "e2 = GetNodeEvent m2"
  shows "\<exists>s. watch_reach (watch_start [] eq ch) s \<and> ws_log s = [e1, e2] \<and> ws_delivered s = [e2, e1]"
proof -
  let ?s0 = "watch_start [] eq ch"
  let ?s1 = "?s0\<lparr>ws_phase := Selecting\<rparr>"
  let ?s2 = "?s1\<lparr>ws_queue := EnqueueEvent m1 eq, ws_started := [e1], ws_log := [e1]\<rparr>"
  let ?q = "EnqueueEvent m2 (EnqueueEvent m1 eq)"
  let ?s3 = "?s2\<lparr>ws_queue := ?q, ws_started := [e1, e2], ws_log := [e1, e2]\<rparr>"
  let ?s4 = "?s3\<lparr>ws_started := [e1], ws_sending := [(ch, e2)]\<rparr>"
  let ?s5 = "?s4\<lparr>ws_phase := Forwarding e2, ws_sending := []\<rparr>"
  let ?s6 = "?s5\<lparr>ws_phase := Selecting, ws_delivered := [e2]\<rparr>"
  let ?s7 = "?s6\<lparr>ws_started := [], ws_sending := [(ch, e1)]\<rparr>"
  let ?s8 = "?s7\<lparr>ws_phase := Forwarding e1, ws_sending := []\<rparr>"
  let ?s9 = "?s8\<lparr>ws_phase := Selecting, ws_delivered := [e2, e1]\<rparr>"
  have "watch_step ?s0 ?s1"
    by (rule watch_step.init_done) (simp add: watch_start_def)
  moreover have "watch_step ?s1 ?s2"
    using watch_step.enqueue [of ?s1 m1] eq e by (simp add: watch_start_def)
  moreover have "watch_step ?s2 ?s3"
    using watch_step.enqueue [of ?s2 m2] eq e by (simp add: watch_start_def)
  moreover have "watch_step ?s3 ?s4"
    using watch_step.read_chan [of 1 ?s3 ch] eq by (simp add: watch_start_def remove_nth_def)
  moreover have "watch_step ?s4 ?s5"
    using watch_step.receive [of ?s4 0 e2] by (simp add: watch_start_def remove_nth_def)
  moreover have "watch_step ?s5 ?s6"
    using watch_step.forward [of ?s5 e2] by (simp add: watch_start_def)
  moreover have "watch_step ?s6 ?s7"
    using watch_step.read_chan [of 0 ?s6 ch] eq by (simp add: watch_start_def remove_nth_def)
  moreover have "watch_step ?s7 ?s8"
    using watch_step.receive [of ?s7 0 e1] by (simp add: watch_start_def remove_nth_def)
  moreover have "watch_step ?s8 ?s9"
    using watch_step.forward [of ?s8 e1] by (simp add: watch_start_def)
  ultimately have "watch_reach ?s0 ?s9" by (meson converse_rtranclp_into_rtranclp rtranclp.rtrancl_refl)
  then show ?thesis by (intro exI [of _ ?s9]) simp
qed

end
