(* ===== verification/GRS_Aggregator.thy ===== *)
theory GRS_Aggregator
  imports GRS_Interface
begin

text \<open>
  \<open>aggregrator/aggregator.go\<close>: one goroutine per resource region manager pulls batches of node
  events, hands them to the distributor and posts the resource versions it returns. The network is
  an argument: what each pull gets back. The model has one turn of the goroutine's loop, and the
  loop over a sequence of answers; the sleep between turns and the log are left out.
\<close>

section \<open>Requests and answers\<close>

record PullDataFromRRM =
  BatchLength :: nat
  DefaultCRV :: nat
  CRV :: TransitResourceVersionMap

record RrmRequest =
  hr_method :: string
  hr_path :: string
  hr_body :: PullDataFromRRM

record ResponseFromRRM =
  RegionNodeEvents :: "NodeEvent option list list"
  RvMap :: TransitResourceVersionMap
  rrm_Length :: nat

text \<open>The outcome of \<open>Do\<close>, \<open>ReadAll\<close> and \<open>Unmarshal\<close>.\<close>

datatype pull_outcome = DoFailed | ReadFailed | UnmarshalFailed | Pulled ResponseFromRRM

definition DefaultBatchLength :: nat where
  "DefaultBatchLength = 20000"

definition httpPrefix :: string where
  "httpPrefix = ''http://''"

record ClientOfRRM =
  BaseURL :: string

definition createClient :: "string \<Rightarrow> ClientOfRRM" where
  "createClient url = \<lparr>BaseURL = url\<rparr>"

definition pull_request ::
  "transit_order \<Rightarrow> ClientOfRRM \<Rightarrow> nat \<Rightarrow> TransitResourceVersionMap \<Rightarrow> RrmRequest" where
  "pull_request ord c batchLength crv =
     (let path = (if gm_len crv = 0 then httpPrefix @ BaseURL c @ ''/resources/initpull''
                  else httpPrefix @ BaseURL c @ ''/resources/subsequentpull'')
      in \<lparr>hr_method = ''GET'', hr_path = path,
          hr_body = \<lparr>BatchLength = batchLength, DefaultCRV = 0, CRV = ResourceVersionMap_Copy ord crv\<rparr>\<rparr>)"

text \<open>With measurement enabled, every event is stamped; \<open>now i j\<close> is the time for event \<open>j\<close> of row \<open>i\<close>.\<close>

definition stamp_rows ::
  "bool \<Rightarrow> (nat \<Rightarrow> nat \<Rightarrow> go_time) \<Rightarrow> NodeEvent option list list \<Rightarrow> NodeEvent option list list" where
  "stamp_rows enabled now rows =
     (if enabled
      then map (\<lambda>(i, row). map (\<lambda>(j, e). map_option (SetCheckpoint enabled (now i j) Aggregator_Received) e)
                               (enumerate 0 row)) (enumerate 0 rows)
      else rows)"

definition initPullOrSubsequentPull ::
  "transit_order \<Rightarrow> bool \<Rightarrow> (nat \<Rightarrow> nat \<Rightarrow> go_time) \<Rightarrow> (RrmRequest \<Rightarrow> pull_outcome) \<Rightarrow>
     ClientOfRRM \<Rightarrow> nat \<Rightarrow> TransitResourceVersionMap \<Rightarrow> NodeEvent option list list \<times> nat" where
  "initPullOrSubsequentPull ord enabled now net c batchLength crv =
     (case net (pull_request ord c batchLength crv) of
        DoFailed \<Rightarrow> ([], 0)
      | ReadFailed \<Rightarrow> ([], 0)
      | UnmarshalFailed \<Rightarrow> ([], 0)
      | Pulled r \<Rightarrow> (stamp_rows enabled now (RegionNodeEvents r), rrm_Length r))"

definition postCRV :: "transit_order \<Rightarrow> ClientOfRRM \<Rightarrow> TransitResourceVersionMap \<Rightarrow> RrmRequest" where
  "postCRV ord c crv =
     \<lparr>hr_method = ''POST'', hr_path = httpPrefix @ BaseURL c @ ''/resources/crv'',
      hr_body = \<lparr>BatchLength = 0, DefaultCRV = 0, CRV = ResourceVersionMap_Copy ord crv\<rparr>\<rparr>"

section \<open>The loop of \<open>Run\<close>\<close>

text \<open>
  One turn: the requests sent, the resource versions for the next turn, the distributor. \<open>length\<close>
  is what the region manager reports, not the number of events.
\<close>

definition aggregator_turn ::
  "'d DistributorInterface \<Rightarrow> transit_order \<Rightarrow> bool \<Rightarrow> (nat \<Rightarrow> nat \<Rightarrow> go_time) \<Rightarrow> (RrmRequest \<Rightarrow> pull_outcome) \<Rightarrow>
     ClientOfRRM \<Rightarrow> TransitResourceVersionMap \<times> 'd \<Rightarrow>
     (RrmRequest list \<times> TransitResourceVersionMap \<times> 'd) result" where
  "aggregator_turn di ord enabled now net c = (\<lambda>(crv, d).
     let req = pull_request ord c DefaultBatchLength crv;
         (regionNodeEvents, len) = initPullOrSubsequentPull ord enabled now net c DefaultBatchLength crv
     in if len \<noteq> 0 then
          (case di_ProcessEvents di (concat regionNodeEvents) d of
             Inl err \<Rightarrow> Inl err
           | Inr ((eventProcess, crv'), d') \<Rightarrow>
               Inr (if eventProcess then [req, postCRV ord c crv'] else [req], crv', d'))
        else Inr ([req], crv, d))"

text \<open>The goroutine over the answers of the network to its turns; it starts with the nil map.\<close>

fun aggregator_run ::
  "'d DistributorInterface \<Rightarrow> transit_order \<Rightarrow> bool \<Rightarrow> (nat \<Rightarrow> nat \<Rightarrow> go_time) \<Rightarrow> ClientOfRRM \<Rightarrow>
     (RrmRequest \<Rightarrow> pull_outcome) list \<Rightarrow> TransitResourceVersionMap \<times> 'd \<Rightarrow>
     (RrmRequest list \<times> TransitResourceVersionMap \<times> 'd) result" where
  "aggregator_run di ord enabled now c [] st = Inr ([], st)"
| "aggregator_run di ord enabled now c (net # nets) st =
     (case aggregator_turn di ord enabled now net c st of
        Inl err \<Rightarrow> Inl err
      | Inr (reqs, st') \<Rightarrow>
          (case aggregator_run di ord enabled now c nets st' of
             Inl err \<Rightarrow> Inl err
           | Inr (reqs', st'') \<Rightarrow> Inr (reqs @ reqs', st'')))"

section \<open>The aggregator as a client of the interface\<close>

lemma map_snd_of_enumerate: "map (\<lambda>x. f (snd x)) (enumerate n xs) = map f xs"
  by (induction xs arbitrary: n) simp_all

lemma stamp_rows_nodes:
  "map (map (map_option ne_Node)) (stamp_rows enabled now rows) = map (map (map_option ne_Node)) rows"
  by (simp add: stamp_rows_def comp_def case_prod_beta option.map_comp map_snd_of_enumerate
      map_snd_of_enumerate [of "\<lambda>r. map (map_option ne_Node) r"])

text \<open>A map is what the distributor knows: exactly its current versions.\<close>

definition crv_of :: "('d \<Rightarrow> RvLocation \<Rightarrow> uint64) \<Rightarrow> 'd \<Rightarrow> TransitResourceVersionMap \<Rightarrow> bool" where
  "crv_of current d crv \<longleftrightarrow> (\<forall>l. gm_get crv l = (if current d l > 0 then Some (current d l) else None))"

context event_processor
begin

lemma turn_cases:
  assumes "aggregator_turn di ord enabled now net c (crv, d) = Inr (reqs, crv', d')" "inv d"
  shows "inv d'" "current d l \<le> current d' l"
    "(reqs = [pull_request ord c DefaultBatchLength crv] \<and> crv' = crv \<and> d' = d) \<or>
     (reqs = [pull_request ord c DefaultBatchLength crv, postCRV ord c crv'] \<and> crv_of current d' crv')"
proof -
  obtain rows len where p: "initPullOrSubsequentPull ord enabled now net c DefaultBatchLength crv = (rows, len)"
    by (cases "initPullOrSubsequentPull ord enabled now net c DefaultBatchLength crv")
  have "inv d' \<and> current d l \<le> current d' l \<and>
    ((reqs = [pull_request ord c DefaultBatchLength crv] \<and> crv' = crv \<and> d' = d) \<or>
     (reqs = [pull_request ord c DefaultBatchLength crv, postCRV ord c crv'] \<and> crv_of current d' crv'))"
  proof (cases "len = 0")
    case True
    then show ?thesis using assms p by (auto simp: aggregator_turn_def)
  next
    case False
    obtain b crv1 d1 where P: "di_ProcessEvents di (concat rows) d = Inr ((b, crv1), d1)"
    proof (cases "di_ProcessEvents di (concat rows) d")
      case (Inl err)
      with assms(1) p False show thesis by (simp add: aggregator_turn_def)
    next
      case (Inr r)
      then show thesis by (intro that [of "fst (fst r)" "snd (fst r)" "snd r"]) simp
    qed
    have b: b using process_true [OF assms(2) P] .
    have eq: "crv1 = crv'" "d1 = d'" "reqs = [pull_request ord c DefaultBatchLength crv, postCRV ord c crv']"
      using assms(1) p False P b by (auto simp: aggregator_turn_def)
    have "crv_of current d' crv'"
      unfolding crv_of_def using process_crv [OF assms(2) P] by (simp add: eq(1,2))
    then show ?thesis
      using process_inv [OF assms(2) P] process_mono [OF assms(2) P] by (simp add: eq)
  qed
  then show "inv d'" "current d l \<le> current d' l"
    "(reqs = [pull_request ord c DefaultBatchLength crv] \<and> crv' = crv \<and> d' = d) \<or>
     (reqs = [pull_request ord c DefaultBatchLength crv, postCRV ord c crv'] \<and> crv_of current d' crv')"
    by blast+
qed

lemma run_inv:
  "aggregator_run di ord enabled now c nets (crv, d) = Inr (reqs, crv', d') \<Longrightarrow> inv d \<Longrightarrow>
    inv d' \<and> current d l \<le> current d' l"
proof (induction nets arbitrary: crv d reqs)
  case (Cons net nets)
  then obtain reqs1 crv1 d1 reqs2 where t: "aggregator_turn di ord enabled now net c (crv, d) = Inr (reqs1, crv1, d1)"
    "aggregator_run di ord enabled now c nets (crv1, d1) = Inr (reqs2, crv', d')"
    by (auto split: sum.splits)
  note T = turn_cases [OF t(1) Cons.prems(2)]
  show ?case using Cons.IH [OF t(2) T(1)] T(2) by (meson order_trans)
qed simp

lemma run_crv:
  "aggregator_run di ord enabled now c nets (crv, d) = Inr (reqs, crv', d') \<Longrightarrow> inv d \<Longrightarrow>
    crv = gm_empty \<or> crv_of current d crv \<Longrightarrow> crv' = gm_empty \<or> crv_of current d' crv'"
proof (induction nets arbitrary: crv d reqs)
  case (Cons net nets)
  then obtain reqs1 crv1 d1 reqs2 where t: "aggregator_turn di ord enabled now net c (crv, d) = Inr (reqs1, crv1, d1)"
    "aggregator_run di ord enabled now c nets (crv1, d1) = Inr (reqs2, crv', d')"
    by (auto split: sum.splits)
  note T = turn_cases [OF t(1) Cons.prems(2)]
  have "crv1 = gm_empty \<or> crv_of current d1 crv1" using T(3) Cons.prems(3) by auto
  from Cons.IH [OF t(2) T(1) this] show ?case .
qed simp

end

section \<open>One goroutine per region manager\<close>

text \<open>
  \<open>Run\<close> starts one goroutine per URL; they share the distributor with each other and with the API,
  whose registrations and watches are steps as well. A goroutine pulls, hands the events over and
  posts, and other goroutines may run between these actions; a call of the distributor is one step.
  \<open>pl_last\<close> is the distributor as the goroutine's last batch left it; nothing in the code reads it.
\<close>

datatype pull_phase = Pulling | Processing "NodeEvent option list" | Posting

record 'd PullLoop =
  pl_client :: ClientOfRRM
  pl_phase :: pull_phase
  pl_crv :: TransitResourceVersionMap
  pl_last :: "'d option"

record 'd Aggregator =
  ag_dist :: 'd
  ag_loops :: "'d PullLoop list"
  ag_sent :: "RrmRequest list"

definition start_pull_loop :: "string \<Rightarrow> 'd PullLoop" where
  "start_pull_loop url = \<lparr>pl_client = createClient url, pl_phase = Pulling, pl_crv = gm_empty, pl_last = None\<rparr>"

definition NewAggregator :: "string list \<Rightarrow> 'd \<Rightarrow> 'd Aggregator" where
  "NewAggregator urls d = \<lparr>ag_dist = d, ag_loops = map start_pull_loop urls, ag_sent = []\<rparr>"

definition pull_action ::
  "transit_order \<Rightarrow> bool \<Rightarrow> (nat \<Rightarrow> nat \<Rightarrow> go_time) \<Rightarrow> (RrmRequest \<Rightarrow> pull_outcome) \<Rightarrow> 'd PullLoop \<Rightarrow>
     RrmRequest list \<times> 'd PullLoop" where
  "pull_action ord enabled now net p =
     (let req = pull_request ord (pl_client p) DefaultBatchLength (pl_crv p);
          (rows, len) = initPullOrSubsequentPull ord enabled now net (pl_client p) DefaultBatchLength (pl_crv p)
      in ([req], p\<lparr>pl_phase := (if len \<noteq> 0 then Processing (concat rows) else Pulling)\<rparr>))"

definition process_action ::
  "'d DistributorInterface \<Rightarrow> NodeEvent option list \<Rightarrow> 'd PullLoop \<times> 'd \<Rightarrow> ('d PullLoop \<times> 'd) result" where
  "process_action di es = (\<lambda>(p, d).
     case di_ProcessEvents di es d of
       Inl err \<Rightarrow> Inl err
     | Inr ((ok, crv), d') \<Rightarrow>
         Inr (p\<lparr>pl_phase := (if ok then Posting else Pulling), pl_crv := crv, pl_last := Some d'\<rparr>, d'))"

definition post_action :: "transit_order \<Rightarrow> 'd PullLoop \<Rightarrow> RrmRequest list \<times> 'd PullLoop" where
  "post_action ord p = ([postCRV ord (pl_client p) (pl_crv p)], p\<lparr>pl_phase := Pulling\<rparr>)"

inductive agg_step ::
  "'d DistributorInterface \<Rightarrow> transit_order \<Rightarrow> bool \<Rightarrow> 'd Aggregator \<Rightarrow> 'd Aggregator \<Rightarrow> bool"
  for di ord enabled where
  pull:
    "i < length (ag_loops a) \<Longrightarrow> pl_phase (ag_loops a ! i) = Pulling \<Longrightarrow>
     pull_action ord enabled now net (ag_loops a ! i) = (reqs, p') \<Longrightarrow>
     agg_step di ord enabled a (a\<lparr>ag_loops := (ag_loops a)[i := p'], ag_sent := ag_sent a @ reqs\<rparr>)"
| process:
    "i < length (ag_loops a) \<Longrightarrow> pl_phase (ag_loops a ! i) = Processing es \<Longrightarrow>
     process_action di es (ag_loops a ! i, ag_dist a) = Inr (p', d') \<Longrightarrow>
     agg_step di ord enabled a (a\<lparr>ag_dist := d', ag_loops := (ag_loops a)[i := p']\<rparr>)"
| post:
    "i < length (ag_loops a) \<Longrightarrow> pl_phase (ag_loops a ! i) = Posting \<Longrightarrow>
     post_action ord (ag_loops a ! i) = (reqs, p') \<Longrightarrow>
     agg_step di ord enabled a (a\<lparr>ag_loops := (ag_loops a)[i := p'], ag_sent := ag_sent a @ reqs\<rparr>)"
| register:
    "ClientId client \<noteq> '''' \<Longrightarrow> di_RegisterClient di client (ag_dist a) = (err, d') \<Longrightarrow>
     agg_step di ord enabled a (a\<lparr>ag_dist := d'\<rparr>)"
| watch:
    "di_Watch di c rvs wc sc (ag_dist a) = Inr (events, d') \<Longrightarrow>
     agg_step di ord enabled a (a\<lparr>ag_dist := d'\<rparr>)"

abbreviation agg_reach ::
  "'d DistributorInterface \<Rightarrow> transit_order \<Rightarrow> bool \<Rightarrow> 'd Aggregator \<Rightarrow> 'd Aggregator \<Rightarrow> bool" where
  "agg_reach di ord enabled \<equiv> (agg_step di ord enabled)\<^sup>*\<^sup>*"

text \<open>A turn of one goroutine that nothing interrupts is a run of its actions.\<close>

lemma turn_is_steps:
  assumes t: "aggregator_turn di ord enabled now net (pl_client p) (pl_crv p, ag_dist a) = Inr (reqs, crv', d')"
    and p: "i < length (ag_loops a)" "ag_loops a ! i = p" "pl_phase p = Pulling"
  shows "\<exists>last. agg_reach di ord enabled a
    (a\<lparr>ag_dist := d', ag_loops := (ag_loops a)[i := p\<lparr>pl_crv := crv', pl_last := last\<rparr>], ag_sent := ag_sent a @ reqs\<rparr>)"
proof -
  obtain rows len where r: "initPullOrSubsequentPull ord enabled now net (pl_client p) DefaultBatchLength (pl_crv p) = (rows, len)"
    by (cases "initPullOrSubsequentPull ord enabled now net (pl_client p) DefaultBatchLength (pl_crv p)")
  let ?req = "pull_request ord (pl_client p) DefaultBatchLength (pl_crv p)"
  let ?p1 = "p\<lparr>pl_phase := (if len \<noteq> 0 then Processing (concat rows) else Pulling)\<rparr>"
  let ?a1 = "a\<lparr>ag_loops := (ag_loops a)[i := ?p1], ag_sent := ag_sent a @ [?req]\<rparr>"
  have s1: "agg_step di ord enabled a ?a1"
    by (rule agg_step.pull [where now = now and net = net]) (use p r in \<open>simp_all add: pull_action_def\<close>)
  show ?thesis
  proof (cases "len = 0")
    case True
    have "reqs = [?req]" "crv' = pl_crv p" "d' = ag_dist a"
      using t unfolding aggregator_turn_def by (auto simp: r True Let_def)
    moreover have "?p1 = p\<lparr>pl_crv := pl_crv p, pl_last := pl_last p\<rparr>" using True p(3) by simp
    ultimately show ?thesis using s1 by (intro exI [of _ "pl_last p"]) auto
  next
    case False
    obtain b crv1 d1 where P: "di_ProcessEvents di (concat rows) (ag_dist a) = Inr ((b, crv1), d1)"
      using t r False
      by (cases "di_ProcessEvents di (concat rows) (ag_dist a)") (auto simp: aggregator_turn_def Let_def)
    have e: "crv1 = crv'" "d1 = d'" "reqs = (if b then [?req, postCRV ord (pl_client p) crv'] else [?req])"
      using t r False P by (auto simp: aggregator_turn_def Let_def)
    let ?p2 = "p\<lparr>pl_phase := (if b then Posting else Pulling), pl_crv := crv', pl_last := Some d'\<rparr>"
    let ?a2 = "?a1\<lparr>ag_dist := d', ag_loops := (ag_loops ?a1)[i := ?p2]\<rparr>"
    let ?a3 = "a\<lparr>ag_dist := d', ag_loops := (ag_loops a)[i := p\<lparr>pl_crv := crv', pl_last := Some d'\<rparr>],
      ag_sent := ag_sent a @ reqs\<rparr>"
    have s2: "agg_step di ord enabled ?a1 ?a2"
      by (rule agg_step.process [where es = "concat rows"])
        (use p False P in \<open>simp_all add: process_action_def e\<close>)
    have s3: "agg_reach di ord enabled ?a2 ?a3"
    proof (cases b)
      case True
      let ?posted = "?p2\<lparr>pl_phase := Pulling\<rparr>"
      have "agg_step di ord enabled ?a2
          (?a2\<lparr>ag_loops := (ag_loops ?a2)[i := ?posted], ag_sent := ag_sent ?a2 @ [postCRV ord (pl_client p) crv']\<rparr>)"
        by (rule agg_step.post) (use p True in \<open>simp_all add: post_action_def\<close>)
      moreover have "?posted = p\<lparr>pl_crv := crv', pl_last := Some d'\<rparr>" using p(3) by simp
      ultimately show ?thesis using True by (intro r_into_rtranclp) (simp add: e(3))
    next
      case False
      then have "?p2 = p\<lparr>pl_crv := crv', pl_last := Some d'\<rparr>" using p(3) by simp
      then have "?a2 = ?a3" using False by (cases a) (simp add: e(3))
      then show ?thesis by (rule ssubst) (rule rtranclp.rtrancl_refl)
    qed
    show ?thesis
      by (rule exI [of _ "Some d'"])
        (rule converse_rtranclp_into_rtranclp [OF s1 converse_rtranclp_into_rtranclp [OF s2 s3]])
  qed
qed

section \<open>What the region managers are told\<close>

context event_processor
begin

text \<open>
  What a goroutine keeps: nothing before its first batch, afterwards exactly the versions that the
  distributor had right after the last one.
\<close>

definition loop_ok :: "'d \<Rightarrow> 'd PullLoop \<Rightarrow> bool" where
  "loop_ok d p \<longleftrightarrow> gm_wf (pl_crv p) \<and>
     (case pl_last p of
        None \<Rightarrow> pl_crv p = gm_empty
      | Some d0 \<Rightarrow> crv_of current d0 (pl_crv p) \<and> (\<forall>l. current d0 l \<le> current d l))"

definition told_ok :: "'d \<Rightarrow> RrmRequest \<Rightarrow> bool" where
  "told_ok d q \<longleftrightarrow> (\<forall>l v. gm_get (CRV (hr_body q)) l = Some v \<longrightarrow> 0 < v \<and> v \<le> current d l)"

definition agg_ok :: "'d Aggregator \<Rightarrow> bool" where
  "agg_ok a \<longleftrightarrow> inv (ag_dist a) \<and> (\<forall>p\<in>set (ag_loops a). loop_ok (ag_dist a) p) \<and>
     (\<forall>q\<in>set (ag_sent a). told_ok (ag_dist a) q)"

lemma loop_ok_phase [simp]: "loop_ok d (p\<lparr>pl_phase := x\<rparr>) = loop_ok d p"
  by (cases "pl_last p") (simp_all add: loop_ok_def)

lemma loop_ok_mono: "loop_ok d p \<Longrightarrow> (\<And>l. current d l \<le> current d' l) \<Longrightarrow> loop_ok d' p"
  unfolding loop_ok_def by (cases "pl_last p") (simp_all, meson order_trans)

lemma told_ok_mono: "told_ok d q \<Longrightarrow> (\<And>l. current d l \<le> current d' l) \<Longrightarrow> told_ok d' q"
  unfolding told_ok_def by (meson order_trans)

lemma loop_ok_told:
  assumes "loop_ok d p" "gm_get (pl_crv p) l = Some v"
  shows "0 < v \<and> v \<le> current d l"
proof (cases "pl_last p")
  case (Some d0)
  then have "gm_get (pl_crv p) l = (if current d0 l > 0 then Some (current d0 l) else None)"
      "current d0 l \<le> current d l"
    using assms(1) by (simp_all add: loop_ok_def crv_of_def)
  then show ?thesis using assms(2) by (auto split: if_splits)
qed (use assms in \<open>simp add: loop_ok_def\<close>)

lemma told_ok_requests:
  assumes "range_order ord" "loop_ok d p"
  shows "told_ok d (pull_request ord c n (pl_crv p))" "told_ok d (postCRV ord c (pl_crv p))"
  using assms loop_ok_told [OF assms(2)]
  by (simp_all add: told_ok_def pull_request_def postCRV_def Let_def rv_copy_get loop_ok_def)

lemma agg_ok_loop:
  assumes "agg_ok a" "i < length (ag_loops a)"
    and "\<And>q. q \<in> set reqs \<Longrightarrow> told_ok (ag_dist a) q" "loop_ok (ag_dist a) p'"
  shows "agg_ok (a\<lparr>ag_loops := (ag_loops a)[i := p'], ag_sent := ag_sent a @ reqs\<rparr>)"
  using assms set_update_subset_insert [of "ag_loops a" i p'] by (auto simp: agg_ok_def)

lemma agg_ok_dist:
  assumes "agg_ok a" "inv d'" "\<And>l. current (ag_dist a) l \<le> current d' l"
  shows "agg_ok (a\<lparr>ag_dist := d'\<rparr>)"
  using assms loop_ok_mono [OF _ assms(3)] told_ok_mono [OF _ assms(3)] by (simp add: agg_ok_def)

lemma agg_ok_step:
  assumes ord: "range_order ord"
  shows "agg_step di ord enabled a a' \<Longrightarrow> agg_ok a \<Longrightarrow>
    agg_ok a' \<and> (\<forall>l. current (ag_dist a) l \<le> current (ag_dist a') l)"
proof (induction rule: agg_step.induct)
  case (pull i a now net reqs p')
  let ?p = "ag_loops a ! i"
  have ok: "loop_ok (ag_dist a) ?p" using pull.prems pull.hyps(1) by (simp add: agg_ok_def)
  have "reqs = [pull_request ord (pl_client ?p) DefaultBatchLength (pl_crv ?p)]" "loop_ok (ag_dist a) p'"
    using pull.hyps(3) ok by (auto simp: pull_action_def split: prod.splits)
  then have "agg_ok (a\<lparr>ag_loops := (ag_loops a)[i := p'], ag_sent := ag_sent a @ reqs\<rparr>)"
    by (intro agg_ok_loop [OF pull.prems pull.hyps(1)]) (auto intro: told_ok_requests [OF ord ok])
  then show ?case by simp
next
  case (process i a es p' d')
  let ?p = "ag_loops a ! i"
  have iv: "inv (ag_dist a)" using process.prems by (simp add: agg_ok_def)
  obtain b crv where P: "di_ProcessEvents di es (ag_dist a) = Inr ((b, crv), d')"
      "p' = ?p\<lparr>pl_phase := (if b then Posting else Pulling), pl_crv := crv, pl_last := Some d'\<rparr>"
    using process.hyps(3) by (auto simp: process_action_def split: sum.splits prod.splits)
  have m: "current (ag_dist a) l \<le> current d' l" for l by (rule process_mono [OF iv P(1)])
  have "loop_ok d' p'"
    using process_wf [OF P(1) iv] process_crv [OF iv P(1)] by (simp add: P(2) loop_ok_def crv_of_def)
  then show ?case
    using agg_ok_loop [OF agg_ok_dist [OF process.prems process_inv [OF iv P(1)] m], of i "[]" p'] process.hyps(1) m
    by simp
next
  case (post i a reqs p')
  let ?p = "ag_loops a ! i"
  have ok: "loop_ok (ag_dist a) ?p" using post.prems post.hyps(1) by (simp add: agg_ok_def)
  have "reqs = [postCRV ord (pl_client ?p) (pl_crv ?p)]" "loop_ok (ag_dist a) p'"
    using post.hyps(3) ok by (auto simp: post_action_def)
  then have "agg_ok (a\<lparr>ag_loops := (ag_loops a)[i := p'], ag_sent := ag_sent a @ reqs\<rparr>)"
    by (intro agg_ok_loop [OF post.prems post.hyps(1)]) (auto intro: told_ok_requests [OF ord ok])
  then show ?case by simp
next
  case (register client a err d')
  have iv: "inv (ag_dist a)" using register.prems by (simp add: agg_ok_def)
  show ?case
    using agg_ok_dist [OF register.prems register_inv [OF iv register.hyps]] register_current [OF iv register.hyps]
    by simp
next
  case (watch c rvs wc sc a events d')
  have iv: "inv (ag_dist a)" using watch.prems by (simp add: agg_ok_def)
  show ?case
    using agg_ok_dist [OF watch.prems watch_inv [OF iv watch.hyps]] watch_current [OF iv watch.hyps] by simp
qed

lemma agg_ok_reach:
  assumes ord: "range_order ord" and reach: "agg_reach di ord enabled a a'" and ok: "agg_ok a"
  shows "agg_ok a' \<and> (\<forall>l. current (ag_dist a) l \<le> current (ag_dist a') l)"
  using reach ok
proof (induction rule: rtranclp_induct)
  case (step b c)
  then have "agg_ok b" "\<forall>l. current (ag_dist a) l \<le> current (ag_dist b) l" by simp_all
  then show ?case using agg_ok_step [OF ord step.hyps(2)] by (meson order_trans)
qed simp

lemma agg_ok_start: "inv d \<Longrightarrow> agg_ok (NewAggregator urls d)"
  by (auto simp: agg_ok_def NewAggregator_def start_pull_loop_def loop_ok_def)

end

lemma agg_step_loops: "agg_step di ord enabled a a' \<Longrightarrow> length (ag_loops a') = length (ag_loops a)"
  by (induction rule: agg_step.induct) simp_all

lemma agg_reach_loops: "agg_reach di ord enabled a a' \<Longrightarrow> length (ag_loops a') = length (ag_loops a)"
  by (induction rule: rtranclp_induct) (simp_all add: agg_step_loops)

end
