(* ===== verification/GRS_ServiceApi.thy ===== *)
theory GRS_ServiceApi
  imports GRS_Interface
begin

text \<open>
  \<open>service-api/endpoints/installer.go\<close>: the HTTP handlers. A request carries its path, its query
  and what reading and decoding its body as the handler's type gives; a response records the status
  and headers that were sent, the headers set so far and the bodies written. Encoding the
  answers to JSON cannot fail for these types, so the branches for that are left out; a body
  written is the value encoded. The distributor is any \<open>DistributorInterface\<close>.
\<close>

section \<open>Requests and responses\<close>

datatype 'a body_outcome = BodyReadError | BodyBadJson | BodyOk 'a

record ClientRegistrationRequest =
  crr_ClientInfo :: ClientInfoType
  InitialRequestedResource :: ResourceRequest

record ClientRegistrationResponse =
  crs_ClientId :: string
  GrantedResource :: ResourceRequest

record ListNodeResponse =
  NodeList :: "LogicalNode list"
  lr_ResourceVersions :: TransitResourceVersionMap

text \<open>The body of a watch request: \<open>resource_versions\<close>, None when absent.\<close>

record WatchRequest =
  wr_ResourceVersions :: "TransitResourceVersionMap option"

datatype ApiBody =
    RegistrationBody ClientRegistrationResponse
  | NodeBody LogicalNode
  | ListBody ListNodeResponse
  | EventBody NodeEvent

record Request =
  rq_Method :: string
  rq_Path :: string
  rq_Query :: "string \<Rightarrow> string"
  rq_Registration :: "ClientRegistrationRequest body_outcome"
  rq_Watch :: "WatchRequest body_outcome"
  rq_ContentType :: string

record Response =
  rs_sent :: "(nat \<times> (string, string) gomap) option"
  rs_headers :: "(string, string) gomap"
  rs_bodies :: "ApiBody list"
  rs_flushes :: nat
  rs_isFlusher :: bool
  rs_connected :: bool

definition new_response :: "bool \<Rightarrow> bool \<Rightarrow> Response" where
  "new_response isFlusher isConnected =
     \<lparr>rs_sent = None, rs_headers = gm_empty, rs_bodies = [], rs_flushes = 0,
      rs_isFlusher = isFlusher, rs_connected = isConnected\<rparr>"

text \<open>\<open>http.ResponseWriter\<close>: only the first status is sent, with the headers set by then.\<close>

definition WriteHeader :: "nat \<Rightarrow> Response \<Rightarrow> Response" where
  "WriteHeader code r = (if rs_sent r = None then r\<lparr>rs_sent := Some (code, rs_headers r)\<rparr> else r)"

definition Header_Set :: "string \<Rightarrow> string \<Rightarrow> Response \<Rightarrow> Response" where
  "Header_Set k v r = r\<lparr>rs_headers := gm_put k v (rs_headers r)\<rparr>"

definition resp_Write :: "ApiBody \<Rightarrow> Response \<Rightarrow> bool \<times> Response" where
  "resp_Write b r =
     (let r' = WriteHeader 200 r in
      if rs_connected r' then (True, r'\<lparr>rs_bodies := rs_bodies r' @ [b]\<rparr>) else (False, r'))"

definition Flush :: "Response \<Rightarrow> Response" where
  "Flush r = (WriteHeader 200 r)\<lparr>rs_flushes := rs_flushes r + 1\<rparr>"

lemma WriteHeader_frame [simp]:
  "rs_connected (WriteHeader c r) = rs_connected r" "rs_bodies (WriteHeader c r) = rs_bodies r"
  "rs_isFlusher (WriteHeader c r) = rs_isFlusher r" "rs_headers (WriteHeader c r) = rs_headers r"
  by (simp_all add: WriteHeader_def)

lemma resp_Write_connected:
  "rs_connected r \<Longrightarrow> resp_Write b r = (True, (WriteHeader 200 r)\<lparr>rs_bodies := rs_bodies r @ [b]\<rparr>)"
  by (simp add: resp_Write_def Let_def)

definition status_of :: "Response \<Rightarrow> nat option" where
  "status_of r = map_option fst (rs_sent r)"

section \<open>Client administration\<close>

definition handleClientRegistration ::
  "'d DistributorInterface \<Rightarrow> string \<Rightarrow> Request \<Rightarrow> Response \<times> 'd \<Rightarrow> Response \<times> 'd" where
  "handleClientRegistration di uuid req = (\<lambda>(resp, d).
     case rq_Registration req of
       BodyReadError \<Rightarrow> (WriteHeader 400 resp, d)
     | BodyBadJson \<Rightarrow> (WriteHeader 500 resp, d)
     | BodyOk clientReq \<Rightarrow>
         let requestedMachines = TotalMachines (InitialRequestedResource clientReq) in
         if requestedMachines > MaxTotalMachinesPerRequest \<or> requestedMachines < MinTotalMachinesPerRequest
         then (WriteHeader 400 resp, d)
         else
           let c_id = Preserve_Client_KeyPrefix @ ''-'' @ uuid;
               client = \<lparr>ClientId = c_id, ClientInfo = crr_ClientInfo clientReq,
                         Resource = InitialRequestedResource clientReq\<rparr>
           in (case di_RegisterClient di client d of
                 (Some err, d') \<Rightarrow> (WriteHeader 500 resp, d')
               | (None, d') \<Rightarrow>
                   let ret = \<lparr>crs_ClientId = ClientId client, GrantedResource = Resource client\<rparr>;
                       (ok, resp') = resp_Write (RegistrationBody ret) resp
                   in if \<not> ok then (WriteHeader 500 resp', d') else (resp', d')))"

definition handleClientUnRegistration :: "Request \<Rightarrow> Response \<times> 'd \<Rightarrow> Response \<times> 'd" where
  "handleClientUnRegistration req = (\<lambda>(resp, d). (WriteHeader 501 resp, d))"

definition ClientAdministrationHandler ::
  "'d DistributorInterface \<Rightarrow> string \<Rightarrow> Request \<Rightarrow> Response \<times> 'd \<Rightarrow> Response \<times> 'd" where
  "ClientAdministrationHandler di uuid req = (\<lambda>(resp, d).
     if rq_Method req = ''POST'' then handleClientRegistration di uuid req (resp, d)
     else if rq_Method req = ''DELETE'' then handleClientUnRegistration req (resp, d)
     else (WriteHeader 405 resp, d))"

section \<open>Node status\<close>

definition getNodeId :: "Request \<Rightarrow> string \<times> string \<times> string" where
  "getNodeId req =
     (rq_Query req ''region'', rq_Query req ''resourcePartition'', rq_Query req ''nodeId'')"

definition NodeHandler :: "'d DistributorInterface \<Rightarrow> Request \<Rightarrow> Response \<Rightarrow> 'd \<Rightarrow> Response result" where
  "NodeHandler di req resp d =
     (if rq_Method req = ''GET'' then
        let (regionName, rpName, nodeId) = getNodeId req;
            resp1 = Header_Set ''Content-Type'' ''text/plain'' (WriteHeader 200 resp);
            region = GetRegionFromRegionName regionName
        in (case GetPartitionFromPartitionName rpName of
              None \<Rightarrow> Inr (WriteHeader 400 resp1)
            | Some resourceParition \<Rightarrow>
                (case di_GetNodeStatus di region resourceParition nodeId d of
                   Inl (Panicked p) \<Rightarrow> Inl (Panicked p)
                 | Inl err \<Rightarrow> if err = Error_ObjectNotFound then Inr (WriteHeader 404 resp1)
                             else Inr (WriteHeader 500 resp1)
                 | Inr node \<Rightarrow>
                     let (ok, resp2) = resp_Write (NodeBody node) resp1
                     in if \<not> ok then Inr (WriteHeader 500 resp2) else Inr resp2))
      else Inr (WriteHeader 405 resp))"

section \<open>List\<close>

definition DefaultResponseTrunkSize :: nat where
  "DefaultResponseTrunkSize = 500"

text \<open>The slices of the loop \<open>for start < nodesLen\<close>.\<close>

function chunk_loop :: "'a list \<Rightarrow> nat \<Rightarrow> nat \<Rightarrow> 'a list list" where
  "chunk_loop nodes sz start =
     (if start < length nodes \<and> 0 < sz then
        let fin = start + sz in
        (if fin < length nodes then drop start (take fin nodes) else drop start nodes)
          # chunk_loop nodes sz fin
      else [])"
  by pat_completeness auto
termination
  by (relation "measure (\<lambda>(nodes, sz, start). length nodes - start)") auto

declare chunk_loop.simps [simp del]

definition trunk_size :: "int \<Rightarrow> nat" where
  "trunk_size chunkSize =
     (if int DefaultResponseTrunkSize < chunkSize then nat chunkSize else DefaultResponseTrunkSize)"

text \<open>A \<open>ResponseWriter\<close> that is no \<open>Flusher\<close> leaves \<open>flusher\<close> nil; the first flush panics.\<close>

definition write_chunk :: "TransitResourceVersionMap \<Rightarrow> LogicalNode list \<Rightarrow> Response \<Rightarrow> Response" where
  "write_chunk crv ns r =
     Flush (snd (resp_Write (ListBody \<lparr>NodeList = ns, lr_ResourceVersions = crv\<rparr>) r))"

definition handleResponseTrunked ::
  "LogicalNode list \<Rightarrow> TransitResourceVersionMap \<Rightarrow> int \<Rightarrow> Response \<Rightarrow> Response result" where
  "handleResponseTrunked nodes crv chunkSize resp =
     (let responseTrunkSize = trunk_size chunkSize in
      if length nodes \<le> responseTrunkSize then
        Inr (snd (resp_Write (ListBody \<lparr>NodeList = nodes, lr_ResourceVersions = crv\<rparr>) resp))
      else
        let resp1 = Header_Set ''X-Content-Type-Options'' ''nosniff''
                      (Header_Set ''Connection'' ''Keep-Alive'' resp)
        in if \<not> rs_isFlusher resp then Inl (Panicked NilDereference)
           else Inr (fold (write_chunk crv) (chunk_loop nodes responseTrunkSize 0) resp1))"

definition nth_or_panic :: "string list \<Rightarrow> nat \<Rightarrow> string result" where
  "nth_or_panic xs i = (if i < length xs then Inr (xs ! i) else Inl (Panicked IndexOutOfRange))"

definition getClientId :: "Request \<Rightarrow> string result" where
  "getClientId req =
     (case nth_or_panic (Split (rq_Path req) ''/'') 2 of
        Inl err \<Rightarrow> Inl err
      | Inr clientId \<Rightarrow> nth_or_panic (Split clientId ''?'') 0)"

definition handleList ::
  "'d DistributorInterface \<Rightarrow> Request \<Rightarrow> string \<Rightarrow> Response \<Rightarrow> 'd \<Rightarrow> Response result" where
  "handleList di req clientId resp d =
     (let resp1 = Header_Set ''Content-Type'' ''text/plain'' (WriteHeader 200 resp) in
      case di_ListNodesForClient di clientId d of
        Inl err \<Rightarrow> Inr (WriteHeader 500 resp1)
      | Inr (nodes, crv) \<Rightarrow>
          let limit = rq_Query req ''limit'' in
          if limit = '''' then handleResponseTrunked nodes crv 0 resp1
          else (case Atoi limit of
                  None \<Rightarrow> Inr (WriteHeader 400 resp1)
                | Some chunkSize \<Rightarrow> handleResponseTrunked nodes crv chunkSize resp1))"

section \<open>Watch\<close>

text \<open>
  What the \<open>select\<close> of \<open>serverWatch\<close> takes: the end of the request, a closed channel, or a record
  with the two times at which it is stamped.
\<close>

datatype select_input = RequestDone | ChannelClosed | Record NodeEvent go_time go_time

definition getResourceVersionsMap :: "Request \<Rightarrow> TransitResourceVersionMap option result" where
  "getResourceVersionsMap req =
     (case rq_Watch req of
        BodyReadError \<Rightarrow> Inl (ErrorText ''read'')
      | BodyBadJson \<Rightarrow> Inl (ErrorText ''unmarshal'')
      | BodyOk wr \<Rightarrow> Inr (wr_ResourceVersions wr))"

text \<open>The flush is skipped while the channel holds more records; \<open>queued\<close> says whether it does.\<close>

fun watch_loop ::
  "bool \<Rightarrow> (select_input \<times> bool) list \<Rightarrow> Response \<Rightarrow> LatencyMetricsAllCheckpoints \<Rightarrow>
     (Response \<times> LatencyMetricsAllCheckpoints) result" where
  "watch_loop enabled [] resp ms = Inr (resp, ms)"
| "watch_loop enabled ((RequestDone, queued) # inputs) resp ms = Inr (resp, ms)"
| "watch_loop enabled ((ChannelClosed, queued) # inputs) resp ms = Inr (resp, ms)"
| "watch_loop enabled ((Record record t1 t2, queued) # inputs) resp ms =
     (let (ok, resp1) = resp_Write (EventBody record) resp in
      if \<not> ok then Inr (WriteHeader 500 resp1, ms)
      else
        let record1 = SetCheckpoint enabled t1 Serializer_Encoded record;
            resp2 = (if \<not> queued then Flush resp1 else resp1);
            record2 = SetCheckpoint enabled t2 Serializer_Sent record1
        in case AddLatencyMetricsAllCheckpoints enabled (Some record2) ms of
             Inl err \<Rightarrow> Inl err
           | Inr ms' \<Rightarrow> watch_loop enabled inputs resp2 ms')"

text \<open>
  The deferred \<open>stopWatch\<close> sends on the unbuffered \<open>stopCh\<close>. Only the goroutine started by a
  successful \<open>Watch\<close> receives from it, so the handler returns exactly when \<open>Watch\<close> succeeded.
\<close>

record WatchOutcome =
  wo_response :: Response
  wo_metrics :: LatencyMetricsAllCheckpoints
  wo_returns :: bool

definition serverWatch ::
  "'d DistributorInterface \<Rightarrow> bool \<Rightarrow> Request \<Rightarrow> string \<Rightarrow> (select_input \<times> bool) list \<Rightarrow>
     LatencyMetricsAllCheckpoints \<Rightarrow> Response \<times> 'd \<Rightarrow> (WatchOutcome \<times> 'd) result" where
  "serverWatch di enabled req clientId inputs ms = (\<lambda>(resp, d).
     case getResourceVersionsMap req of
       Inl err \<Rightarrow> Inr (\<lparr>wo_response = WriteHeader 500 resp, wo_metrics = ms, wo_returns = False\<rparr>, d)
     | Inr crvMap \<Rightarrow>
         (case di_Watch di clientId crvMap True True d of
            Inl err \<Rightarrow> Inr (\<lparr>wo_response = WriteHeader 500 resp, wo_metrics = ms, wo_returns = False\<rparr>, d)
          | Inr (events, d') \<Rightarrow>
              if \<not> rs_isFlusher resp
              then Inr (\<lparr>wo_response = WriteHeader 500 resp, wo_metrics = ms, wo_returns = True\<rparr>, d')
              else
                let resp1 = Flush (WriteHeader 200 (Header_Set ''Transfer-Encoding'' ''chunked''
                              (Header_Set ''Content-Type'' (rq_ContentType req) resp)))
                in (case watch_loop enabled inputs resp1 ms of
                      Inl err \<Rightarrow> Inl err
                    | Inr (resp2, ms') \<Rightarrow>
                        Inr (\<lparr>wo_response = resp2, wo_metrics = ms', wo_returns = True\<rparr>, d'))))"

definition ResourceHandler ::
  "'d DistributorInterface \<Rightarrow> bool \<Rightarrow> Request \<Rightarrow> (select_input \<times> bool) list \<Rightarrow>
     LatencyMetricsAllCheckpoints \<Rightarrow> Response \<times> 'd \<Rightarrow> (WatchOutcome \<times> 'd) result" where
  "ResourceHandler di enabled req inputs ms = (\<lambda>(resp, d).
     let plain = (\<lambda>r. (\<lparr>wo_response = r, wo_metrics = ms, wo_returns = True\<rparr>, d)) in
     if rq_Method req = ''GET'' then
       (case getClientId req of
          Inl err \<Rightarrow> Inl err
        | Inr clientId \<Rightarrow> map_sum id plain (handleList di req clientId resp d))
     else if rq_Method req = ''POST'' then
       (case getClientId req of
          Inl err \<Rightarrow> Inl err
        | Inr clientId \<Rightarrow>
            if rq_Query req ''watch'' = ''true''
            then serverWatch di enabled req clientId inputs ms (resp, d)
            else Inr (plain resp))
     else Inr (plain (WriteHeader 405 resp)))"

section \<open>Chunks\<close>

lemma chunk_loop_concat: "0 < sz \<Longrightarrow> concat (chunk_loop nodes sz start) = drop start nodes"
proof (induction nodes sz start rule: chunk_loop.induct)
  case (1 nodes sz start)
  show ?case
  proof (cases "start < length nodes")
    case True
    then have rest: "concat (chunk_loop nodes sz (start + sz)) = drop (start + sz) nodes"
      using 1 by blast
    have "drop start (take (start + sz) nodes) @ drop (start + sz) nodes = drop start nodes"
    proof -
      have "take sz (drop start nodes) @ drop sz (drop start nodes) = drop start nodes"
        by (rule append_take_drop_id)
      then show ?thesis by (simp add: drop_take add.commute)
    qed
    then show ?thesis
      using True 1(2) rest by (subst chunk_loop.simps) (auto simp: Let_def)
  next
    case False
    then show ?thesis by (subst chunk_loop.simps) simp
  qed
qed

lemma chunk_loop_sizes: "c \<in> set (chunk_loop nodes sz start) \<Longrightarrow> c \<noteq> [] \<and> length c \<le> sz"
proof (induction nodes sz start rule: chunk_loop.induct)
  case (1 nodes sz start)
  from "1.prems" have g: "start < length nodes" "0 < sz"
    by (subst (asm) chunk_loop.simps, simp split: if_splits)+
  from "1.prems" have "c = (if start + sz < length nodes then drop start (take (start + sz) nodes) else drop start nodes)
      \<or> c \<in> set (chunk_loop nodes sz (start + sz))"
    using g by (subst (asm) chunk_loop.simps) (auto simp: Let_def)
  then show ?case
  proof
    assume "c \<in> set (chunk_loop nodes sz (start + sz))"
    then show ?case using "1.IH" g by blast
  qed (use g in auto)
qed

lemma trunk_size_bounds: "500 \<le> trunk_size n" "n \<le> int (trunk_size n)"
  by (auto simp: trunk_size_def DefaultResponseTrunkSize_def)

lemma trunk_size_max: "trunk_size n = max 500 (nat n)"
  by (auto simp: trunk_size_def DefaultResponseTrunkSize_def)

lemma write_chunk_bodies:
  assumes "rs_connected r"
  shows "rs_bodies (fold (write_chunk crv) cs r) = rs_bodies r @ map (\<lambda>c. ListBody \<lparr>NodeList = c, lr_ResourceVersions = crv\<rparr>) cs"
proof -
  have one: "rs_connected (write_chunk crv c r)"
    "rs_bodies (write_chunk crv c r) = rs_bodies r @ [ListBody \<lparr>NodeList = c, lr_ResourceVersions = crv\<rparr>]"
    if "rs_connected r" for c r
    using that by (simp_all add: write_chunk_def Flush_def resp_Write_connected)
  show ?thesis using assms by (induction cs arbitrary: r) (simp_all add: one)
qed

text \<open>The nodes in a body, and what the bodies of a list answer hold together.\<close>

fun body_nodes :: "ApiBody \<Rightarrow> LogicalNode list" where
  "body_nodes (ListBody l) = NodeList l"
| "body_nodes _ = []"

lemma handleResponseTrunked_nodes:
  assumes "rs_connected resp" "rs_isFlusher resp" "rs_bodies resp = []"
    and "handleResponseTrunked nodes crv n resp = Inr resp'"
  shows "concat (map body_nodes (rs_bodies resp')) = nodes"
    and "\<forall>b\<in>set (rs_bodies resp'). \<exists>c. b = ListBody \<lparr>NodeList = c, lr_ResourceVersions = crv\<rparr> \<and>
      length c \<le> max 500 (nat n)"
proof -
  let ?size = "trunk_size n"
  have sz: "0 < ?size" "?size \<le> max 500 (nat n)"
    by (auto simp: trunk_size_def DefaultResponseTrunkSize_def)
  have "concat (map body_nodes (rs_bodies resp')) = nodes \<and>
    (\<forall>b\<in>set (rs_bodies resp'). \<exists>c. b = ListBody \<lparr>NodeList = c, lr_ResourceVersions = crv\<rparr> \<and> length c \<le> ?size)"
  proof (cases "length nodes \<le> ?size")
    case True
    then show ?thesis
      using assms by (auto simp: handleResponseTrunked_def resp_Write_connected)
  next
    case False
    let ?r1 = "Header_Set ''X-Content-Type-Options'' ''nosniff'' (Header_Set ''Connection'' ''Keep-Alive'' resp)"
    have r1: "rs_connected ?r1" "rs_bodies ?r1 = []" using assms by (simp_all add: Header_Set_def)
    have "rs_bodies resp' = map (\<lambda>c. ListBody \<lparr>NodeList = c, lr_ResourceVersions = crv\<rparr>) (chunk_loop nodes ?size 0)"
      using assms(2,4) False write_chunk_bodies [OF r1(1)] r1(2) by (auto simp: handleResponseTrunked_def Let_def)
    then show ?thesis
      using chunk_loop_concat [OF sz(1), of nodes 0] chunk_loop_sizes [of _ nodes ?size 0]
      by (auto simp: comp_def)
  qed
  then show "concat (map body_nodes (rs_bodies resp')) = nodes"
    "\<forall>b\<in>set (rs_bodies resp'). \<exists>c. b = ListBody \<lparr>NodeList = c, lr_ResourceVersions = crv\<rparr> \<and>
      length c \<le> max 500 (nat n)"
    using sz(2) by (blast, meson order_trans)
qed

text \<open>The records that the handler of a watch takes up before it ends.\<close>

fun watched :: "(select_input \<times> bool) list \<Rightarrow> NodeEvent list" where
  "watched ((Record record t1 t2, queued) # inputs) = record # watched inputs"
| "watched _ = []"

text \<open>The checkpoints of an event made by \<open>NewNodeEvent\<close>, or of one that has none yet.\<close>

definition stampable :: "NodeEvent \<Rightarrow> bool" where
  "stampable e \<longleftrightarrow> ne_checkpoints e = [] \<or> length (ne_checkpoints e) = Len_ResourceManagementCheckpoint"

lemma stampable_metrics:
  assumes "stampable e"
  shows "\<exists>ms'. AddLatencyMetricsAllCheckpoints enabled
    (Some (SetCheckpoint enabled t2 c2 (SetCheckpoint enabled t1 c1 e))) ms = Inr ms'"
  using assms
  by (auto simp: AddLatencyMetricsAllCheckpoints_def SetCheckpoint_def stampable_def Len_ResourceManagementCheckpoint_def Let_def)

lemma watch_loop_run:
  "rs_connected resp \<Longrightarrow> rs_sent resp = Some s \<Longrightarrow> \<forall>e\<in>set (watched inputs). stampable e \<Longrightarrow>
    \<exists>resp' ms'. watch_loop enabled inputs resp ms = Inr (resp', ms') \<and>
      rs_bodies resp' = rs_bodies resp @ map EventBody (watched inputs) \<and> rs_sent resp' = Some s"
proof (induction inputs arbitrary: resp ms rule: watched.induct)
  case (1 e t1 t2 queued inputs)
  have st: "stampable e" and rest: "\<forall>e\<in>set (watched inputs). stampable e" using "1.prems"(3) by simp_all
  obtain ms1 where ms1: "AddLatencyMetricsAllCheckpoints enabled
      (Some (SetCheckpoint enabled t2 Serializer_Sent (SetCheckpoint enabled t1 Serializer_Encoded e))) ms = Inr ms1"
    using stampable_metrics [OF st] by blast
  define r1 where "r1 = (WriteHeader 200 resp)\<lparr>rs_bodies := rs_bodies resp @ [EventBody e]\<rparr>"
  define r2 where "r2 = (if \<not> queued then Flush r1 else r1)"
  have r2: "rs_connected r2" "rs_sent r2 = Some s" "rs_bodies r2 = rs_bodies resp @ [EventBody e]"
    using "1.prems"(1,2) by (auto simp: r2_def r1_def Flush_def WriteHeader_def)
  have "watch_loop enabled ((Record e t1 t2, queued) # inputs) resp ms = watch_loop enabled inputs r2 ms1"
    using "1.prems"(1) ms1 by (simp add: resp_Write_connected Let_def r1_def [symmetric] r2_def)
  then show ?case using "1.IH" [OF r2(1,2) rest, of ms1] r2(3) by simp
qed simp_all

lemma WriteHeader_sent [simp]: "rs_sent r \<noteq> None \<Longrightarrow> WriteHeader code r = r"
  by (simp add: WriteHeader_def)

lemma fold_write_chunk_sent: "rs_sent r \<noteq> None \<Longrightarrow> rs_sent (fold (write_chunk crv) cs r) = rs_sent r"
proof (induction cs arbitrary: r)
  case (Cons c cs)
  have "rs_sent (write_chunk crv c r) = rs_sent r"
    using Cons.prems by (simp add: write_chunk_def Flush_def resp_Write_def Let_def)
  then show ?case using Cons by simp
qed simp

lemma handleResponseTrunked_status:
  assumes "status_of resp = Some code" "handleResponseTrunked nodes crv n resp = Inr resp'"
  shows "status_of resp' = Some code"
  using assms fold_write_chunk_sent
  by (auto simp: handleResponseTrunked_def status_of_def resp_Write_def Let_def Header_Set_def split: if_splits)

lemma status_WriteHeader:
  "status_of (WriteHeader code r) = (case status_of r of None \<Rightarrow> Some code | Some c \<Rightarrow> Some c)"
  by (auto simp: status_of_def WriteHeader_def split: option.splits)

lemma status_Header_Set [simp]: "status_of (Header_Set k v r) = status_of r"
  by (simp add: status_of_def Header_Set_def)

lemma status_resp_Write:
  "status_of (snd (resp_Write b r)) = (case status_of r of None \<Rightarrow> Some 200 | Some c \<Rightarrow> Some c)"
  using status_WriteHeader [of 200 r] by (simp add: resp_Write_def Let_def status_of_def)

lemma NodeHandler_status:
  assumes "rq_Method req = ''GET''" "rs_sent resp = None" "NodeHandler di req resp d = Inr resp'"
  shows "status_of resp' = Some 200"
proof -
  let ?r = "Header_Set ''Content-Type'' ''text/plain'' (WriteHeader 200 resp)"
  have r: "status_of ?r = Some 200" using assms(2) by (simp add: status_WriteHeader) (simp add: status_of_def)
  then have h: "status_of (WriteHeader c ?r) = Some 200" for c by (simp add: status_WriteHeader)
  have w: "status_of r1 = Some 200 \<and> status_of (WriteHeader c r1) = Some 200" if "resp_Write b ?r = (ok, r1)" for b ok r1 c
    using status_resp_Write [of b ?r] r that by (simp add: status_WriteHeader)
  show ?thesis
    using assms(1,3) h w
    by (auto simp: NodeHandler_def Let_def getNodeId_def split: option.splits sum.splits prod.splits if_splits GoError.splits)
qed

end
