(* ===== verification/GRS_Sets.thy ===== *)
theory GRS_Sets
  imports GRS_Types "HOL-Library.List_Lexorder" "HOL-Library.Char_ord"
begin

text \<open>
  \<open>clientSdk/tools/sets/string.go\<close> (the files for other element types are the same code): sets as Go
  maps with empty values. The model is polymorphic in the elements; loops over a set take the
  iteration order as an argument. \<open>sort.Sort\<close> orders strings by bytes, as the linear order of
  lists of characters does.
\<close>

type_synonym 'a gset = "('a, unit) gomap"
type_synonym 'a set_order = "('a \<times> unit) list \<Rightarrow> ('a \<times> unit) list"

definition gs_Insert :: "'a list \<Rightarrow> 'a gset \<Rightarrow> 'a gset" where
  "gs_Insert items s = fold (\<lambda>item. gm_put item ()) items s"

definition gs_Delete :: "'a list \<Rightarrow> 'a gset \<Rightarrow> 'a gset" where
  "gs_Delete items s = fold gm_delete items s"

definition NewSet :: "'a list \<Rightarrow> 'a gset" where
  "NewSet items = gs_Insert items gm_empty"

definition StringKeySet :: "('a, 'v) gomap \<Rightarrow> 'a gset" where
  "StringKeySet m = fold (\<lambda>k. gs_Insert [k]) (gm_keys m) gm_empty"

definition gs_Has :: "'a gset \<Rightarrow> 'a \<Rightarrow> bool" where
  "gs_Has s item = (gm_get s item \<noteq> None)"

fun gs_HasAll :: "'a gset \<Rightarrow> 'a list \<Rightarrow> bool" where
  "gs_HasAll s [] = True"
| "gs_HasAll s (item # items) = (if \<not> gs_Has s item then False else gs_HasAll s items)"

fun gs_HasAny :: "'a gset \<Rightarrow> 'a list \<Rightarrow> bool" where
  "gs_HasAny s [] = False"
| "gs_HasAny s (item # items) = (if gs_Has s item then True else gs_HasAny s items)"

definition gs_Len :: "'a gset \<Rightarrow> nat" where
  "gs_Len s = gm_len s"

definition gs_Difference :: "'a set_order \<Rightarrow> 'a gset \<Rightarrow> 'a gset \<Rightarrow> 'a gset" where
  "gs_Difference ord s s2 =
     fold (\<lambda>key result. if \<not> gs_Has s2 key then gs_Insert [key] result else result)
       (gm_keys (ord s)) (NewSet [])"

definition gs_Union :: "'a set_order \<Rightarrow> 'a gset \<Rightarrow> 'a gset \<Rightarrow> 'a gset" where
  "gs_Union ord s1 s2 =
     fold (\<lambda>key. gs_Insert [key]) (gm_keys (ord s2))
       (fold (\<lambda>key. gs_Insert [key]) (gm_keys (ord s1)) (NewSet []))"

definition gs_Intersection :: "'a set_order \<Rightarrow> 'a gset \<Rightarrow> 'a gset \<Rightarrow> 'a gset" where
  "gs_Intersection ord s1 s2 =
     (let (walk, other) = (if gs_Len s1 < gs_Len s2 then (s1, s2) else (s2, s1)) in
      fold (\<lambda>key result. if gs_Has other key then gs_Insert [key] result else result)
        (gm_keys (ord walk)) (NewSet []))"

definition gs_IsSuperset :: "'a set_order \<Rightarrow> 'a gset \<Rightarrow> 'a gset \<Rightarrow> bool" where
  "gs_IsSuperset ord s1 s2 = gs_HasAll s1 (gm_keys (ord s2))"

definition gs_Equal :: "'a set_order \<Rightarrow> 'a gset \<Rightarrow> 'a gset \<Rightarrow> bool" where
  "gs_Equal ord s1 s2 \<longleftrightarrow> gm_len s1 = gm_len s2 \<and> gs_IsSuperset ord s1 s2"

definition gs_List :: "('a :: linorder) set_order \<Rightarrow> 'a gset \<Rightarrow> 'a list" where
  "gs_List ord s = sort (gm_keys (ord s))"

definition gs_UnsortedList :: "'a set_order \<Rightarrow> 'a gset \<Rightarrow> 'a list" where
  "gs_UnsortedList ord s = gm_keys (ord s)"

text \<open>The zero value of the element type is \<open>zero\<close>.\<close>

definition gs_PopAny :: "'a \<Rightarrow> 'a set_order \<Rightarrow> 'a gset \<Rightarrow> ('a \<times> bool) \<times> 'a gset" where
  "gs_PopAny zero ord s =
     (case ord s of
        [] \<Rightarrow> ((zero, False), s)
      | (key, _) # _ \<Rightarrow> ((key, True), gs_Delete [key] s))"

section \<open>As sets\<close>

definition members :: "'a gset \<Rightarrow> 'a set" where
  "members s = {x. gs_Has s x}"

lemma members_keys: "members s = set (gm_keys s)"
  by (simp add: members_def gs_Has_def gm_keys_set)

lemma gs_Has_iff: "gs_Has s x \<longleftrightarrow> x \<in> members s"
  by (simp add: members_def)

lemma members_empty [simp]: "members gm_empty = {}" "members [] = {}"
  by (simp_all add: members_def gs_Has_def)

lemma members_put: "members (gm_put x () s) = insert x (members s)"
  by (auto simp: members_def gs_Has_def gomap_simps split: if_splits)

lemma members_Insert: "members (gs_Insert items s) = members s \<union> set items"
  unfolding gs_Insert_def by (induction items arbitrary: s) (auto simp: members_put)

lemma members_Delete: "members (gs_Delete items s) = members s - set items"
  unfolding gs_Delete_def
  by (induction items arbitrary: s) (auto simp: members_def gs_Has_def gomap_simps split: if_splits)

lemma members_NewSet: "members (NewSet items) = set items"
  by (simp add: NewSet_def members_Insert)

lemma gm_wf_Insert [simp]: "gm_wf s \<Longrightarrow> gm_wf (gs_Insert items s)"
  unfolding gs_Insert_def by (induction items arbitrary: s) simp_all

lemma gm_wf_Delete [simp]: "gm_wf s \<Longrightarrow> gm_wf (gs_Delete items s)"
  unfolding gs_Delete_def by (induction items arbitrary: s) simp_all

lemma gm_wf_NewSet [simp]: "gm_wf (NewSet items)"
  by (simp add: NewSet_def)

lemma members_fold_Insert: "members (fold (\<lambda>k. gs_Insert [k]) ks s) = members s \<union> set ks"
  by (induction ks arbitrary: s) (auto simp: members_Insert)

lemma members_fold_Insert_if:
  "members (fold (\<lambda>k r. if P k then gs_Insert [k] r else r) ks s) = members s \<union> {k \<in> set ks. P k}"
  by (induction ks arbitrary: s) (auto simp: members_Insert)

lemma members_StringKeySet: "members (StringKeySet m) = {k. gm_get m k \<noteq> None}"
  by (simp add: StringKeySet_def members_fold_Insert gm_keys_set)

lemma gs_HasAll_iff: "gs_HasAll s items \<longleftrightarrow> set items \<subseteq> members s"
  by (induction items) (auto simp: gs_Has_iff)

lemma gs_HasAny_iff: "gs_HasAny s items \<longleftrightarrow> set items \<inter> members s \<noteq> {}"
  by (induction items) (auto simp: gs_Has_iff)

lemma keys_order: "range_order ord \<Longrightarrow> set (gm_keys (ord s)) = members s"
  by (simp add: members_keys gm_keys_def)

lemma members_ops:
  assumes "range_order ord"
  shows "members (gs_Difference ord s1 s2) = members s1 - members s2"
    and "members (gs_Union ord s1 s2) = members s1 \<union> members s2"
    and "members (gs_Intersection ord s1 s2) = members s1 \<inter> members s2"
  using assms
  by (auto simp: gs_Difference_def gs_Union_def gs_Intersection_def members_fold_Insert
      members_fold_Insert_if members_NewSet keys_order gs_Has_iff Let_def)

lemma gs_Len_card: "gm_wf s \<Longrightarrow> gs_Len s = card (members s)"
  unfolding members_keys gm_wf_def gs_Len_def gm_len_def gm_keys_def
  by (metis distinct_card length_map)

lemma gs_Equal_iff:
  assumes "range_order ord" "gm_wf s1" "gm_wf s2"
  shows "gs_Equal ord s1 s2 \<longleftrightarrow> members s1 = members s2"
proof -
  have len: "gm_len s1 = card (members s1)" "gm_len s2 = card (members s2)"
    using gs_Len_card assms(2,3) by (auto simp: gs_Len_def)
  have fin: "finite (members s1)" by (simp add: members_keys)
  have sup: "gs_IsSuperset ord s1 s2 \<longleftrightarrow> members s2 \<subseteq> members s1"
    by (simp add: gs_IsSuperset_def gs_HasAll_iff keys_order [OF assms(1)])
  show ?thesis
    unfolding gs_Equal_def len sup using card_subset_eq [OF fin] by (metis order_refl)
qed

lemma gs_List_spec:
  assumes "range_order ord" "gm_wf s"
  shows "sorted (gs_List ord s)" "set (gs_List ord s) = members s" "distinct (gs_List ord s)"
proof -
  show "sorted (gs_List ord s)" by (simp add: gs_List_def)
  show "set (gs_List ord s) = members s" by (simp add: gs_List_def keys_order [OF assms(1)])
  have "gm_wf (ord s)" using assms by simp
  then show "distinct (gs_List ord s)" by (simp add: gs_List_def gm_wf_def gm_keys_def)
qed

lemma gs_PopAny_spec:
  assumes "range_order ord" "gs_PopAny zero ord s = ((x, found), s')"
  shows "found \<longleftrightarrow> members s \<noteq> {}" "found \<Longrightarrow> x \<in> members s \<and> members s' = members s - {x}"
proof -
  have keys: "members s = fst ` set (ord s)"
    using keys_order [OF assms(1), of s] by (simp add: gm_keys_def)
  show "found \<longleftrightarrow> members s \<noteq> {}"
    using assms(2) keys by (auto simp: gs_PopAny_def split: list.splits)
  show "found \<Longrightarrow> x \<in> members s \<and> members s' = members s - {x}"
    using assms(2) keys by (cases "ord s") (force simp: gs_PopAny_def members_Delete)+
qed

end
