(* ===== verification/GRS_ClientCache.thy ===== *)
theory GRS_ClientCache
  imports GRS_Sets
begin

text \<open>
  \<open>clientSdk/tools/cache\<close>: the indexed store of the client SDK (\<open>thread_safe_store.go\<close>,
  \<open>index.go\<close>) and the cache that keys its objects (\<open>store.go\<close>). Objects are of any type and not
  nil; index and key functions are arguments that may fail. A failing index function panics while
  the indices are updated. Every operation holds the store's lock, so it is one step.
\<close>

section \<open>The indexed store\<close>

type_synonym Index = "(string, string gset) gomap"
type_synonym Indices = "(string, Index) gomap"
type_synonym 'o IndexFunc = "'o \<Rightarrow> string list result"
type_synonym 'o Indexers = "(string, 'o IndexFunc) gomap"
type_synonym 'o indexer_order = "(string \<times> 'o IndexFunc) list \<Rightarrow> (string \<times> 'o IndexFunc) list"

record 'o threadSafeMap =
  items :: "(string, 'o) gomap"
  indexers :: "'o Indexers"
  indices :: Indices

definition NewThreadSafeStore :: "'o Indexers \<Rightarrow> Indices \<Rightarrow> 'o threadSafeMap" where
  "NewThreadSafeStore ixs inds = \<lparr>items = gm_empty, indexers = ixs, indices = inds\<rparr>"

definition index_add :: "string \<Rightarrow> string \<Rightarrow> Index \<Rightarrow> Index" where
  "index_add key indexValue index =
     (let s = (case gm_get index indexValue of None \<Rightarrow> gm_empty | Some s \<Rightarrow> s)
      in gm_put indexValue (gs_Insert [key] s) index)"

definition index_del :: "string \<Rightarrow> string \<Rightarrow> Index \<Rightarrow> Index" where
  "index_del key indexValue index =
     (case gm_get index indexValue of
        None \<Rightarrow> index
      | Some s \<Rightarrow> gm_put indexValue (gs_Delete [key] s) index)"

fun add_to_indices ::
  "string \<Rightarrow> 'o \<Rightarrow> (string \<times> 'o IndexFunc) list \<Rightarrow> Indices \<Rightarrow> Indices result" where
  "add_to_indices key obj [] inds = Inr inds"
| "add_to_indices key obj ((name, indexFunc) # ixs) inds =
     (case indexFunc obj of
        Inl err \<Rightarrow> Inl (Panicked ExplicitPanic)
      | Inr indexValues \<Rightarrow>
          let index = (case gm_get inds name of None \<Rightarrow> gm_empty | Some i \<Rightarrow> i)
          in add_to_indices key obj ixs (gm_put name (fold (index_add key) indexValues index) inds))"

fun deleteFromIndices_loop ::
  "string \<Rightarrow> 'o \<Rightarrow> (string \<times> 'o IndexFunc) list \<Rightarrow> Indices \<Rightarrow> Indices result" where
  "deleteFromIndices_loop key obj [] inds = Inr inds"
| "deleteFromIndices_loop key obj ((name, indexFunc) # ixs) inds =
     (case indexFunc obj of
        Inl err \<Rightarrow> Inl (Panicked ExplicitPanic)
      | Inr indexValues \<Rightarrow>
          (case gm_get inds name of
             None \<Rightarrow> deleteFromIndices_loop key obj ixs inds
           | Some index \<Rightarrow>
               deleteFromIndices_loop key obj ixs (gm_put name (fold (index_del key) indexValues index) inds)))"

definition deleteFromIndices ::
  "'o indexer_order \<Rightarrow> 'o \<Rightarrow> string \<Rightarrow> 'o threadSafeMap \<Rightarrow> 'o threadSafeMap result" where
  "deleteFromIndices ord obj key c =
     map_sum id (\<lambda>inds. c\<lparr>indices := inds\<rparr>) (deleteFromIndices_loop key obj (ord (indexers c)) (indices c))"

definition updateIndices ::
  "'o indexer_order \<Rightarrow> 'o option \<Rightarrow> 'o \<Rightarrow> string \<Rightarrow> 'o threadSafeMap \<Rightarrow> 'o threadSafeMap result" where
  "updateIndices ord oldObj newObj key c =
     (case (case oldObj of None \<Rightarrow> Inr c | Some old \<Rightarrow> deleteFromIndices ord old key c) of
        Inl err \<Rightarrow> Inl err
      | Inr c1 \<Rightarrow>
          map_sum id (\<lambda>inds. c1\<lparr>indices := inds\<rparr>) (add_to_indices key newObj (ord (indexers c1)) (indices c1)))"

definition ts_Add :: "'o indexer_order \<Rightarrow> string \<Rightarrow> 'o \<Rightarrow> 'o threadSafeMap \<Rightarrow> 'o threadSafeMap result" where
  "ts_Add ord key obj c =
     (let oldObject = gm_get (items c) key in
      updateIndices ord oldObject obj key (c\<lparr>items := gm_put key obj (items c)\<rparr>))"

definition ts_Update :: "'o indexer_order \<Rightarrow> string \<Rightarrow> 'o \<Rightarrow> 'o threadSafeMap \<Rightarrow> 'o threadSafeMap result" where
  "ts_Update ord key obj c =
     (let oldObject = gm_get (items c) key in
      updateIndices ord oldObject obj key (c\<lparr>items := gm_put key obj (items c)\<rparr>))"

definition ts_Delete :: "'o indexer_order \<Rightarrow> string \<Rightarrow> 'o threadSafeMap \<Rightarrow> 'o threadSafeMap result" where
  "ts_Delete ord key c =
     (case gm_get (items c) key of
        None \<Rightarrow> Inr c
      | Some obj \<Rightarrow>
          map_sum id (\<lambda>c1. c1\<lparr>items := gm_delete key (items c1)\<rparr>) (deleteFromIndices ord obj key c))"

definition ts_Get :: "string \<Rightarrow> 'o threadSafeMap \<Rightarrow> 'o option" where
  "ts_Get key c = gm_get (items c) key"

type_synonym 'o item_order = "(string \<times> 'o) list \<Rightarrow> (string \<times> 'o) list"

definition ts_List :: "'o item_order \<Rightarrow> 'o threadSafeMap \<Rightarrow> 'o list" where
  "ts_List ord c = map snd (ord (items c))"

definition ts_ListKeys :: "'o item_order \<Rightarrow> 'o threadSafeMap \<Rightarrow> string list" where
  "ts_ListKeys ord c = map fst (ord (items c))"

fun reindex :: "'o indexer_order \<Rightarrow> (string \<times> 'o) list \<Rightarrow> 'o threadSafeMap \<Rightarrow> 'o threadSafeMap result" where
  "reindex ord [] c = Inr c"
| "reindex ord ((key, item) # kvs) c =
     (case updateIndices ord None item key c of
        Inl err \<Rightarrow> Inl err
      | Inr c' \<Rightarrow> reindex ord kvs c')"

definition ts_Replace ::
  "'o indexer_order \<Rightarrow> 'o item_order \<Rightarrow> (string, 'o) gomap \<Rightarrow> string \<Rightarrow> 'o threadSafeMap \<Rightarrow>
     'o threadSafeMap result" where
  "ts_Replace ord ordI newItems resourceVersion c =
     reindex ord (ordI newItems) (c\<lparr>items := newItems, indices := gm_empty\<rparr>)"

definition no_index :: "string \<Rightarrow> GoError" where
  "no_index indexName = ErrorText (''Index with name '' @ indexName @ '' does not exist'')"

definition index_set :: "string \<Rightarrow> string \<Rightarrow> 'o threadSafeMap \<Rightarrow> string gset" where
  "index_set indexName indexKey c =
     (case gm_get (indices c) indexName of
        None \<Rightarrow> gm_empty
      | Some index \<Rightarrow> (case gm_get index indexKey of None \<Rightarrow> gm_empty | Some s \<Rightarrow> s))"

text \<open>An indexed key without an item would yield nil; \<open>item_of\<close> keeps that as \<open>None\<close>.\<close>

definition items_of :: "string list \<Rightarrow> 'o threadSafeMap \<Rightarrow> 'o option list" where
  "items_of keys c = map (gm_get (items c)) keys"

definition ts_Index ::
  "string set_order \<Rightarrow> string \<Rightarrow> 'o \<Rightarrow> 'o threadSafeMap \<Rightarrow> 'o option list result" where
  "ts_Index ord indexName obj c =
     (case gm_get (indexers c) indexName of
        None \<Rightarrow> Inl (no_index indexName)
      | Some indexFunc \<Rightarrow>
          (case indexFunc obj of
             Inl err \<Rightarrow> Inl err
           | Inr indexKeys \<Rightarrow>
               let returnKeySet =
                 (if length indexKeys = 1 then index_set indexName (indexKeys ! 0) c
                  else fold (\<lambda>indexKey r. fold (\<lambda>key. gs_Insert [key])
                               (gm_keys (ord (index_set indexName indexKey c))) r)
                         indexKeys gm_empty)
               in Inr (items_of (gm_keys (ord returnKeySet)) c)))"

definition ts_ByIndex ::
  "string set_order \<Rightarrow> string \<Rightarrow> string \<Rightarrow> 'o threadSafeMap \<Rightarrow> 'o option list result" where
  "ts_ByIndex ord indexName indexKey c =
     (case gm_get (indexers c) indexName of
        None \<Rightarrow> Inl (no_index indexName)
      | Some _ \<Rightarrow> Inr (items_of (gm_keys (ord (index_set indexName indexKey c))) c))"

definition ts_IndexKeys ::
  "string set_order \<Rightarrow> string \<Rightarrow> string \<Rightarrow> 'o threadSafeMap \<Rightarrow> string list result" where
  "ts_IndexKeys ord indexName indexKey c =
     (case gm_get (indexers c) indexName of
        None \<Rightarrow> Inl (no_index indexName)
      | Some _ \<Rightarrow> Inr (gs_List ord (index_set indexName indexKey c)))"

definition ts_ListIndexFuncValues ::
  "((string \<times> string gset) list \<Rightarrow> (string \<times> string gset) list) \<Rightarrow> string \<Rightarrow> 'o threadSafeMap \<Rightarrow> string list" where
  "ts_ListIndexFuncValues ord indexName c =
     map fst (ord (case gm_get (indices c) indexName of None \<Rightarrow> gm_empty | Some index \<Rightarrow> index))"

definition ts_GetIndexers :: "'o threadSafeMap \<Rightarrow> 'o Indexers" where
  "ts_GetIndexers c = indexers c"

definition ts_AddIndexers ::
  "string set_order \<Rightarrow> 'o indexer_order \<Rightarrow> 'o Indexers \<Rightarrow> 'o threadSafeMap \<Rightarrow> 'o threadSafeMap result" where
  "ts_AddIndexers ordS ord newIndexers c =
     (if gm_len (items c) > 0 then Inl (ErrorText ''cannot add indexers to running index'')
      else
        let oldKeys = StringKeySet (indexers c); newKeys = StringKeySet newIndexers in
        if gs_HasAny oldKeys (gs_List ordS newKeys) then Inl (ErrorText ''indexer conflict'')
        else Inr (c\<lparr>indexers := fold (\<lambda>kv. gm_put (fst kv) (snd kv)) (ord newIndexers) (indexers c)\<rparr>))"

definition ts_Resync :: "'o threadSafeMap \<Rightarrow> 'o threadSafeMap" where
  "ts_Resync c = c"

section \<open>The indices follow the items\<close>

definition ix_members :: "Indices \<Rightarrow> string \<Rightarrow> string \<Rightarrow> string set" where
  "ix_members inds name v =
     members (case gm_get inds name of None \<Rightarrow> gm_empty
              | Some index \<Rightarrow> (case gm_get index v of None \<Rightarrow> gm_empty | Some s \<Rightarrow> s))"

definition index_values :: "'o Indexers \<Rightarrow> string \<Rightarrow> 'o \<Rightarrow> string set" where
  "index_values ixs name obj =
     (case gm_get ixs name of
        None \<Rightarrow> {}
      | Some f \<Rightarrow> (case f obj of Inl _ \<Rightarrow> {} | Inr vs \<Rightarrow> set vs))"

definition index_inv :: "'o threadSafeMap \<Rightarrow> bool" where
  "index_inv c \<longleftrightarrow>
     gm_wf (items c) \<and> gm_wf (indexers c) \<and>
     (\<forall>name v. ix_members (indices c) name v =
        {k. \<exists>obj. gm_get (items c) k = Some obj \<and> v \<in> index_values (indexers c) name obj})"

lemma index_set_members: "members (index_set name v c) = ix_members (indices c) name v"
  by (simp add: index_set_def ix_members_def)

definition im :: "Index \<Rightarrow> string \<Rightarrow> string set" where
  "im index v = members (case gm_get index v of None \<Rightarrow> gm_empty | Some s \<Rightarrow> s)"

lemma im_empty [simp]: "im gm_empty v = {}"
  by (simp add: im_def)

lemma ix_members_im:
  "ix_members inds name v = im (case gm_get inds name of None \<Rightarrow> gm_empty | Some index \<Rightarrow> index) v"
  by (simp add: ix_members_def im_def split: option.splits)

lemma im_add: "im (fold (index_add key) vs index) v = im index v \<union> (if v \<in> set vs then {key} else {})"
proof (induction vs arbitrary: index)
  case (Cons u vs)
  have "im (index_add key u index) v = im index v \<union> (if v = u then {key} else {})"
    by (auto simp: im_def index_add_def gomap_simps members_Insert Let_def split: option.splits)
  then show ?case using Cons.IH [of "index_add key u index"] by auto
qed simp

lemma im_del: "im (fold (index_del key) vs index) v = im index v - (if v \<in> set vs then {key} else {})"
proof (induction vs arbitrary: index)
  case (Cons u vs)
  have "im (index_del key u index) v = im index v - (if v = u then {key} else {})"
    by (auto simp: im_def index_del_def gomap_simps members_Delete split: option.splits)
  then show ?case using Cons.IH [of "index_del key u index"] by auto
qed simp

lemma add_to_indices_members:
  "add_to_indices key obj ixs inds = Inr inds' \<Longrightarrow> distinct (map fst ixs) \<Longrightarrow>
    ix_members inds' name v = ix_members inds name v \<union> (if v \<in> index_values ixs name obj then {key} else {})"
proof (induction key obj ixs inds rule: add_to_indices.induct)
  case (1 key obj inds)
  then show ?case by (simp add: index_values_def)
next
  case (2 key obj n f ixs inds)
  obtain vs where f: "f obj = Inr vs" using "2.prems"(1) by (cases "f obj") simp_all
  let ?index = "case gm_get inds n of None \<Rightarrow> gm_empty | Some i \<Rightarrow> i"
  let ?inds = "gm_put n (fold (index_add key) vs ?index) inds"
  have n: "gm_get ixs n = None" using "2.prems"(2) by (simp add: gm_get_def map_of_eq_None_iff)
  have IH: "ix_members inds' name v = ix_members ?inds name v \<union> (if v \<in> index_values ixs name obj then {key} else {})"
    using "2.IH" [OF f refl] "2.prems" f by (simp add: Let_def)
  have "ix_members ?inds name v = ix_members inds name v \<union> (if name = n \<and> v \<in> set vs then {key} else {})"
    by (simp add: ix_members_im gomap_simps im_add)
  then show ?case using IH f n by (auto simp: index_values_def split: if_splits)
qed

lemma delete_loop_members:
  "deleteFromIndices_loop key obj ixs inds = Inr inds' \<Longrightarrow> distinct (map fst ixs) \<Longrightarrow>
    ix_members inds' name v = ix_members inds name v - (if v \<in> index_values ixs name obj then {key} else {})"
proof (induction key obj ixs inds rule: deleteFromIndices_loop.induct)
  case (1 key obj inds)
  then show ?case by (simp add: index_values_def)
next
  case (2 key obj n f ixs inds)
  obtain vs where f: "f obj = Inr vs" using "2.prems"(1) by (cases "f obj") simp_all
  have n: "gm_get ixs n = None" using "2.prems"(2) by (simp add: gm_get_def map_of_eq_None_iff)
  show ?case
  proof (cases "gm_get inds n")
    case None
    have IH: "ix_members inds' name v = ix_members inds name v - (if v \<in> index_values ixs name obj then {key} else {})"
      using "2.IH"(1) [OF f None] "2.prems" f None by simp
    have "ix_members inds n v = {}" by (simp add: ix_members_im None)
    then show ?thesis using IH f n by (auto simp: index_values_def split: if_splits)
  next
    case (Some index)
    let ?inds = "gm_put n (fold (index_del key) vs index) inds"
    have IH: "ix_members inds' name v = ix_members ?inds name v - (if v \<in> index_values ixs name obj then {key} else {})"
      using "2.IH"(2) [OF f Some] "2.prems" f Some by simp
    have "ix_members ?inds name v = ix_members inds name v - (if name = n \<and> v \<in> set vs then {key} else {})"
      using Some by (auto simp: ix_members_im gomap_simps im_del split: if_splits)
    then show ?thesis using IH f n by (auto simp: index_values_def split: if_splits)
  qed
qed

lemma index_values_order:
  "range_order ord \<Longrightarrow> gm_wf ixs \<Longrightarrow> index_values (ord ixs) = index_values ixs"
  using gm_get_mset [of ixs "ord ixs"] by (simp add: index_values_def fun_eq_iff range_order_mset)

lemma distinct_order: "range_order ord \<Longrightarrow> gm_wf m \<Longrightarrow> distinct (map fst (ord m))"
  using range_order_wf [of ord m] by (simp add: gm_wf_def)

lemma deleteFromIndices_members:
  assumes "range_order ord" "gm_wf (indexers c)" "deleteFromIndices ord obj key c = Inr c'"
  shows "items c' = items c" "indexers c' = indexers c"
    "ix_members (indices c') name v = ix_members (indices c) name v -
       (if v \<in> index_values (indexers c) name obj then {key} else {})"
proof -
  obtain inds where d: "deleteFromIndices_loop key obj (ord (indexers c)) (indices c) = Inr inds"
    "c' = c\<lparr>indices := inds\<rparr>"
    using assms(3) by (cases "deleteFromIndices_loop key obj (ord (indexers c)) (indices c)")
      (auto simp: deleteFromIndices_def)
  show "items c' = items c" "indexers c' = indexers c" by (simp_all add: d)
  show "ix_members (indices c') name v = ix_members (indices c) name v -
       (if v \<in> index_values (indexers c) name obj then {key} else {})"
    using delete_loop_members [OF d(1) distinct_order [OF assms(1,2)]] index_values_order [OF assms(1,2)]
    by (simp add: d(2))
qed

lemma updateIndices_members:
  assumes "range_order ord" "gm_wf (indexers c)" "updateIndices ord old new key c = Inr c'"
  shows "items c' = items c" "indexers c' = indexers c"
    "ix_members (indices c') name v =
       (ix_members (indices c) name v -
          (if \<exists>o'. old = Some o' \<and> v \<in> index_values (indexers c) name o' then {key} else {})) \<union>
       (if v \<in> index_values (indexers c) name new then {key} else {})"
proof -
  obtain c1 where c1: "(case old of None \<Rightarrow> Inr c | Some o' \<Rightarrow> deleteFromIndices ord o' key c) = Inr c1"
    using assms(3) by (auto simp: updateIndices_def split: sum.splits)
  obtain inds where d: "add_to_indices key new (ord (indexers c1)) (indices c1) = Inr inds"
    "c' = c1\<lparr>indices := inds\<rparr>"
    using assms(3) c1 by (cases "add_to_indices key new (ord (indexers c1)) (indices c1)")
      (auto simp: updateIndices_def)
  have c1': "items c1 = items c" "indexers c1 = indexers c"
    "ix_members (indices c1) name v = ix_members (indices c) name v -
       (if \<exists>o'. old = Some o' \<and> v \<in> index_values (indexers c) name o' then {key} else {})"
    using c1 deleteFromIndices_members [OF assms(1,2)] by (auto split: option.splits)
  show "items c' = items c" "indexers c' = indexers c" by (simp_all add: d(2) c1')
  show "ix_members (indices c') name v =
       (ix_members (indices c) name v -
          (if \<exists>o'. old = Some o' \<and> v \<in> index_values (indexers c) name o' then {key} else {})) \<union>
       (if v \<in> index_values (indexers c) name new then {key} else {})"
    using add_to_indices_members [OF d(1)] distinct_order [OF assms(1,2)] index_values_order [OF assms(1,2)]
    by (simp add: d(2) c1')
qed

lemma index_inv_new: "gm_wf ixs \<Longrightarrow> index_inv (NewThreadSafeStore ixs gm_empty)"
  by (simp add: index_inv_def NewThreadSafeStore_def ix_members_def)

lemma index_inv_Add:
  assumes ord: "range_order ord" and inv: "index_inv c" and add: "ts_Add ord key obj c = Inr c'"
  shows "index_inv c'" "items c' = gm_put key obj (items c)" "indexers c' = indexers c"
proof -
  let ?c = "c\<lparr>items := gm_put key obj (items c)\<rparr>"
  have up: "updateIndices ord (gm_get (items c) key) obj key ?c = Inr c'"
    using add by (simp add: ts_Add_def Let_def)
  have wf: "gm_wf (indexers ?c)" using inv by (simp add: index_inv_def)
  note U = updateIndices_members [OF ord wf up]
  show "items c' = gm_put key obj (items c)" "indexers c' = indexers c" using U(1,2) by simp_all
  have mem: "ix_members (indices c) name v =
      {k. \<exists>obj. gm_get (items c) k = Some obj \<and> v \<in> index_values (indexers c) name obj}" for name v
    using inv by (simp add: index_inv_def)
  show "index_inv c'"
    unfolding index_inv_def
  proof (intro conjI allI)
    show "gm_wf (items c')" "gm_wf (indexers c')" using inv U(1,2) by (simp_all add: index_inv_def)
    fix name v
    show "ix_members (indices c') name v =
        {k. \<exists>obj. gm_get (items c') k = Some obj \<and> v \<in> index_values (indexers c') name obj}"
      unfolding U(1-3) using mem [of name v] by (auto simp: gomap_simps split: if_splits)
  qed
qed

lemma index_inv_Delete:
  assumes ord: "range_order ord" and inv: "index_inv c" and del: "ts_Delete ord key c = Inr c'"
  shows "index_inv c'" "gm_get (items c') k = (if k = key then None else gm_get (items c) k)"
    "indexers c' = indexers c"
proof -
  have "index_inv c' \<and> gm_get (items c') k = (if k = key then None else gm_get (items c) k) \<and> indexers c' = indexers c"
  proof (cases "gm_get (items c) key")
    case None
    then show ?thesis using del inv by (simp add: ts_Delete_def)
  next
    case (Some obj)
    then obtain c1 where d: "deleteFromIndices ord obj key c = Inr c1"
      "c' = c1\<lparr>items := gm_delete key (items c1)\<rparr>"
      using del by (cases "deleteFromIndices ord obj key c") (auto simp: ts_Delete_def)
    have wf: "gm_wf (indexers c)" using inv by (simp add: index_inv_def)
    note D = deleteFromIndices_members [OF ord wf d(1)]
    have mem: "ix_members (indices c) name v =
        {k. \<exists>obj. gm_get (items c) k = Some obj \<and> v \<in> index_values (indexers c) name obj}" for name v
      using inv by (simp add: index_inv_def)
    have "ix_members (indices c') name v =
        {k. \<exists>obj. gm_get (items c') k = Some obj \<and> v \<in> index_values (indexers c') name obj}" for name v
      using D mem [of name v] Some by (auto simp: d(2) gomap_simps split: if_splits)
    then show ?thesis using inv D(1,2) by (simp add: index_inv_def d(2) gomap_simps)
  qed
  then show "index_inv c'" "gm_get (items c') k = (if k = key then None else gm_get (items c) k)"
    "indexers c' = indexers c" by blast+
qed

lemma reindex_members:
  "reindex ord kvs c = Inr c' \<Longrightarrow> range_order ord \<Longrightarrow> gm_wf (indexers c) \<Longrightarrow>
    items c' = items c \<and> indexers c' = indexers c \<and>
    ix_members (indices c') name v =
      ix_members (indices c) name v \<union> {k. \<exists>obj. (k, obj) \<in> set kvs \<and> v \<in> index_values (indexers c) name obj}"
proof (induction ord kvs c rule: reindex.induct)
  case (2 ord key item kvs c)
  obtain c1 where u: "updateIndices ord None item key c = Inr c1" "reindex ord kvs c1 = Inr c'"
    using "2.prems"(1) by (auto split: sum.splits)
  note U = updateIndices_members [OF "2.prems"(2,3) u(1)]
  show ?case using "2.IH" [OF u] "2.prems"(2,3) U by auto
qed simp

lemma index_inv_Replace:
  assumes ord: "range_order ord" "range_order ordI" and wf: "gm_wf (indexers c)" "gm_wf new"
    and rep: "ts_Replace ord ordI new rv c = Inr c'"
  shows "index_inv c'" "items c' = new" "indexers c' = indexers c"
proof -
  let ?c = "c\<lparr>items := new, indices := gm_empty\<rparr>"
  have "gm_wf (indexers ?c)" using wf by simp
  from reindex_members [OF rep [unfolded ts_Replace_def] ord(1) this]
  have R: "items c' = new" "indexers c' = indexers c"
    "\<And>name v. ix_members (indices c') name v =
      {k. \<exists>obj. (k, obj) \<in> set (ordI new) \<and> v \<in> index_values (indexers c) name obj}"
    by (simp_all add: ix_members_def)
  show "items c' = new" "indexers c' = indexers c" by (rule R(1), rule R(2))
  show "index_inv c'"
    using wf ord(2) by (simp add: index_inv_def R gm_in_iff)
qed

lemma image_lookup: "m ` {k. \<exists>x. m k = Some x \<and> P x} = {Some x |x k. m k = Some x \<and> P x}"
  by (auto simp: image_iff) (metis option.inject)

text \<open>Under the invariant an index lookup is a filter over the items.\<close>

lemma ByIndex_items:
  assumes inv: "index_inv c" and ord: "range_order ord"
    and r: "ts_ByIndex ord name v c = Inr objs"
  shows "set objs = {Some obj |obj k. gm_get (items c) k = Some obj \<and> v \<in> index_values (indexers c) name obj}"
proof -
  have objs: "objs = map (gm_get (items c)) (gm_keys (ord (index_set name v c)))"
    using r by (auto simp: ts_ByIndex_def items_of_def split: option.splits)
  have "set (gm_keys (ord (index_set name v c))) = ix_members (indices c) name v"
    using keys_order [OF ord] by (simp add: index_set_members)
  then have "set objs = gm_get (items c) ` {k. \<exists>obj. gm_get (items c) k = Some obj \<and> v \<in> index_values (indexers c) name obj}"
    using inv by (simp add: objs index_inv_def)
  then show ?thesis by (simp add: image_lookup)
qed

lemma members_nested_fold:
  "members (fold (\<lambda>ik r. fold (\<lambda>key. gs_Insert [key]) (f ik) r) iks r0) = members r0 \<union> (\<Union>ik\<in>set iks. set (f ik))"
  by (induction iks arbitrary: r0) (auto simp: members_fold_Insert)

lemma Index_items:
  assumes inv: "index_inv c" and ord: "range_order ord"
    and f: "gm_get (indexers c) name = Some f" "f obj = Inr vs"
    and r: "ts_Index ord name obj c = Inr objs"
  shows "set objs = {Some o' |o' k. gm_get (items c) k = Some o' \<and> (\<exists>v\<in>set vs. v \<in> index_values (indexers c) name o')}"
proof -
  let ?keys = "if length vs = 1 then index_set name (vs ! 0) c
     else fold (\<lambda>v r. fold (\<lambda>key. gs_Insert [key]) (gm_keys (ord (index_set name v c))) r) vs gm_empty"
  have objs: "objs = map (gm_get (items c)) (gm_keys (ord ?keys))"
    using r f by (simp add: ts_Index_def items_of_def Let_def)
  have one: "set vs = {vs ! 0}" if "length vs = 1" using that by (cases vs) auto
  have "members ?keys = (\<Union>v\<in>set vs. ix_members (indices c) name v)"
    using one by (simp add: members_nested_fold keys_order [OF ord] index_set_members)
  then have "set (gm_keys (ord ?keys)) = {k. \<exists>obj. gm_get (items c) k = Some obj \<and>
      (\<exists>v\<in>set vs. v \<in> index_values (indexers c) name obj)}"
    unfolding keys_order [OF ord] using inv by (auto simp: index_inv_def)
  then show ?thesis by (simp add: objs image_lookup)
qed

section \<open>The cache\<close>

text \<open>
  \<open>cache\<close> computes keys and calls a \<open>ThreadSafeStore\<close>, an interface: a record of methods over the
  state of the storage. Methods that change the storage return the new state, or a panic.
\<close>

record ('o, 's) ThreadSafeStore =
  tss_Add :: "string \<Rightarrow> 'o \<Rightarrow> 's \<Rightarrow> 's result"
  tss_Update :: "string \<Rightarrow> 'o \<Rightarrow> 's \<Rightarrow> 's result"
  tss_Delete :: "string \<Rightarrow> 's \<Rightarrow> 's result"
  tss_Get :: "string \<Rightarrow> 's \<Rightarrow> 'o option"
  tss_List :: "'s \<Rightarrow> 'o list"
  tss_ListKeys :: "'s \<Rightarrow> string list"
  tss_Replace :: "(string, 'o) gomap \<Rightarrow> string \<Rightarrow> 's \<Rightarrow> 's result"
  tss_ByIndex :: "string \<Rightarrow> string \<Rightarrow> 's \<Rightarrow> 'o option list result"
  tss_Index :: "string \<Rightarrow> 'o \<Rightarrow> 's \<Rightarrow> 'o option list result"
  tss_IndexKeys :: "string \<Rightarrow> string \<Rightarrow> 's \<Rightarrow> string list result"
  tss_ListIndexFuncValues :: "string \<Rightarrow> 's \<Rightarrow> string list"
  tss_GetIndexers :: "'s \<Rightarrow> 'o Indexers"
  tss_AddIndexers :: "'o Indexers \<Rightarrow> 's \<Rightarrow> 's result"
  tss_Resync :: "'s \<Rightarrow> 's"

text \<open>\<open>KeyError\<close> wraps the error of the key function; \<open>StoragePanic\<close> is a panic of the storage.\<close>

datatype 'o cache_error = KeyError 'o GoError | StoragePanic GoError

type_synonym 'o KeyFunc = "'o \<Rightarrow> string result"

fun storage_result :: "'s result \<Rightarrow> 'o cache_error + 's" where
  "storage_result (Inl err) = Inl (StoragePanic err)"
| "storage_result (Inr s) = Inr s"

definition cache_Add ::
  "('o, 's) ThreadSafeStore \<Rightarrow> 'o KeyFunc \<Rightarrow> 'o \<Rightarrow> 's \<Rightarrow> 'o cache_error + 's" where
  "cache_Add ts keyFunc obj s =
     (case keyFunc obj of
        Inl err \<Rightarrow> Inl (KeyError obj err)
      | Inr key \<Rightarrow> storage_result (tss_Add ts key obj s))"

definition cache_Update ::
  "('o, 's) ThreadSafeStore \<Rightarrow> 'o KeyFunc \<Rightarrow> 'o \<Rightarrow> 's \<Rightarrow> 'o cache_error + 's" where
  "cache_Update ts keyFunc obj s =
     (case keyFunc obj of
        Inl err \<Rightarrow> Inl (KeyError obj err)
      | Inr key \<Rightarrow> storage_result (tss_Update ts key obj s))"

definition cache_Delete ::
  "('o, 's) ThreadSafeStore \<Rightarrow> 'o KeyFunc \<Rightarrow> 'o \<Rightarrow> 's \<Rightarrow> 'o cache_error + 's" where
  "cache_Delete ts keyFunc obj s =
     (case keyFunc obj of
        Inl err \<Rightarrow> Inl (KeyError obj err)
      | Inr key \<Rightarrow> storage_result (tss_Delete ts key s))"

definition cache_List :: "('o, 's) ThreadSafeStore \<Rightarrow> 's \<Rightarrow> 'o list" where
  "cache_List ts s = tss_List ts s"

definition cache_ListKeys :: "('o, 's) ThreadSafeStore \<Rightarrow> 's \<Rightarrow> string list" where
  "cache_ListKeys ts s = tss_ListKeys ts s"

definition cache_ByIndex ::
  "('o, 's) ThreadSafeStore \<Rightarrow> string \<Rightarrow> string \<Rightarrow> 's \<Rightarrow> 'o option list result" where
  "cache_ByIndex ts indexName indexKey s = tss_ByIndex ts indexName indexKey s"

definition cache_GetIndexers :: "('o, 's) ThreadSafeStore \<Rightarrow> 's \<Rightarrow> 'o Indexers" where
  "cache_GetIndexers ts s = tss_GetIndexers ts s"

definition cache_Index ::
  "('o, 's) ThreadSafeStore \<Rightarrow> string \<Rightarrow> 'o \<Rightarrow> 's \<Rightarrow> 'o option list result" where
  "cache_Index ts indexName obj s = tss_Index ts indexName obj s"

definition cache_IndexKeys ::
  "('o, 's) ThreadSafeStore \<Rightarrow> string \<Rightarrow> string \<Rightarrow> 's \<Rightarrow> string list result" where
  "cache_IndexKeys ts indexName indexKey s = tss_IndexKeys ts indexName indexKey s"

definition cache_ListIndexFuncValues :: "('o, 's) ThreadSafeStore \<Rightarrow> string \<Rightarrow> 's \<Rightarrow> string list" where
  "cache_ListIndexFuncValues ts indexName s = tss_ListIndexFuncValues ts indexName s"

definition cache_AddIndexers :: "('o, 's) ThreadSafeStore \<Rightarrow> 'o Indexers \<Rightarrow> 's \<Rightarrow> 's result" where
  "cache_AddIndexers ts newIndexers s = tss_AddIndexers ts newIndexers s"

definition cache_Resync :: "('o, 's) ThreadSafeStore \<Rightarrow> 's \<Rightarrow> 's" where
  "cache_Resync ts s = tss_Resync ts s"

definition cache_GetByKey :: "('o, 's) ThreadSafeStore \<Rightarrow> string \<Rightarrow> 's \<Rightarrow> 'o option" where
  "cache_GetByKey ts key s = tss_Get ts key s"

definition cache_Get ::
  "('o, 's) ThreadSafeStore \<Rightarrow> 'o KeyFunc \<Rightarrow> 'o \<Rightarrow> 's \<Rightarrow> 'o cache_error + 'o option" where
  "cache_Get ts keyFunc obj s =
     (case keyFunc obj of
        Inl err \<Rightarrow> Inl (KeyError obj err)
      | Inr key \<Rightarrow> Inr (cache_GetByKey ts key s))"

fun replace_items ::
  "'o KeyFunc \<Rightarrow> 'o list \<Rightarrow> (string, 'o) gomap \<Rightarrow> 'o cache_error + (string, 'o) gomap" where
  "replace_items keyFunc [] acc = Inr acc"
| "replace_items keyFunc (item # xs) acc =
     (case keyFunc item of
        Inl err \<Rightarrow> Inl (KeyError item err)
      | Inr key \<Rightarrow> replace_items keyFunc xs (gm_put key item acc))"

definition cache_Replace ::
  "('o, 's) ThreadSafeStore \<Rightarrow> 'o KeyFunc \<Rightarrow> 'o list \<Rightarrow> string \<Rightarrow> 's \<Rightarrow> 'o cache_error + 's" where
  "cache_Replace ts keyFunc xs resourceVersion s =
     (case replace_items keyFunc xs gm_empty of
        Inl err \<Rightarrow> Inl err
      | Inr newItems \<Rightarrow> storage_result (tss_Replace ts newItems resourceVersion s))"

definition IndexFuncToKeyFuncAdapter :: "'o IndexFunc \<Rightarrow> 'o KeyFunc" where
  "IndexFuncToKeyFuncAdapter indexFunc obj =
     (case indexFunc obj of
        Inl err \<Rightarrow> Inl err
      | Inr indexKeys \<Rightarrow>
          if length indexKeys > 1 then Inl (ErrorText ''too many keys'')
          else if length indexKeys = 0 then Inl (ErrorText ''unexpected empty indexKeys'')
          else Inr (indexKeys ! 0))"

text \<open>The storage that \<open>NewStore\<close> and \<open>NewIndexer\<close> create.\<close>

definition thread_safe_map ::
  "'o indexer_order \<Rightarrow> 'o item_order \<Rightarrow> string set_order \<Rightarrow>
     ((string \<times> string gset) list \<Rightarrow> (string \<times> string gset) list) \<Rightarrow> ('o, 'o threadSafeMap) ThreadSafeStore" where
  "thread_safe_map ord ordI ordS ordV =
     \<lparr>tss_Add = ts_Add ord, tss_Update = ts_Update ord, tss_Delete = ts_Delete ord, tss_Get = ts_Get,
      tss_List = ts_List ordI, tss_ListKeys = ts_ListKeys ordI, tss_Replace = ts_Replace ord ordI,
      tss_ByIndex = ts_ByIndex ordS, tss_Index = ts_Index ordS, tss_IndexKeys = ts_IndexKeys ordS,
      tss_ListIndexFuncValues = ts_ListIndexFuncValues ordV, tss_GetIndexers = ts_GetIndexers,
      tss_AddIndexers = ts_AddIndexers ordS ord, tss_Resync = ts_Resync\<rparr>"

definition NewStore :: "'o threadSafeMap" where
  "NewStore = NewThreadSafeStore gm_empty gm_empty"

definition NewIndexer :: "'o Indexers \<Rightarrow> 'o threadSafeMap" where
  "NewIndexer ixs = NewThreadSafeStore ixs gm_empty"

section \<open>The contract of the storage\<close>

text \<open>The laws the cache needs of its storage: each call acts on a map from keys to objects.\<close>

locale thread_safe_store =
  fixes ts :: "('o, 's) ThreadSafeStore"
    and inv :: "'s \<Rightarrow> bool"
  assumes add: "inv s \<Longrightarrow> tss_Add ts k x s = Inr s' \<Longrightarrow>
      inv s' \<and> tss_Get ts k' s' = (if k' = k then Some x else tss_Get ts k' s)"
    and upd: "inv s \<Longrightarrow> tss_Update ts k x s = Inr s' \<Longrightarrow>
      inv s' \<and> tss_Get ts k' s' = (if k' = k then Some x else tss_Get ts k' s)"
    and del: "inv s \<Longrightarrow> tss_Delete ts k s = Inr s' \<Longrightarrow>
      inv s' \<and> tss_Get ts k' s' = (if k' = k then None else tss_Get ts k' s)"
    and repl: "inv s \<Longrightarrow> gm_wf m \<Longrightarrow> tss_Replace ts m rv s = Inr s' \<Longrightarrow>
      inv s' \<and> tss_Get ts k' s' = gm_get m k'"
    and listed: "inv s \<Longrightarrow> set (tss_List ts s) = {x. \<exists>k. tss_Get ts k s = Some x}"
begin

lemma Add_Get:
  assumes "inv s" "cache_Add ts keyFunc obj s = Inr s'"
  shows "inv s' \<and> cache_Get ts keyFunc obj s' = Inr (Some obj)"
proof -
  obtain k where k: "keyFunc obj = Inr k" "tss_Add ts k obj s = Inr s'"
    using assms(2) by (cases "keyFunc obj"; cases "tss_Add ts (projr (keyFunc obj)) obj s")
      (auto simp: cache_Add_def)
  then show ?thesis using add [OF assms(1) k(2)] by (simp add: cache_Get_def cache_GetByKey_def)
qed

lemma Delete_Get:
  assumes "inv s" "cache_Delete ts keyFunc obj s = Inr s'"
  shows "inv s' \<and> cache_Get ts keyFunc obj s' = Inr None"
proof -
  obtain k where k: "keyFunc obj = Inr k" "tss_Delete ts k s = Inr s'"
    using assms(2) by (cases "keyFunc obj"; cases "tss_Delete ts (projr (keyFunc obj)) s")
      (auto simp: cache_Delete_def)
  then show ?thesis using del [OF assms(1) k(2)] by (simp add: cache_Get_def cache_GetByKey_def)
qed

end

text \<open>A later object with the same key wins.\<close>

lemma find_of_append: "find P (xs @ ys) = (case find P xs of Some x \<Rightarrow> Some x | None \<Rightarrow> find P ys)"
  by (induction xs) auto

lemma replace_items_get:
  "replace_items keyFunc xs acc = Inr m \<Longrightarrow>
    gm_get m k = (case find (\<lambda>x. keyFunc x = Inr k) (rev xs) of Some x \<Rightarrow> Some x | None \<Rightarrow> gm_get acc k)"
proof (induction keyFunc xs acc rule: replace_items.induct)
  case (2 keyFunc item xs acc)
  obtain key where k: "keyFunc item = Inr key" "replace_items keyFunc xs (gm_put key item acc) = Inr m"
    using "2.prems" by (cases "keyFunc item") simp_all
  show ?case
    using "2.IH" [OF k] k(1)
    by (auto simp: find_of_append gomap_simps split: option.splits)
qed simp

lemma replace_items_wf: "replace_items keyFunc xs acc = Inr m \<Longrightarrow> gm_wf acc \<Longrightarrow> gm_wf m"
  by (induction keyFunc xs acc rule: replace_items.induct) (auto split: sum.splits)

context thread_safe_store
begin

lemma Replace_Get:
  assumes "inv s" "cache_Replace ts keyFunc xs rv s = Inr s'"
  shows "inv s' \<and> cache_GetByKey ts k s' = find (\<lambda>x. keyFunc x = Inr k) (rev xs)"
proof -
  obtain m where m: "replace_items keyFunc xs gm_empty = Inr m" "tss_Replace ts m rv s = Inr s'"
    using assms(2)
    by (cases "replace_items keyFunc xs gm_empty"; cases "tss_Replace ts (projr (replace_items keyFunc xs gm_empty)) rv s")
      (auto simp: cache_Replace_def)
  have "gm_wf m" using replace_items_wf [OF m(1)] by simp
  then show ?thesis
    using repl [OF assms(1) _ m(2), of k] replace_items_get [OF m(1), of k]
    by (auto simp: cache_GetByKey_def split: option.splits)
qed

end

text \<open>In whatever order the maps are walked, the storage of the code keeps the contract.\<close>

lemma thread_safe_map_store:
  fixes ord :: "'o indexer_order"
  assumes "range_order ord" "range_order ordI"
  shows "thread_safe_store (thread_safe_map ord ordI ordS ordV) index_inv"
proof
  let ?ts = "thread_safe_map ord ordI ordS ordV"
  fix s s' :: "'o threadSafeMap" and k k' x m rv
  assume inv: "index_inv s"
  note A = index_inv_Add [OF assms(1) inv]
  show "index_inv s' \<and> tss_Get ?ts k' s' = (if k' = k then Some x else tss_Get ?ts k' s)"
    if "tss_Add ?ts k x s = Inr s'"
    using A that by (simp add: thread_safe_map_def ts_Get_def gomap_simps)
  have "ts_Update ord = ts_Add ord" for ord :: "'o indexer_order"
    by (simp add: fun_eq_iff ts_Update_def ts_Add_def)
  then show "index_inv s' \<and> tss_Get ?ts k' s' = (if k' = k then Some x else tss_Get ?ts k' s)"
    if "tss_Update ?ts k x s = Inr s'"
    using A that by (simp add: thread_safe_map_def ts_Get_def gomap_simps)
  show "index_inv s' \<and> tss_Get ?ts k' s' = (if k' = k then None else tss_Get ?ts k' s)"
    if "tss_Delete ?ts k s = Inr s'"
    using index_inv_Delete [OF assms(1) inv] that by (simp add: thread_safe_map_def ts_Get_def)
  show "index_inv s' \<and> tss_Get ?ts k' s' = gm_get m k'" if "gm_wf m" "tss_Replace ?ts m rv s = Inr s'"
  proof -
    have rep: "ts_Replace ord ordI m rv s = Inr s'" using that(2) by (simp add: thread_safe_map_def)
    have "gm_wf (indexers s)" using inv by (simp add: index_inv_def)
    from index_inv_Replace [OF assms this that(1), of rv] rep
    show ?thesis by (simp add: thread_safe_map_def ts_Get_def)
  qed
  show "set (tss_List ?ts s) = {x. \<exists>k. tss_Get ?ts k s = Some x}"
  proof -
    have "snd ` set (items s) = {x. \<exists>k. (k, x) \<in> set (items s)}" by force
    then show ?thesis
      using inv assms(2) by (simp add: thread_safe_map_def ts_List_def ts_Get_def index_inv_def gm_in_iff)
  qed
qed

interpretation tsm: thread_safe_store "thread_safe_map (\<lambda>xs. xs) rev (\<lambda>xs. xs) rev" index_inv
  by (rule thread_safe_map_store) simp_all

end
