(* ===== verification/GRS_SetTypes.thy ===== *)
theory GRS_SetTypes
  imports GRS_Sets "HOL-Library.Word"
begin

text \<open>
  The sets of the other element types (\<open>int.go\<close>, \<open>int32.go\<close>, \<open>int64.go\<close>, \<open>byte.go\<close>), which a generator
  writes from the same template as \<open>string.go\<close>: each is the polymorphic set at its type. Signed
  integers are integers in their range, as sets only compare them; bytes are words. The locale
  \<open>go_set\<close> is the contract of a set type, interpreted on all five.
\<close>

section \<open>The contract of a set type\<close>

locale go_set =
  fixes newset :: "('a :: linorder) list \<Rightarrow> 'a gset"
    and ins :: "'a list \<Rightarrow> 'a gset \<Rightarrow> 'a gset"
    and del :: "'a list \<Rightarrow> 'a gset \<Rightarrow> 'a gset"
    and has :: "'a gset \<Rightarrow> 'a \<Rightarrow> bool"
    and has_all :: "'a gset \<Rightarrow> 'a list \<Rightarrow> bool"
    and has_any :: "'a gset \<Rightarrow> 'a list \<Rightarrow> bool"
    and diff :: "'a set_order \<Rightarrow> 'a gset \<Rightarrow> 'a gset \<Rightarrow> 'a gset"
    and uni :: "'a set_order \<Rightarrow> 'a gset \<Rightarrow> 'a gset \<Rightarrow> 'a gset"
    and inter :: "'a set_order \<Rightarrow> 'a gset \<Rightarrow> 'a gset \<Rightarrow> 'a gset"
    and superset :: "'a set_order \<Rightarrow> 'a gset \<Rightarrow> 'a gset \<Rightarrow> bool"
    and equal_sets :: "'a set_order \<Rightarrow> 'a gset \<Rightarrow> 'a gset \<Rightarrow> bool"
    and to_list :: "'a set_order \<Rightarrow> 'a gset \<Rightarrow> 'a list"
    and unsorted :: "'a set_order \<Rightarrow> 'a gset \<Rightarrow> 'a list"
    and len :: "'a gset \<Rightarrow> nat"
    and pop :: "'a set_order \<Rightarrow> 'a gset \<Rightarrow> ('a \<times> bool) \<times> 'a gset"
  assumes wf_new: "gm_wf (newset xs)"
    and wf_ins: "gm_wf s \<Longrightarrow> gm_wf (ins xs s)"
    and wf_del: "gm_wf s \<Longrightarrow> gm_wf (del xs s)"
    and wf_ops: "gm_wf (diff ord s s')" "gm_wf (uni ord s s')" "gm_wf (inter ord s s')"
    and has_new: "has (newset xs) x \<longleftrightarrow> x \<in> set xs"
    and has_ins: "has (ins xs s) x \<longleftrightarrow> x \<in> set xs \<or> has s x"
    and has_del: "has (del xs s) x \<longleftrightarrow> x \<notin> set xs \<and> has s x"
    and has_all_iff: "has_all s xs \<longleftrightarrow> (\<forall>x\<in>set xs. has s x)"
    and has_any_iff: "has_any s xs \<longleftrightarrow> (\<exists>x\<in>set xs. has s x)"
    and has_diff: "range_order ord \<Longrightarrow> has (diff ord s s') x \<longleftrightarrow> has s x \<and> \<not> has s' x"
    and has_uni: "range_order ord \<Longrightarrow> has (uni ord s s') x \<longleftrightarrow> has s x \<or> has s' x"
    and has_inter: "range_order ord \<Longrightarrow> has (inter ord s s') x \<longleftrightarrow> has s x \<and> has s' x"
    and superset_iff: "range_order ord \<Longrightarrow> superset ord s s' \<longleftrightarrow> (\<forall>x. has s' x \<longrightarrow> has s x)"
    and equal_iff: "range_order ord \<Longrightarrow> gm_wf s \<Longrightarrow> gm_wf s' \<Longrightarrow> equal_sets ord s s' \<longleftrightarrow> (\<forall>x. has s x \<longleftrightarrow> has s' x)"
    and list_sorted: "range_order ord \<Longrightarrow> gm_wf s \<Longrightarrow> sorted (to_list ord s) \<and> distinct (to_list ord s)"
    and list_has: "range_order ord \<Longrightarrow> x \<in> set (to_list ord s) \<longleftrightarrow> has s x"
    and unsorted_has: "range_order ord \<Longrightarrow> x \<in> set (unsorted ord s) \<longleftrightarrow> has s x"
    and finite_has: "finite {x. has s x}"
    and len_card: "gm_wf s \<Longrightarrow> len s = card {x. has s x}"
    and pop_has: "range_order ord \<Longrightarrow> pop ord s = ((x, found), s') \<Longrightarrow>
      (found \<longleftrightarrow> (\<exists>y. has s y)) \<and> (found \<longrightarrow> has s x \<and> (\<forall>y. has s' y \<longleftrightarrow> has s y \<and> y \<noteq> x))"
begin

text \<open>The sorted list does not depend on the order in which the map is walked, nor on how the set was built.\<close>

lemma list_canonical:
  assumes "range_order ord" "range_order ord'" "gm_wf s" "gm_wf s'" "equal_sets ord s s'"
  shows "to_list ord s = to_list ord' s'"
proof -
  have "set (to_list ord s) = set (to_list ord' s')"
    using assms by (auto simp: list_has equal_iff)
  then show ?thesis
    using list_sorted assms by (intro sorted_distinct_set_unique) simp_all
qed

lemma uni_comm: "range_order ord \<Longrightarrow> equal_sets ord (uni ord s s') (uni ord s' s)"
  by (auto simp: equal_iff wf_ops has_uni)

lemma inter_comm: "range_order ord \<Longrightarrow> equal_sets ord (inter ord s s') (inter ord s' s)"
  by (auto simp: equal_iff wf_ops has_inter)

lemma inter_by_diff: "range_order ord \<Longrightarrow> equal_sets ord (inter ord s s') (diff ord s (diff ord s s'))"
  by (auto simp: equal_iff wf_ops has_inter has_diff)

lemma superset_by_diff: "range_order ord \<Longrightarrow> superset ord s s' \<longleftrightarrow> len (diff ord s' s) = 0"
  using finite_has by (auto simp: superset_iff len_card wf_ops has_diff)

lemma len_uni_inter:
  assumes "range_order ord" "gm_wf s" "gm_wf s'"
  shows "len (uni ord s s') + len (inter ord s s') = len s + len s'"
  using card_Un_Int [OF finite_has [of s] finite_has [of s']] assms(2,3)
  by (simp add: len_card wf_ops has_uni [OF assms(1)] has_inter [OF assms(1)] Collect_disj_eq Collect_conj_eq)

lemma delete_inserted: "gm_wf s \<Longrightarrow> range_order ord \<Longrightarrow> \<not> has_any s xs \<Longrightarrow> equal_sets ord (del xs (ins xs s)) s"
  by (auto simp: equal_iff wf_ins wf_del has_ins has_del has_any_iff)

end

section \<open>The polymorphic set keeps the contract\<close>

lemma wf_fold_Insert: "gm_wf s \<Longrightarrow> gm_wf (fold (\<lambda>k. gs_Insert [k]) ks s)"
  by (induction ks arbitrary: s) simp_all

lemma wf_fold_Insert_if: "gm_wf s \<Longrightarrow> gm_wf (fold (\<lambda>k r. if P k then gs_Insert [k] r else r) ks s)"
  by (induction ks arbitrary: s) simp_all

lemma gs_go_set:
  "go_set NewSet gs_Insert gs_Delete gs_Has gs_HasAll gs_HasAny gs_Difference gs_Union gs_Intersection
     gs_IsSuperset gs_Equal (gs_List :: ('a :: linorder) set_order \<Rightarrow> _) gs_UnsortedList gs_Len (gs_PopAny zero)"
proof
  fix s s' :: "'a gset" and xs :: "'a list" and x :: 'a and ord :: "'a set_order" and found
  show "gm_wf (gs_Difference ord s s')" "gm_wf (gs_Union ord s s')" "gm_wf (gs_Intersection ord s s')"
    by (simp_all add: gs_Difference_def gs_Union_def gs_Intersection_def wf_fold_Insert wf_fold_Insert_if Let_def)
  show "finite {x. gs_Has s x}" by (simp add: members_keys flip: members_def)
  show "gs_Len s = card {x. gs_Has s x}" if "gm_wf s" using gs_Len_card [OF that] by (simp add: members_def)
  show "gs_HasAny s xs \<longleftrightarrow> (\<exists>x\<in>set xs. gs_Has s x)" by (auto simp: gs_HasAny_iff gs_Has_iff)
  assume ord: "range_order ord"
  note ops = members_ops [OF ord]
  show "gs_Has (gs_Difference ord s s') x \<longleftrightarrow> gs_Has s x \<and> \<not> gs_Has s' x"
    "gs_Has (gs_Union ord s s') x \<longleftrightarrow> gs_Has s x \<or> gs_Has s' x"
    "gs_Has (gs_Intersection ord s s') x \<longleftrightarrow> gs_Has s x \<and> gs_Has s' x"
    by (simp_all add: gs_Has_iff ops)
  show "gs_IsSuperset ord s s' \<longleftrightarrow> (\<forall>x. gs_Has s' x \<longrightarrow> gs_Has s x)"
    by (auto simp: gs_IsSuperset_def gs_HasAll_iff keys_order [OF ord] gs_Has_iff)
  show "gs_Equal ord s s' \<longleftrightarrow> (\<forall>x. gs_Has s x \<longleftrightarrow> gs_Has s' x)" if "gm_wf s" "gm_wf s'"
    using gs_Equal_iff [OF ord that] by (auto simp: gs_Has_iff)
  show "sorted (gs_List ord s) \<and> distinct (gs_List ord s)" if "gm_wf s" using gs_List_spec [OF ord that] by simp
  show "x \<in> set (gs_List ord s) \<longleftrightarrow> gs_Has s x" "x \<in> set (gs_UnsortedList ord s) \<longleftrightarrow> gs_Has s x"
    by (simp_all add: gs_List_def gs_UnsortedList_def keys_order [OF ord] gs_Has_iff)
  show "(found \<longleftrightarrow> (\<exists>y. gs_Has s y)) \<and> (found \<longrightarrow> gs_Has s x \<and> (\<forall>y. gs_Has s' y \<longleftrightarrow> gs_Has s y \<and> y \<noteq> x))"
    if "gs_PopAny zero ord s = ((x, found), s')"
    using gs_PopAny_spec [OF ord that] by (auto simp: gs_Has_iff)
qed (auto simp: gs_Has_iff members_NewSet members_Insert members_Delete gs_HasAll_iff)

interpretation string_set: go_set
  "NewSet :: string list \<Rightarrow> _" gs_Insert gs_Delete gs_Has gs_HasAll gs_HasAny gs_Difference gs_Union gs_Intersection
  gs_IsSuperset gs_Equal gs_List gs_UnsortedList gs_Len "gs_PopAny ''''"
  by (rule gs_go_set)

section \<open>sets.Int\<close>

definition NewInt :: "int list \<Rightarrow> int gset" where "NewInt = NewSet"
definition IntKeySet :: "(int, 'v) gomap \<Rightarrow> int gset" where "IntKeySet m = StringKeySet m"
definition Int_Insert :: "int list \<Rightarrow> int gset \<Rightarrow> int gset" where "Int_Insert = gs_Insert"
definition Int_Delete :: "int list \<Rightarrow> int gset \<Rightarrow> int gset" where "Int_Delete = gs_Delete"
definition Int_Has :: "int gset \<Rightarrow> int \<Rightarrow> bool" where "Int_Has = gs_Has"
definition Int_HasAll :: "int gset \<Rightarrow> int list \<Rightarrow> bool" where "Int_HasAll = gs_HasAll"
definition Int_HasAny :: "int gset \<Rightarrow> int list \<Rightarrow> bool" where "Int_HasAny = gs_HasAny"
definition Int_Difference :: "int set_order \<Rightarrow> int gset \<Rightarrow> int gset \<Rightarrow> int gset" where "Int_Difference = gs_Difference"
definition Int_Union :: "int set_order \<Rightarrow> int gset \<Rightarrow> int gset \<Rightarrow> int gset" where "Int_Union = gs_Union"
definition Int_Intersection :: "int set_order \<Rightarrow> int gset \<Rightarrow> int gset \<Rightarrow> int gset" where "Int_Intersection = gs_Intersection"
definition Int_IsSuperset :: "int set_order \<Rightarrow> int gset \<Rightarrow> int gset \<Rightarrow> bool" where "Int_IsSuperset = gs_IsSuperset"
definition Int_Equal :: "int set_order \<Rightarrow> int gset \<Rightarrow> int gset \<Rightarrow> bool" where "Int_Equal = gs_Equal"
definition Int_List :: "int set_order \<Rightarrow> int gset \<Rightarrow> int list" where "Int_List = gs_List"
definition Int_UnsortedList :: "int set_order \<Rightarrow> int gset \<Rightarrow> int list" where "Int_UnsortedList = gs_UnsortedList"
definition Int_Len :: "int gset \<Rightarrow> nat" where "Int_Len = gs_Len"
definition Int_PopAny :: "int set_order \<Rightarrow> int gset \<Rightarrow> (int \<times> bool) \<times> int gset" where "Int_PopAny = gs_PopAny 0"

lemmas Int_set_defs =
  NewInt_def Int_Insert_def Int_Delete_def Int_Has_def Int_HasAll_def
  Int_HasAny_def Int_Difference_def Int_Union_def Int_Intersection_def Int_IsSuperset_def
  Int_Equal_def Int_List_def Int_UnsortedList_def Int_Len_def Int_PopAny_def

interpretation int_set: go_set NewInt Int_Insert Int_Delete Int_Has Int_HasAll Int_HasAny Int_Difference Int_Union
  Int_Intersection Int_IsSuperset Int_Equal Int_List Int_UnsortedList Int_Len Int_PopAny
  unfolding Int_set_defs by (rule gs_go_set)

section \<open>sets.Int32\<close>

definition NewInt32 :: "int list \<Rightarrow> int gset" where "NewInt32 = NewSet"
definition Int32KeySet :: "(int, 'v) gomap \<Rightarrow> int gset" where "Int32KeySet m = StringKeySet m"
definition Int32_Insert :: "int list \<Rightarrow> int gset \<Rightarrow> int gset" where "Int32_Insert = gs_Insert"
definition Int32_Delete :: "int list \<Rightarrow> int gset \<Rightarrow> int gset" where "Int32_Delete = gs_Delete"
definition Int32_Has :: "int gset \<Rightarrow> int \<Rightarrow> bool" where "Int32_Has = gs_Has"
definition Int32_HasAll :: "int gset \<Rightarrow> int list \<Rightarrow> bool" where "Int32_HasAll = gs_HasAll"
definition Int32_HasAny :: "int gset \<Rightarrow> int list \<Rightarrow> bool" where "Int32_HasAny = gs_HasAny"
definition Int32_Difference :: "int set_order \<Rightarrow> int gset \<Rightarrow> int gset \<Rightarrow> int gset" where "Int32_Difference = gs_Difference"
definition Int32_Union :: "int set_order \<Rightarrow> int gset \<Rightarrow> int gset \<Rightarrow> int gset" where "Int32_Union = gs_Union"
definition Int32_Intersection :: "int set_order \<Rightarrow> int gset \<Rightarrow> int gset \<Rightarrow> int gset" where "Int32_Intersection = gs_Intersection"
definition Int32_IsSuperset :: "int set_order \<Rightarrow> int gset \<Rightarrow> int gset \<Rightarrow> bool" where "Int32_IsSuperset = gs_IsSuperset"
definition Int32_Equal :: "int set_order \<Rightarrow> int gset \<Rightarrow> int gset \<Rightarrow> bool" where "Int32_Equal = gs_Equal"
definition Int32_List :: "int set_order \<Rightarrow> int gset \<Rightarrow> int list" where "Int32_List = gs_List"
definition Int32_UnsortedList :: "int set_order \<Rightarrow> int gset \<Rightarrow> int list" where "Int32_UnsortedList = gs_UnsortedList"
definition Int32_Len :: "int gset \<Rightarrow> nat" where "Int32_Len = gs_Len"
definition Int32_PopAny :: "int set_order \<Rightarrow> int gset \<Rightarrow> (int \<times> bool) \<times> int gset" where "Int32_PopAny = gs_PopAny 0"

lemmas Int32_set_defs =
  NewInt32_def Int32_Insert_def Int32_Delete_def Int32_Has_def Int32_HasAll_def
  Int32_HasAny_def Int32_Difference_def Int32_Union_def Int32_Intersection_def Int32_IsSuperset_def
  Int32_Equal_def Int32_List_def Int32_UnsortedList_def Int32_Len_def Int32_PopAny_def

interpretation int32_set: go_set NewInt32 Int32_Insert Int32_Delete Int32_Has Int32_HasAll Int32_HasAny Int32_Difference Int32_Union
  Int32_Intersection Int32_IsSuperset Int32_Equal Int32_List Int32_UnsortedList Int32_Len Int32_PopAny
  unfolding Int32_set_defs by (rule gs_go_set)

section \<open>sets.Int64\<close>

definition NewInt64 :: "int list \<Rightarrow> int gset" where "NewInt64 = NewSet"
definition Int64KeySet :: "(int, 'v) gomap \<Rightarrow> int gset" where "Int64KeySet m = StringKeySet m"
definition Int64_Insert :: "int list \<Rightarrow> int gset \<Rightarrow> int gset" where "Int64_Insert = gs_Insert"
definition Int64_Delete :: "int list \<Rightarrow> int gset \<Rightarrow> int gset" where "Int64_Delete = gs_Delete"
definition Int64_Has :: "int gset \<Rightarrow> int \<Rightarrow> bool" where "Int64_Has = gs_Has"
definition Int64_HasAll :: "int gset \<Rightarrow> int list \<Rightarrow> bool" where "Int64_HasAll = gs_HasAll"
definition Int64_HasAny :: "int gset \<Rightarrow> int list \<Rightarrow> bool" where "Int64_HasAny = gs_HasAny"
definition Int64_Difference :: "int set_order \<Rightarrow> int gset \<Rightarrow> int gset \<Rightarrow> int gset" where "Int64_Difference = gs_Difference"
definition Int64_Union :: "int set_order \<Rightarrow> int gset \<Rightarrow> int gset \<Rightarrow> int gset" where "Int64_Union = gs_Union"
definition Int64_Intersection :: "int set_order \<Rightarrow> int gset \<Rightarrow> int gset \<Rightarrow> int gset" where "Int64_Intersection = gs_Intersection"
definition Int64_IsSuperset :: "int set_order \<Rightarrow> int gset \<Rightarrow> int gset \<Rightarrow> bool" where "Int64_IsSuperset = gs_IsSuperset"
definition Int64_Equal :: "int set_order \<Rightarrow> int gset \<Rightarrow> int gset \<Rightarrow> bool" where "Int64_Equal = gs_Equal"
definition Int64_List :: "int set_order \<Rightarrow> int gset \<Rightarrow> int list" where "Int64_List = gs_List"
definition Int64_UnsortedList :: "int set_order \<Rightarrow> int gset \<Rightarrow> int list" where "Int64_UnsortedList = gs_UnsortedList"
definition Int64_Len :: "int gset \<Rightarrow> nat" where "Int64_Len = gs_Len"
definition Int64_PopAny :: "int set_order \<Rightarrow> int gset \<Rightarrow> (int \<times> bool) \<times> int gset" where "Int64_PopAny = gs_PopAny 0"

lemmas Int64_set_defs =
  NewInt64_def Int64_Insert_def Int64_Delete_def Int64_Has_def Int64_HasAll_def
  Int64_HasAny_def Int64_Difference_def Int64_Union_def Int64_Intersection_def Int64_IsSuperset_def
  Int64_Equal_def Int64_List_def Int64_UnsortedList_def Int64_Len_def Int64_PopAny_def

interpretation int64_set: go_set NewInt64 Int64_Insert Int64_Delete Int64_Has Int64_HasAll Int64_HasAny Int64_Difference Int64_Union
  Int64_Intersection Int64_IsSuperset Int64_Equal Int64_List Int64_UnsortedList Int64_Len Int64_PopAny
  unfolding Int64_set_defs by (rule gs_go_set)

section \<open>sets.Byte\<close>

definition NewByte :: "8 word list \<Rightarrow> 8 word gset" where "NewByte = NewSet"
definition ByteKeySet :: "((8 word), 'v) gomap \<Rightarrow> 8 word gset" where "ByteKeySet m = StringKeySet m"
definition Byte_Insert :: "8 word list \<Rightarrow> 8 word gset \<Rightarrow> 8 word gset" where "Byte_Insert = gs_Insert"
definition Byte_Delete :: "8 word list \<Rightarrow> 8 word gset \<Rightarrow> 8 word gset" where "Byte_Delete = gs_Delete"
definition Byte_Has :: "8 word gset \<Rightarrow> (8 word) \<Rightarrow> bool" where "Byte_Has = gs_Has"
definition Byte_HasAll :: "8 word gset \<Rightarrow> 8 word list \<Rightarrow> bool" where "Byte_HasAll = gs_HasAll"
definition Byte_HasAny :: "8 word gset \<Rightarrow> 8 word list \<Rightarrow> bool" where "Byte_HasAny = gs_HasAny"
definition Byte_Difference :: "8 word set_order \<Rightarrow> 8 word gset \<Rightarrow> 8 word gset \<Rightarrow> 8 word gset" where "Byte_Difference = gs_Difference"
definition Byte_Union :: "8 word set_order \<Rightarrow> 8 word gset \<Rightarrow> 8 word gset \<Rightarrow> 8 word gset" where "Byte_Union = gs_Union"
definition Byte_Intersection :: "8 word set_order \<Rightarrow> 8 word gset \<Rightarrow> 8 word gset \<Rightarrow> 8 word gset" where "Byte_Intersection = gs_Intersection"
definition Byte_IsSuperset :: "8 word set_order \<Rightarrow> 8 word gset \<Rightarrow> 8 word gset \<Rightarrow> bool" where "Byte_IsSuperset = gs_IsSuperset"
definition Byte_Equal :: "8 word set_order \<Rightarrow> 8 word gset \<Rightarrow> 8 word gset \<Rightarrow> bool" where "Byte_Equal = gs_Equal"
definition Byte_List :: "8 word set_order \<Rightarrow> 8 word gset \<Rightarrow> 8 word list" where "Byte_List = gs_List"
definition Byte_UnsortedList :: "8 word set_order \<Rightarrow> 8 word gset \<Rightarrow> 8 word list" where "Byte_UnsortedList = gs_UnsortedList"
definition Byte_Len :: "8 word gset \<Rightarrow> nat" where "Byte_Len = gs_Len"
definition Byte_PopAny :: "8 word set_order \<Rightarrow> 8 word gset \<Rightarrow> ((8 word) \<times> bool) \<times> 8 word gset" where "Byte_PopAny = gs_PopAny 0"

lemmas Byte_set_defs =
  NewByte_def Byte_Insert_def Byte_Delete_def Byte_Has_def Byte_HasAll_def
  Byte_HasAny_def Byte_Difference_def Byte_Union_def Byte_Intersection_def Byte_IsSuperset_def
  Byte_Equal_def Byte_List_def Byte_UnsortedList_def Byte_Len_def Byte_PopAny_def

interpretation byte_set: go_set NewByte Byte_Insert Byte_Delete Byte_Has Byte_HasAll Byte_HasAny Byte_Difference Byte_Union
  Byte_Intersection Byte_IsSuperset Byte_Equal Byte_List Byte_UnsortedList Byte_Len Byte_PopAny
  unfolding Byte_set_defs by (rule gs_go_set)

end
