(* ===== verification/GRS_Batch.thy ===== *)
theory GRS_Batch
  imports GRS_Interface GRS_Ring
begin

text \<open>
  Batches of node events: what \<open>process_all\<close> (the calls of \<open>processNodeEvent\<close> that one
  \<open>ProcessNodeEvents\<close> makes, nodestore.go) leaves in a slot of a store, in the table of resource
  versions and in the queue of a client, as functions of the batch alone. Also the layout of the
  store table that \<open>createNodeStore\<close> (distributor.go) builds: which location store \<open>i\<close> has.
\<close>

section \<open>A batch as a function of its events\<close>

definition changes :: "ManagedNodeEvent \<Rightarrow> bool" where
  "changes e \<longleftrightarrow> GetEventType e = Added \<or> GetEventType e = Modified"

lemma processNodeEvent_skip:
  "\<not> changes e \<Longrightarrow> processNodeEvent e w = Inr (False, w)"
  by (simp add: changes_def processNodeEvent_other)

lemma processNodeEvent_changes:
  assumes "processNodeEvent e (ns, h) = Inr (b, ns', h')"
  shows "b = changes e"
proof (cases "changes e")
  case True
  then show ?thesis
    using assms by (simp add: changes_def processNodeEvent_def Let_def split: sum.splits prod.splits if_splits)
qed (use assms processNodeEvent_skip [of e "(ns, h)"] in simp)

lemma processNodeEvent_slot:
  assumes "processNodeEvent e (ns, h) = Inr (b, ns', h')"
  shows "slot_of ns' k i =
      (if changes e \<and> getVirtualNodeStore e ns = Inr (k, i) then absorb e (slot_of ns k i) else slot_of ns k i)"
    and "rv_of ns' loc = (if changes e \<and> loc = GetLocation e then max (rv_of ns loc) (GetResourceVersion e) else rv_of ns loc)"
    and "getVirtualNodeStore e' ns' = getVirtualNodeStore e' ns"
proof -
  have "slot_of ns' k i =
      (if changes e \<and> getVirtualNodeStore e ns = Inr (k, i) then absorb e (slot_of ns k i) else slot_of ns k i) \<and>
    rv_of ns' loc = (if changes e \<and> loc = GetLocation e then max (rv_of ns loc) (GetResourceVersion e) else rv_of ns loc) \<and>
    getVirtualNodeStore e' ns' = getVirtualNodeStore e' ns"
  proof (cases "changes e")
    case True
    then have b: "processNodeEvent e (ns, h) = Inr (True, ns', h')"
      using assms processNodeEvent_changes [OF assms] by simp
    from processNodeEvent_Inr [OF b] obtain k' i' where
      v: "getVirtualNodeStore e ns = Inr (k', i')" and u: "update_rv e (ring_store e k' i' ns) = Inr ns'"
      by metis
    have "i' < length (vNodeStores ns)" using getVirtualNodeStore_Inr(1) [OF v] .
    then show ?thesis
      using True v update_rv_frame(6,7) [OF u] update_rv_of [OF u, of loc] slot_of_ring_store [of i' ns e k' k i]
      by auto
  qed (use assms processNodeEvent_skip [of e "(ns, h)"] in simp)
  then show "slot_of ns' k i =
      (if changes e \<and> getVirtualNodeStore e ns = Inr (k, i) then absorb e (slot_of ns k i) else slot_of ns k i)"
    "rv_of ns' loc = (if changes e \<and> loc = GetLocation e then max (rv_of ns loc) (GetResourceVersion e) else rv_of ns loc)"
    "getVirtualNodeStore e' ns' = getVirtualNodeStore e' ns" by simp_all
qed

definition slot_history :: "NodeStore \<Rightarrow> f64 \<Rightarrow> nat \<Rightarrow> ManagedNodeEvent list \<Rightarrow> ManagedNodeEvent list" where
  "slot_history ns k i es = filter (\<lambda>e. changes e \<and> getVirtualNodeStore e ns = Inr (k, i)) es"

definition rv_history :: "Location \<Rightarrow> ManagedNodeEvent list \<Rightarrow> uint64 list" where
  "rv_history loc es = map GetResourceVersion (filter (\<lambda>e. changes e \<and> GetLocation e = loc) es)"

lemma process_all_Cons_Inr:
  assumes "process_all (e # es) (ns, h) = Inr (ns', h')"
  obtains b ns1 h1 where "processNodeEvent e (ns, h) = Inr (b, ns1, h1)" "process_all es (ns1, h1) = Inr (ns', h')"
  using assms by (auto split: sum.splits)

lemma process_all_slot:
  "process_all es (ns, h) = Inr (ns', h') \<Longrightarrow> slot_of ns' k i = fold absorb (slot_history ns k i es) (slot_of ns k i)"
proof (induction es arbitrary: ns h)
  case (Cons e es)
  from Cons.prems obtain b ns1 h1 where
    e: "processNodeEvent e (ns, h) = Inr (b, ns1, h1)" and r: "process_all es (ns1, h1) = Inr (ns', h')"
    by (rule process_all_Cons_Inr)
  have "slot_history ns1 = slot_history ns"
    by (simp add: slot_history_def fun_eq_iff processNodeEvent_slot(3) [OF e])
  then show ?case
    using Cons.IH [OF r] processNodeEvent_slot(1) [OF e, of k i] by (simp add: slot_history_def)
qed (simp add: slot_history_def)

lemma process_all_rv:
  "process_all es (ns, h) = Inr (ns', h') \<Longrightarrow> rv_of ns' loc = Max (insert (rv_of ns loc) (set (rv_history loc es)))"
proof (induction es arbitrary: ns h)
  case (Cons e es)
  from Cons.prems obtain b ns1 h1 where
    e: "processNodeEvent e (ns, h) = Inr (b, ns1, h1)" and r: "process_all es (ns1, h1) = Inr (ns', h')"
    by (rule process_all_Cons_Inr)
  have m: "Max (insert (max a v) A) = Max (insert a (insert v A))" if "finite A" for a v :: uint64 and A
    using that by (cases "A = {}") (simp_all add: max.assoc)
  show ?case
    using Cons.IH [OF r] processNodeEvent_slot(2) [OF e, of loc] by (simp add: rv_history_def m)
qed (simp add: rv_history_def)

section \<open>Absorbing a history\<close>

text \<open>After an addition a slot is never empty again, and it holds the last node that won.\<close>

lemma absorb_Some: "absorb e old \<noteq> None"
  by (auto simp: absorb_def split: option.splits)

lemma fold_absorb_source:
  "fold absorb es old = Some n \<Longrightarrow> n \<in> set es \<or> old = Some n"
proof (induction es arbitrary: old)
  case (Cons e es)
  then have "n \<in> set es \<or> absorb e old = Some n" by simp
  then show ?case by (auto simp: absorb_def split: option.splits if_splits)
qed simp

lemma fold_absorb_same_id:
  assumes "\<forall>e\<in>set es. GetId e = i" "\<forall>n. old = Some n \<longrightarrow> GetId n = i" "fold absorb es old = Some n"
  shows "GetId n = i \<and> (\<forall>e\<in>set es. GetResourceVersion e \<le> GetResourceVersion n) \<and>
    (\<forall>o'. old = Some o' \<longrightarrow> GetResourceVersion o' \<le> GetResourceVersion n)"
  using assms
proof (induction es arbitrary: old)
  case (Cons e es)
  have a: "\<exists>m. absorb e old = Some m \<and> GetId m = i \<and> GetResourceVersion e \<le> GetResourceVersion m \<and>
      (\<forall>o'. old = Some o' \<longrightarrow> GetResourceVersion o' \<le> GetResourceVersion m)"
    using Cons.prems(1,2) by (cases old) (auto simp: absorb_def)
  then obtain m where m: "absorb e old = Some m" "GetId m = i" "GetResourceVersion e \<le> GetResourceVersion m"
    "\<forall>o'. old = Some o' \<longrightarrow> GetResourceVersion o' \<le> GetResourceVersion m" by blast
  have "GetId n = i \<and> (\<forall>e\<in>set es. GetResourceVersion e \<le> GetResourceVersion n) \<and>
      (\<forall>o'. Some m = Some o' \<longrightarrow> GetResourceVersion o' \<le> GetResourceVersion n)"
    using Cons.IH [of "Some m"] Cons.prems m by simp
  then show ?case using m by (auto intro: order_trans)
qed simp


section \<open>The store table of the distributor\<close>

definition store_table :: "NodeStore \<Rightarrow> bool" where
  "store_table ns \<longleftrightarrow> granularOfRing ns = default_gran \<and> length (vNodeStores ns) = 360000 \<and>
     regionNum ns = 9 \<and> partitionMaxNum ns = 40 \<and>
     (\<forall>i<360000. valid_location (vs_location (vNodeStores ns ! i)) \<and>
        loc_index (vs_location (vNodeStores ns ! i)) = int i div 1000)"

lemma createNodeStore_table: "\<exists>ns. createNodeStore = Inr ns \<and> store_table ns \<and> NodeStore_inv ns []"
proof -
  obtain ns where ns: "NewNodeStore 1000 9 40 = Inr ns"
    "granularOfRing ns = f64_div RingRange (f64_of_int (int (1000 * 9 * 40)))"
    "regionNum ns = 9" "partitionMaxNum ns = 40" "length (vNodeStores ns) = 1000 * 9 * 40"
    "\<And>k m i. k < 9 \<Longrightarrow> m < 40 \<Longrightarrow> i < 1000 \<Longrightarrow>
       fresh_store (nth_location k m) (vNodeStores ns ! (k * (40 * 1000) + (m * 1000 + i)))"
    using NewNodeStore_ok [of 1000 9 40 thesis] by auto
  have loc: "vs_location (vNodeStores ns ! i) = nth_location (i div 40000) (i mod 40000 div 1000)"
    if "i < 360000" for i
  proof -
    have "i div 40000 * (40 * 1000) + (i mod 40000 div 1000 * 1000 + i mod 1000) = i"
      using div_mult_mod_eq [of i 40000] div_mult_mod_eq [of "i mod 40000" 1000]
        mod_mod_cancel [of 1000 40000 i] by simp
    then show ?thesis
      using ns(6) [of "i div 40000" "i mod 40000 div 1000" "i mod 1000"] that
      by (simp add: fresh_store_def less_mult_imp_div_less)
  qed
  have "valid_location (vs_location (vNodeStores ns ! i)) \<and> loc_index (vs_location (vNodeStores ns ! i)) = int i div 1000"
    if i: "i < 360000" for i
  proof -
    have "i div 1000 = 40 * (i div 40000) + i mod 40000 div 1000"
      using div_mult2_eq [of i 1000 40] mod_mult2_eq [of i 1000 40] div_mult_mod_eq [of "i div 1000" 40]
      by simp
    then have "int i div 1000 = 40 * int (i div 40000) + int (i mod 40000 div 1000)"
      by (metis of_nat_add of_nat_mult of_nat_numeral zdiv_int)
    then show ?thesis
      using i by (simp add: loc [OF i] nth_location_def valid_location_def loc_index_def less_mult_imp_div_less)
  qed
  then show ?thesis
    using ns(1-5) NewNodeStore_inv [OF ns(1)]
    by (simp add: createNodeStore_def virutalStoreNumPerResourcePartition_def store_table_def default_gran_def)
qed

lemma store_table_meta: "store_table ns \<Longrightarrow> same_meta ns ns' \<Longrightarrow> store_table ns'"
  by (simp add: store_table_def same_meta_def)

lemma div_block: "1000 * l \<le> int i \<Longrightarrow> int i < 1000 * (l + 1) \<Longrightarrow> int i div 1000 = l"
  using int_div_pos_eq [of "int i" 1000 l "int i - 1000 * l"] by simp

lemma store_of_event:
  assumes t: "store_table ns" and e: "valid_location (GetLocation e)"
    and h: "HashStrToUInt64 (GetId e) \<noteq> 0" "uint (HashStrToUInt64 (GetId e)) \<le> 2 ^ 64 - 2 ^ 20"
  shows "\<exists>i. getVirtualNodeStore e ns = Inr (getNodeHash e, i) \<and> i < 360000 \<and>
    vs_location (vNodeStores ns ! i) = GetLocation e"
proof -
  obtain i where i: "getVirtualNodeStore e ns = Inr (getNodeHash e, i)"
    "1000 * loc_index (GetLocation e) \<le> int i" "int i < 1000 * (loc_index (GetLocation e) + 1)"
    using node_store_index [OF _ _ e h, of ns] t by (auto simp: store_table_def)
  have l: "i < 360000" using getVirtualNodeStore_Inr(1) [OF i(1)] t by (simp add: store_table_def)
  then have "loc_index (vs_location (vNodeStores ns ! i)) = loc_index (GetLocation e)"
    "valid_location (vs_location (vNodeStores ns ! i))"
    using t div_block [OF i(2,3)] by (simp_all add: store_table_def)
  then show ?thesis using i(1) l loc_index_inj [OF _ e] by blast
qed

lemma store_of_zero_hash:
  assumes t: "store_table ns" and e: "valid_location (GetLocation e)" and h: "HashStrToUInt64 (GetId e) = 0"
  shows "loc_index (GetLocation e) = 359 \<Longrightarrow> getVirtualNodeStore e ns = Inl (Panicked IndexOutOfRange)"
    and "loc_index (GetLocation e) < 359 \<Longrightarrow>
      \<exists>i. getVirtualNodeStore e ns = Inr (getNodeHash e, i) \<and>
        loc_index (vs_location (vNodeStores ns ! i)) = loc_index (GetLocation e) + 1"
proof -
  have q: "\<lfloor>f64_div (getNodeHash e) (granularOfRing ns)\<rfloor> = 1000 * (loc_index (GetLocation e) + 1)"
  proof -
    have g: "granularOfRing ns = default_gran" using t by (simp add: store_table_def)
    show ?thesis by (simp only: zero_hash_index [OF e h g] floor_of_int)
  qed
  have len: "length (vNodeStores ns) = 360000" using t by (simp add: store_table_def)
  show "getVirtualNodeStore e ns = Inl (Panicked IndexOutOfRange)" if "loc_index (GetLocation e) = 359"
    unfolding getVirtualNodeStore_def Let_def q len using that by simp
  show "\<exists>i. getVirtualNodeStore e ns = Inr (getNodeHash e, i) \<and>
        loc_index (vs_location (vNodeStores ns ! i)) = loc_index (GetLocation e) + 1"
    if "loc_index (GetLocation e) < 359"
  proof -
    define i where "i = nat (1000 * (loc_index (GetLocation e) + 1))"
    have b: "0 \<le> loc_index (GetLocation e)" using loc_index_bounds [OF e] by simp
    have i: "int i = 1000 * (loc_index (GetLocation e) + 1)" "i < 360000"
      using b that by (simp_all add: i_def)
    have "getVirtualNodeStore e ns = Inr (getNodeHash e, i)"
      unfolding getVirtualNodeStore_def Let_def q len i_def using b that by simp
    moreover have "loc_index (vs_location (vNodeStores ns ! i)) = loc_index (GetLocation e) + 1"
      using t i by (simp add: store_table_def)
    ultimately show ?thesis by blast
  qed
qed


text \<open>A location outside the table cannot be booked: the versions table has no row for it.\<close>

lemma processNodeEvent_invalid_location:
  assumes "rvs_shape ns" "regionNum ns \<le> 9" "partitionMaxNum ns \<le> 40" "changes e" "\<not> valid_location (GetLocation e)"
  shows "processNodeEvent e (ns, h) = Inl (Panicked IndexOutOfRange)"
proof (cases "getVirtualNodeStore e ns")
  case (Inl err)
  then have "err = Panicked IndexOutOfRange" by (simp add: getVirtualNodeStore_def Let_def split: if_splits)
  then show ?thesis using processNodeEvent_bad_index [OF Inl] assms(4) by (simp add: changes_def)
next
  case (Inr ki)
  obtain k i where v: "getVirtualNodeStore e ns = Inr (k, i)" using Inr by (cases ki) simp
  let ?l = "GetLocation e"
  have "rv_index ?l (ring_store e k i ns) = Inl (Panicked IndexOutOfRange)"
  proof (cases "rv_index ?l (ring_store e k i ns)")
    case (Inl err)
    then show ?thesis by (simp add: rv_index_def Let_def split: if_splits)
  next
    case (Inr rp)
    then obtain r p where "rv_index ?l (ring_store e k i ns) = Inr (r, p)" by (cases rp) simp
    then have "?l = nth_location r p" "r < 9" "p < 40"
      using assms(1-3) unfolding rv_index_Inr by (auto simp: rvs_shape_def)
    then show ?thesis using assms(5) by (simp add: nth_location_def valid_location_def)
  qed
  then show ?thesis using processNodeEvent_eq [OF v, of h] assms(4) by (simp add: changes_def update_rv_def)
qed

section \<open>What reaches the queue of a client\<close>

lemma notify_queue_events:
  assumes "queues_linked ns h" "vs \<in> set (vNodeStores ns)" "p < length h"
  shows "queue_events (notify_queue e vs h ! p) loc =
    (if vs_eventQueue vs = Some p \<and> loc = GetLocation e
     then lastn LengthOfNodeEventQueue (queue_events (h ! p) loc @ [e]) else queue_events (h ! p) loc)"
proof (cases "vs_eventQueue vs")
  case (Some q)
  then have "q < length h" using assms(1,2) by (auto simp: queues_linked_def)
  moreover have "NodeEventQueue_wf (h ! p)" using assms(1,3) by (auto simp: queues_linked_def)
  ultimately show ?thesis
    using Some assms(3) by (auto simp: notify_queue_def heap_enqueue_def nth_list_update queue_events_enqueue)
qed (simp add: notify_queue_def)

lemma queues_linked_notify:
  "queues_linked ns h \<Longrightarrow> vs \<in> set (vNodeStores ns) \<Longrightarrow> queues_linked ns (notify_queue e vs h)"
  using notify_queue_wf [of h vs e] by (auto simp: queues_linked_def)

lemma notify_queue_pow_events:
  assumes "queues_linked ns h" "vs \<in> set (vNodeStores ns)" "p < length h"
    and cap: "length (queue_events (h ! p) loc) \<le> LengthOfNodeEventQueue"
  shows "queue_events ((notify_queue e vs ^^ n) h ! p) loc =
    (if vs_eventQueue vs = Some p \<and> loc = GetLocation e
     then lastn LengthOfNodeEventQueue (queue_events (h ! p) loc @ replicate n e)
     else queue_events (h ! p) loc) \<and> queues_linked ns ((notify_queue e vs ^^ n) h) \<and>
     length ((notify_queue e vs ^^ n) h) = length h"
proof (induction n)
  case 0
  then show ?case using assms by (auto simp: lastn_id)
next
  case (Suc n)
  let ?h = "(notify_queue e vs ^^ n) h"
  have "queue_events (notify_queue e vs ?h ! p) loc =
    (if vs_eventQueue vs = Some p \<and> loc = GetLocation e
     then lastn LengthOfNodeEventQueue (queue_events (?h ! p) loc @ [e]) else queue_events (?h ! p) loc)"
    using Suc assms(2,3) by (intro notify_queue_events) simp_all
  then show ?case
    using Suc queues_linked_notify [of ns ?h vs e] assms(2)
    by (auto simp: lastn_lastn_append replicate_append_same [symmetric])
qed

lemma queue_events_cap:
  assumes "NodeEventQueue_wf eq" shows "length (queue_events eq loc) \<le> LengthOfNodeEventQueue"
proof (cases "gm_get (eventQueueByLoc eq) loc")
  case (Some q)
  then have "queueByLoc_wf q" "queue_events eq loc = queueByLoc_events q"
    using assms by (auto simp: NodeEventQueue_wf_def queue_events_def)
  then show ?thesis by (simp add: queueByLoc_events_length queueByLoc_wf_def le_diff_conv add.commute)
qed (simp add: queue_events_def)

lemma processNodeEvent_queues:
  assumes inv: "NodeStore_inv ns h" and p: "processNodeEvent e (ns, h) = Inr (True, ns', h')"
    and v: "getVirtualNodeStore e ns = Inr (k, i)" and q: "q < length h"
  shows "queue_events (h' ! q) loc =
    (if vs_eventQueue (vNodeStores ns ! i) = Some q \<and> loc = GetLocation e
     then lastn LengthOfNodeEventQueue (queue_events (h ! q) loc @ replicate (ring_notifications e k i ns) e)
     else queue_events (h ! q) loc)"
proof -
  have l: "queues_linked ns h" using inv by (simp add: NodeStore_inv_def)
  have "h' = (notify_queue e (vNodeStores ns ! i) ^^ ring_notifications e k i ns) h"
    using processNodeEvent_Inr [OF p] v by (metis Inr_inject prod.inject)
  moreover have "vNodeStores ns ! i \<in> set (vNodeStores ns)" using getVirtualNodeStore_Inr(1) [OF v] by simp
  moreover have "NodeEventQueue_wf (h ! q)" using l q by (simp add: queues_linked_def)
  ultimately show ?thesis
    using notify_queue_pow_events [OF l _ q queue_events_cap] by simp
qed

text \<open>A batch never empties the table of the stores: no step changes where a node is looked up.\<close>

lemma process_all_length:
  assumes "process_all es (ns, h) = Inr (ns', h')" "NodeStore_inv ns h"
  shows "NodeStore_inv ns' h'" "length h' = length h" "same_meta ns ns'"
  using process_all_inv [OF assms] by simp_all


lemma absorb_added:
  "GetEventType e = Added \<Longrightarrow>
    \<exists>m. absorb e old = Some m \<and> GetId m = GetId e \<and> GetResourceVersion e \<le> GetResourceVersion m"
  by (auto simp: absorb_def split: option.splits)


section \<open>Waiting for the batch to be persisted\<close>

definition batches_nonempty :: "'s PersistWorld \<Rightarrow> bool" where
  "batches_nonempty w \<longleftrightarrow> (\<forall>r\<in>set (running w). fst r \<noteq> [])"

lemma pstep_nonempty:
  assumes "pstep si w w'" "wait_balanced w" "batches_nonempty w"
  shows "batches_nonempty w'"
  using assms(1)
proof cases
  case (attempt j)
  obtain nodes r ok s' where S: "running w ! j = (nodes, r)"
    "running w' = (if ok \<or> r \<ge> 5 then take j (running w) @ drop (Suc j) (running w)
                   else take j (running w) @ (nodes, r + 1) # drop (Suc j) (running w))"
    using persist_attempt_Inr [OF attempt(2,1) assms(2)] by metis
  have "nodes \<noteq> []" using assms(3) S(1) attempt(1) by (metis batches_nonempty_def fst_conv nth_mem)
  then show ?thesis
    using assms(3) S(2) by (auto simp: batches_nonempty_def dest: in_set_takeD in_set_dropD)
qed

lemma psteps_nonempty:
  "(pstep si ^^ n) w w' \<Longrightarrow> wait_balanced w \<Longrightarrow> retries_ok w \<Longrightarrow> batches_nonempty w \<Longrightarrow>
    wait_balanced w' \<and> batches_nonempty w'"
proof (induction n arbitrary: w')
  case (Suc n)
  then obtain v where v: "(pstep si ^^ n) w v" "pstep si v w'" by auto
  then show ?case
    using Suc.IH [OF v(1) Suc.prems(2-4)] pstep_nonempty [OF v(2)] pstep_bounded [OF Suc.prems(1-3)] by blast
qed simp

context store_provider
begin

lemma psteps_inv:
  "(pstep si ^^ n) w w' \<Longrightarrow> inv (pw_store w) \<Longrightarrow> wait_balanced w \<Longrightarrow> retries_ok w \<Longrightarrow> inv (pw_store w')"
proof (induction n arbitrary: w')
  case (Suc n)
  then obtain v where v: "(pstep si ^^ n) w v" "pstep si v w'" by auto
  then show ?case
    using Suc.IH [OF v(1) Suc.prems(2-4)] pstep_inv [OF v(2)] pstep_bounded [OF v(1) Suc.prems(3,4)] by blast
qed simp

lemma wait_terminates:
  assumes "(pstep si ^^ n) w w'" "inv (pw_store w)" "wait_balanced w" "retries_ok w" "batches_nonempty w"
  shows "n \<le> attempts_left w" "WaitForAllNodesSaved_returns w' \<longleftrightarrow> \<not> (\<exists>w''. pstep si w' w'')"
proof -
  show "n \<le> attempts_left w" using pstep_bounded [OF assms(1,3,4)] by simp
  have i: "inv (pw_store w')" by (rule psteps_inv [OF assms(1-4)])
  have b: "wait_balanced w'" "batches_nonempty w'" using psteps_nonempty [OF assms(1,3-5)] by simp_all
  have "WaitForAllNodesSaved_returns w' \<longleftrightarrow> running w' = []"
    using wait_over [OF b(1)] b(2) by (simp add: batches_nonempty_def)
  then show "WaitForAllNodesSaved_returns w' \<longleftrightarrow> \<not> (\<exists>w''. pstep si w' w'')"
    using pstep_enabled [OF i b(1)] by (auto elim: pstep.cases)
qed

end

lemma saved_nodes:
  "map node_of (non_nil (events_to_process enabled now i es)) =
     map (ne_Node \<circ> the) (takeWhile (\<lambda>e. e \<noteq> None) es)"
proof (induction es arbitrary: i)
  case (Cons e es)
  have "non_nil (replicate n None) = []" for n by (induction n) simp_all
  then show ?case
    using Cons by (cases e) (auto simp: managed_event_def node_of_def NewManagedNodeEvent_def GetNodeEvent_def Let_def)
qed simp

lemma ProcessEvents_start_Inr:
  assumes "dis_inv dis" "ProcessEvents_start si enabled now events dis = Inr (r, d, w)"
  obtains ns' h' bs where
    "process_all (non_nil (events_to_process enabled now 0 events)) (defaultNodeStore dis, dis_queues dis) = Inr (ns', h')"
    "r = (True, GetCurrentResourceVersions ns')"
    "d = dis\<lparr>defaultNodeStore := ns', dis_queues := h', dis_store := pw_store w\<rparr>"
    "wait_balanced w" "retries_ok w" "batches_nonempty w" "running w = map (\<lambda>b. (b, 0)) bs"
    "\<forall>b\<in>set bs. length b \<le> BatchPersistSize"
    "concat bs = map (ne_Node \<circ> the) (takeWhile (\<lambda>e. e \<noteq> None) events)"
    "pw_store w = snd (si_PersistNodeStoreStatus si (getNodeStoreStatus ns') (dis_store dis))"
    "\<And>s. dis_inv (dis\<lparr>defaultNodeStore := ns', dis_queues := h', dis_store := s\<rparr>)"
proof -
  let ?es = "non_nil (events_to_process enabled now 0 events)"
  obtain ns' h' where ok: "process_all ?es (defaultNodeStore dis, dis_queues dis) = Inr (ns', h')"
    using assms(2) ProcessEvents_start_Inl [of enabled now events dis _ si]
    by (cases "process_all ?es (defaultNodeStore dis, dis_queues dis)") auto
  obtain w1 bs where S: "ProcessEvents_start si enabled now events dis =
       Inr ((True, GetCurrentResourceVersions ns'),
            dis\<lparr>defaultNodeStore := ns', dis_queues := h', dis_store := pw_store w1\<rparr>, w1)"
    "wait_balanced w1" "retries_ok w1" "running w1 = map (\<lambda>b. (b, 0)) bs"
    "pw_store w1 = snd (si_PersistNodeStoreStatus si (getNodeStoreStatus ns') (dis_store dis))"
    "concat bs = map node_of ?es" "\<forall>b\<in>set bs. b \<noteq> [] \<and> length b \<le> BatchPersistSize"
    "\<And>s. dis_inv (dis\<lparr>defaultNodeStore := ns', dis_queues := h', dis_store := s\<rparr>)"
    using ProcessEvents_start_ok [OF assms(1) ok, where si = si] by metis
  have w: "w1 = w" using assms(2) S(1) by simp
  show ?thesis
  proof (rule that [OF ok])
    show "batches_nonempty w" using S(4,7) by (auto simp: w batches_nonempty_def)
    show "concat bs = map (ne_Node \<circ> the) (takeWhile (\<lambda>e. e \<noteq> None) events)"
      using S(6) by (simp only: saved_nodes)
    show "dis_inv (dis\<lparr>defaultNodeStore := ns', dis_queues := h', dis_store := s\<rparr>)" for s by (rule S(8))
  qed (use assms(2) S in \<open>auto simp: w\<close>)
qed

lemma attempts_of_fresh: "running w = map (\<lambda>b. (b, 0)) bs \<Longrightarrow> attempts_left w = 6 * length bs"
  by (simp add: attempts_left_def o_def sum_list_triv)


context store_provider
begin

lemma wait_reached:
  assumes "inv (pw_store w)" "wait_balanced w" "retries_ok w" "batches_nonempty w"
  shows "\<exists>n w'. (pstep si ^^ n) w w' \<and> WaitForAllNodesSaved_returns w'"
  using assms
proof (induction "attempts_left w" arbitrary: w rule: less_induct)
  case less
  show ?case
  proof (cases "running w = []")
    case True
    then have "WaitForAllNodesSaved_returns w" using wait_over [OF less.prems(2)] by simp
    then show ?thesis by (intro exI [of _ 0] exI [of _ w]) simp
  next
    case False
    then obtain v where v: "pstep si w v" using pstep_enabled [OF less.prems(1,2)] by blast
    obtain n w' where "(pstep si ^^ n) v w'" "WaitForAllNodesSaved_returns w'"
      using less.hyps [of v] pstep_progress [OF v less.prems(2,3)] pstep_inv [OF v less.prems(1,2)]
        pstep_nonempty [OF v less.prems(2,4)] by blast
    then show ?thesis using v by (meson relpowp_Suc_I2)
  qed
qed

lemma run_goroutines_total:
  "inv (pw_store w) \<Longrightarrow> wait_balanced w \<Longrightarrow> retries_ok w \<Longrightarrow> \<exists>w'. run_goroutines fuel si w = Inr w'"
proof (induction fuel arbitrary: w)
  case (Suc fuel)
  show ?case
  proof (cases "running w = []")
    case False
    obtain v where v: "persist_attempt si 0 w = Inr v" using first_attempt [OF Suc.prems(1,2) False] by blast
    have p: "pstep si w v" using False v by (intro pstep.attempt [of 0]) simp_all
    then show ?thesis
      using Suc.IH [of v] pstep_inv [OF p Suc.prems(1,2)] pstep_progress [OF p Suc.prems(2,3)] v by simp
  qed simp
qed simp

lemma events_processed:
  assumes "dis_inv dis" "inv (dis_store dis)"
    and "process_all (non_nil (events_to_process enabled now 0 events)) (defaultNodeStore dis, dis_queues dis) = Inr st"
  shows "\<exists>r dis'. ProcessEvents_fun si enabled now events dis = Inr (r, dis')"
proof -
  obtain ns' h' where ok: "process_all (non_nil (events_to_process enabled now 0 events)) (defaultNodeStore dis, dis_queues dis) =
      Inr (ns', h')" using assms(3) by (cases st) simp
  obtain r d w where s: "ProcessEvents_start si enabled now events dis = Inr (r, d, w)"
    "wait_balanced w" "retries_ok w"
    "pw_store w = snd (si_PersistNodeStoreStatus si (getNodeStoreStatus ns') (dis_store dis))"
    using ProcessEvents_start_ok [OF assms(1) ok, where si = si] by metis
  have "inv (pw_store w)" unfolding s(4) by (rule persist_status_inv [OF assms(2)])
  then show ?thesis
    using run_goroutines_total [OF _ s(2,3), of "attempts_left w"] s(1) by (auto simp: ProcessEvents_fun_def)
qed

end

lemmas ProcessEvents_fun_total = fake.events_processed

lemma ProcessEvents_returns:
  assumes "ProcessEvents_start fake_store enabled now events dis = Inr (r, d, w)" "dis_inv dis" "fs_ready (dis_store dis)"
  shows "\<exists>dis'. ProcessEvents fake_store enabled now events dis r dis'"
proof (rule ProcessEvents_start_Inr [OF assms(2,1)])
  fix ns'
  assume w: "wait_balanced w" "retries_ok w" "batches_nonempty w"
    and s: "pw_store w = snd (si_PersistNodeStoreStatus fake_store (getNodeStoreStatus ns') (dis_store dis))"
  have "fs_ready (pw_store w)" unfolding s by (rule fake.persist_status_inv [OF assms(3)])
  from fake.wait_reached [OF this w] obtain n w' where
    "(pstep fake_store ^^ n) w w'" "WaitForAllNodesSaved_returns w'" by blast
  then show ?thesis using ProcessEvents.returns [OF assms(1)] by (blast dest: relpowp_imp_rtranclp)
qed

end
