(* ===== verification/Go_Net.thy ===== *)
theory Go_Net
  imports Go_Strconv GRS_Prelude
begin

text \<open>
  The parts of Go's standard library that the REST client uses on strings: \<open>path.Clean\<close> and
  \<open>path.Join\<close>, \<open>url.Values\<close> with \<open>Encode\<close>, header keys of \<open>http.Header\<close>, and the text of a
  \<open>time.Duration\<close>. Bytes are characters; \<open>to_lower\<close> treats ASCII letters only.
\<close>

section \<open>Paths\<close>

fun join_with :: "string \<Rightarrow> string list \<Rightarrow> string" where
  "join_with sep [] = ''''"
| "join_with sep [s] = s"
| "join_with sep (s # t # ss) = s @ sep @ join_with sep (t # ss)"

text \<open>The stack of \<open>path.Clean\<close>, top first.\<close>

definition clean_step :: "bool \<Rightarrow> string \<Rightarrow> string list \<Rightarrow> string list" where
  "clean_step rooted c st =
     (if c = '''' \<or> c = ''.'' then st
      else if c = ''..'' then
        (case st of
           [] \<Rightarrow> if rooted then [] else [''..'']
         | t # rest \<Rightarrow> if t = ''..'' then ''..'' # st else rest)
      else c # st)"

definition clean_parts :: "bool \<Rightarrow> string list \<Rightarrow> string list" where
  "clean_parts rooted cs = rev (fold (clean_step rooted) cs [])"

definition path_Clean :: "string \<Rightarrow> string" where
  "path_Clean p =
     (if p = '''' then ''.''
      else
        let rooted = (hd p = CHR ''/'');
            body = join_with ''/'' (clean_parts rooted (Split p ''/''))
        in if rooted then ''/'' @ body else if body = '''' then ''.'' else body)"

definition path_Join :: "string list \<Rightarrow> string" where
  "path_Join es =
     (let parts = filter (\<lambda>e. e \<noteq> '''') es in
      if parts = [] then '''' else path_Clean (join_with ''/'' parts))"

text \<open>\<open>strings.HasSuffix\<close>.\<close>

definition has_suffix :: "string \<Rightarrow> string \<Rightarrow> bool" where
  "has_suffix s suf = has_prefix (rev suf) (rev s)"

lemma has_suffix_iff: "has_suffix s suf \<longleftrightarrow> (\<exists>t. s = t @ suf)"
  by (auto simp: has_suffix_def has_prefix_iff) (metis rev_append rev_rev_ident)

section \<open>Queries\<close>

definition lower_char :: "char \<Rightarrow> char" where
  "lower_char c = (if 65 \<le> byte_of c \<and> byte_of c \<le> 90 then char_of (byte_of c + 32) else c)"

definition to_lower :: "string \<Rightarrow> string" where
  "to_lower s = map lower_char s"

definition hex_digit :: "nat \<Rightarrow> char" where
  "hex_digit n = (if n < 10 then char_of (48 + n) else char_of (55 + n))"

definition unreserved :: "char \<Rightarrow> bool" where
  "unreserved c \<longleftrightarrow>
     (let b = byte_of c in
      (65 \<le> b \<and> b \<le> 90) \<or> (97 \<le> b \<and> b \<le> 122) \<or> (48 \<le> b \<and> b \<le> 57) \<or> c \<in> set ''-_.~'')"

definition escape_char :: "char \<Rightarrow> string" where
  "escape_char c =
     (if unreserved c then [c]
      else if c = CHR '' '' then ''+''
      else [CHR ''%'', hex_digit (byte_of c div 16), hex_digit (byte_of c mod 16)])"

definition QueryEscape :: "string \<Rightarrow> string" where
  "QueryEscape s = concat (map escape_char s)"

type_synonym url_values = "(string, string list) gomap"

definition values_Add :: "string \<Rightarrow> string \<Rightarrow> url_values \<Rightarrow> url_values" where
  "values_Add k v m = gm_put k ((case gm_get m k of None \<Rightarrow> [] | Some vs \<Rightarrow> vs) @ [v]) m"

definition values_Set :: "string \<Rightarrow> string \<Rightarrow> url_values \<Rightarrow> url_values" where
  "values_Set k v m = gm_put k [v] m"

text \<open>\<open>Encode\<close> walks the keys in increasing order of their bytes.\<close>

definition str_le :: "string \<Rightarrow> string \<Rightarrow> bool" where
  "str_le s t \<longleftrightarrow> (map byte_of s, map byte_of t) \<in> lexord {(a, b). a < b} \<or> s = t"

fun insert_key :: "string \<Rightarrow> string list \<Rightarrow> string list" where
  "insert_key k [] = [k]"
| "insert_key k (x # xs) = (if str_le k x then k # x # xs else x # insert_key k xs)"

definition values_Encode :: "url_values \<Rightarrow> string" where
  "values_Encode m =
     join_with ''&'' (concat (map (\<lambda>k. map (\<lambda>v. QueryEscape k @ ''='' @ QueryEscape v)
         (case gm_get m k of None \<Rightarrow> [] | Some vs \<Rightarrow> vs)) (fold insert_key (gm_keys m) [])))"

section \<open>Headers\<close>

definition token_char :: "char \<Rightarrow> bool" where
  "token_char c \<longleftrightarrow> unreserved c \<or> c \<in> set ''!#$%&*+^`|'' \<or> byte_of c = 39"

fun canonical_from :: "bool \<Rightarrow> string \<Rightarrow> string" where
  "canonical_from up [] = []"
| "canonical_from up (c # cs) =
     (let b = byte_of c;
          c' = (if up \<and> 97 \<le> b \<and> b \<le> 122 then char_of (b - 32)
                else if \<not> up \<and> 65 \<le> b \<and> b \<le> 90 then char_of (b + 32) else c)
      in c' # canonical_from (c = CHR ''-'') cs)"

definition canonical_key :: "string \<Rightarrow> string" where
  "canonical_key k = (if \<forall>c\<in>set k. token_char c then canonical_from True k else k)"

type_synonym http_header = "(string, string list) gomap"

definition header_Del :: "string \<Rightarrow> http_header \<Rightarrow> http_header" where
  "header_Del k h = gm_delete (canonical_key k) h"

definition header_Add :: "string \<Rightarrow> string \<Rightarrow> http_header \<Rightarrow> http_header" where
  "header_Add k v h = values_Add (canonical_key k) v h"

definition header_Get :: "string \<Rightarrow> http_header \<Rightarrow> string" where
  "header_Get k h = (case gm_get h (canonical_key k) of Some (v # vs) \<Rightarrow> v | _ \<Rightarrow> '''')"

section \<open>Durations\<close>

text \<open>\<open>time.Duration\<close> in nanoseconds; its text has the units h, m, s or a fraction of a second.\<close>

fun strip_zeros :: "string \<Rightarrow> string" where
  "strip_zeros s = rev (dropWhile (\<lambda>c. c = CHR ''0'') (rev s))"

definition frac_text :: "nat \<Rightarrow> nat \<Rightarrow> string" where
  "frac_text v prec =
     (let ds = decimal (v mod 10 ^ prec);
          t = strip_zeros (replicate (prec - length ds) CHR ''0'' @ ds)
      in if t = '''' then '''' else ''.'' @ t)"

definition Duration_String :: "int \<Rightarrow> string" where
  "Duration_String d =
     (let u = nat \<bar>d\<bar>; sign = (if d < 0 then ''-'' else '''');
          s = u div 1000000000; m = s div 60; h = m div 60
      in if u = 0 then ''0s''
         else if u < 1000 then sign @ decimal u @ ''ns''
         else if u < 1000000 then sign @ decimal (u div 1000) @ frac_text u 3 @ [char_of (194 :: nat), char_of (181 :: nat)] @ ''s''
         else if u < 1000000000 then sign @ decimal (u div 1000000) @ frac_text u 6 @ ''ms''
         else sign @
           (if m = 0 then decimal (s mod 60) @ frac_text u 9 @ ''s''
            else if h = 0 then decimal (m mod 60) @ ''m'' @ decimal (s mod 60) @ frac_text u 9 @ ''s''
            else decimal h @ ''h'' @ decimal (m mod 60) @ ''m'' @ decimal (s mod 60) @ frac_text u 9 @ ''s''))"

section \<open>Lemmas on paths\<close>

text \<open>A clean rooted path has no empty, dot or dot-dot part, so nothing climbs out of the root.\<close>

definition plain_part :: "string \<Rightarrow> bool" where
  "plain_part c \<longleftrightarrow> c \<noteq> '''' \<and> c \<noteq> ''.'' \<and> c \<noteq> ''..''"

lemma clean_step_plain: "\<forall>c\<in>set st. plain_part c \<Longrightarrow> \<forall>c\<in>set (clean_step True c' st). plain_part c"
  by (cases st) (auto simp: clean_step_def plain_part_def)

lemma clean_parts_plain: "\<forall>c\<in>set (clean_parts True cs). plain_part c"
proof -
  have "\<forall>c\<in>set st. plain_part c \<Longrightarrow> \<forall>c\<in>set (fold (clean_step True) cs st). plain_part c" for st
    by (induction cs arbitrary: st) (auto dest: clean_step_plain)
  from this [of "[]"] show ?thesis by (simp add: clean_parts_def)
qed

lemma clean_plain_id: "\<forall>c\<in>set cs. plain_part c \<Longrightarrow> clean_parts rooted cs = cs"
proof -
  assume p: "\<forall>c\<in>set cs. plain_part c"
  have "\<forall>c\<in>set cs. plain_part c \<Longrightarrow> fold (clean_step rooted) cs st = rev cs @ st" for st
    by (induction cs arbitrary: st) (auto simp: clean_step_def plain_part_def)
  then show ?thesis using p by (simp add: clean_parts_def)
qed

lemma clean_parts_idem: "clean_parts True (clean_parts True cs) = clean_parts True cs"
  by (rule clean_plain_id [OF clean_parts_plain])

lemma clean_parts_append:
  "\<forall>c\<in>set ds. plain_part c \<Longrightarrow> clean_parts True (cs @ ds) = clean_parts True cs @ ds"
proof -
  assume p: "\<forall>c\<in>set ds. plain_part c"
  have "\<forall>c\<in>set ds. plain_part c \<Longrightarrow> fold (clean_step True) ds st = rev ds @ st" for st
    by (induction ds arbitrary: st) (auto simp: clean_step_def plain_part_def)
  then show ?thesis using p by (simp add: clean_parts_def)
qed

section \<open>Lemmas on splitting at a character\<close>

lemma split_loop_append:
  "split_loop [c] acc (a @ c # b) = split_loop [c] acc a @ split_loop [c] [] b"
proof (induction a arbitrary: acc)
  case Nil
  then show ?case by (simp add: split_loop.simps [of "[c]" acc])
next
  case (Cons d a)
  have s: "split_loop [c] acc (d # xs) =
      (if d = c then rev acc # split_loop [c] [] xs else split_loop [c] (d # acc) xs)" for acc xs
    by (subst split_loop.simps) auto
  show ?case using Cons.IH by (simp add: s)
qed

lemma Split_append: "Split (a @ c # b) [c] = Split a [c] @ Split b [c]"
  by (simp add: Split_def split_loop_append)

lemma split_loop_no_sep:
  "x \<in> set (split_loop [c] acc s) \<Longrightarrow> c \<notin> set acc \<Longrightarrow> c \<notin> set x"
proof (induction s arbitrary: acc)
  case Nil
  then show ?case by (simp add: split_loop.simps [of _ _ "[]"])
next
  case (Cons d s)
  have "split_loop [c] acc (d # s) =
      (if d = c then rev acc # split_loop [c] [] s else split_loop [c] (d # acc) s)"
    by (subst split_loop.simps) auto
  then show ?case using Cons.prems Cons.IH [of "[]"] Cons.IH [of "d # acc"] by (auto split: if_splits)
qed

lemma Split_no_sep: "x \<in> set (Split s [c]) \<Longrightarrow> c \<notin> set x"
  using split_loop_no_sep [of x c "[]" s] by (simp add: Split_def)

lemma Split_none: "c \<notin> set s \<Longrightarrow> Split s [c] = [s]"
  by (simp add: Split_def split_loop_none)

lemma Split_join_with:
  "\<forall>p\<in>set ps. c \<notin> set p \<Longrightarrow> Split (join_with [c] ps) [c] = (if ps = [] then [''''] else ps)"
proof (induction "[c]" ps rule: join_with.induct)
  case (3 s t ss)
  then show ?case using Split_append [of s c "join_with [c] (t # ss)"] by (simp add: Split_none)
qed (simp_all add: Split_none)

section \<open>Rooted paths\<close>

text \<open>A path that is rooted and clean, and its segments.\<close>

definition segment :: "string \<Rightarrow> bool" where
  "segment s \<longleftrightarrow> plain_part s \<and> CHR ''/'' \<notin> set s"

definition rooted_path :: "string list \<Rightarrow> string" where
  "rooted_path ps = CHR ''/'' # join_with ''/'' ps"

lemma clean_parts_empty_part [simp]: "clean_parts rooted ('''' # cs) = clean_parts rooted cs"
  by (simp add: clean_parts_def clean_step_def)

lemma Split_rooted: "Split (CHR ''/'' # s) ''/'' = '''' # Split s ''/''"
  using Split_append [of "[]" "CHR ''/''" s] by (simp add: Split_none)

lemma path_Clean_rooted: "path_Clean (CHR ''/'' # s) = rooted_path (clean_parts True (Split s ''/''))"
  by (simp add: path_Clean_def rooted_path_def Let_def Split_rooted)

lemma clean_step_set: "x \<in> set (clean_step True c st) \<Longrightarrow> x \<in> insert c (set st)"
  by (cases st) (auto simp: clean_step_def split: if_splits)

lemma clean_parts_subset: "set (clean_parts True cs) \<subseteq> set cs"
proof -
  have "set (fold (clean_step True) cs st) \<subseteq> set cs \<union> set st" for st
    by (induction cs arbitrary: st) (auto dest: clean_step_set)
  from this [of "[]"] show ?thesis by (simp add: clean_parts_def)
qed

lemma clean_parts_segments: "\<forall>s\<in>set (clean_parts True (Split p ''/'')). segment s"
  using clean_parts_plain [of "Split p ''/''"] clean_parts_subset [of "Split p ''/''"] Split_no_sep [of _ p "CHR ''/''"]
  unfolding segment_def by blast

lemma clean_parts_rooted:
  "\<forall>s\<in>set ps. segment s \<Longrightarrow> clean_parts True (Split (rooted_path ps) ''/'') = ps"
  by (cases "ps = []") (simp_all add: rooted_path_def Split_rooted Split_join_with Split_none segment_def clean_plain_id)

lemma path_Clean_id: "\<forall>s\<in>set ps. segment s \<Longrightarrow> path_Clean (rooted_path ps) = rooted_path ps"
  using clean_parts_rooted [of ps] path_Clean_rooted [of "join_with ''/'' ps"]
  by (simp add: rooted_path_def Split_rooted)

text \<open>Joining a segment to a rooted path appends it: it stays one segment and drops none.\<close>

lemma path_Join_segment:
  assumes "\<forall>s\<in>set ps. segment s" "segment s"
  shows "path_Join [rooted_path ps, s] = rooted_path (ps @ [s])"
proof -
  have ne: "rooted_path ps \<noteq> ''''" "s \<noteq> ''''" using assms(2) by (auto simp: rooted_path_def segment_def plain_part_def)
  have "Split (rooted_path ps @ CHR ''/'' # s) ''/'' = Split (rooted_path ps) ''/'' @ [s]"
    using assms(2) by (simp add: Split_append Split_none segment_def)
  moreover have "clean_parts True (Split (rooted_path ps) ''/'' @ [s]) = ps @ [s]"
    using clean_parts_append [of "[s]"] clean_parts_rooted [OF assms(1)] assms(2) by (simp add: segment_def)
  moreover have "rooted_path ps @ CHR ''/'' # s = CHR ''/'' # (join_with ''/'' ps @ CHR ''/'' # s)"
    by (simp add: rooted_path_def)
  ultimately show ?thesis
    using ne path_Clean_rooted [of "join_with ''/'' ps @ CHR ''/'' # s"] by (simp add: path_Join_def Split_rooted)
qed

lemma path_Join_root: "path_Join [''/'', p] = rooted_path (clean_parts True (Split p ''/''))"
proof (cases "p = ''''")
  case True
  then show ?thesis
    using path_Clean_rooted [of "''''"] by (simp add: path_Join_def)
next
  case False
  then show ?thesis
    using path_Clean_rooted [of "CHR ''/'' # p"] by (simp add: path_Join_def Split_rooted)
qed

lemma lower_char_low: "byte_of (lower_char c) < 97 \<Longrightarrow> lower_char c = c"
  by (auto simp: lower_char_def byte_of_def split: if_splits)

lemma lower_char_eq: "byte_of d < 97 \<Longrightarrow> lower_char c = d \<Longrightarrow> c = d"
  using lower_char_low [of c] by simp

lemma lower_char_dot: "lower_char c = CHR ''.'' \<longleftrightarrow> c = CHR ''.''"
proof
  assume "lower_char c = CHR ''.''"
  then show "c = CHR ''.''" by (rule lower_char_eq [rotated]) (simp add: byte_of_def)
qed (simp add: lower_char_def byte_of_def)

lemma lower_char_slash: "lower_char c = CHR ''/'' \<longleftrightarrow> c = CHR ''/''"
proof
  assume "lower_char c = CHR ''/''"
  then show "c = CHR ''/''" by (rule lower_char_eq [rotated]) (simp add: byte_of_def)
qed (simp add: lower_char_def byte_of_def)

lemma to_lower_dots: "to_lower s = ''.'' \<longleftrightarrow> s = ''.''" "to_lower s = ''..'' \<longleftrightarrow> s = ''..''"
  unfolding to_lower_def map_eq_Cons_conv by (auto simp only: lower_char_dot list.map map_is_Nil_conv)

lemma to_lower_segment:
  assumes "segment s"
  shows "segment (to_lower s)"
proof -
  have "CHR ''/'' \<notin> set (to_lower s)"
  proof
    assume "CHR ''/'' \<in> set (to_lower s)"
    then obtain c where "c \<in> set s" "lower_char c = CHR ''/''" unfolding to_lower_def by fastforce
    with assms show False unfolding lower_char_slash segment_def by simp
  qed
  moreover have "to_lower s \<noteq> ''''" using assms by (simp add: segment_def plain_part_def to_lower_def)
  ultimately show ?thesis
    using assms unfolding segment_def plain_part_def by (simp only: to_lower_dots) simp
qed

end
