(* ===== verification/Go_Json.thy ===== *)
theory Go_Json
  imports Go_Net
begin

text \<open>
  The texts of \<open>encoding/json\<close> (Go 1.17): values, the compact text that \<open>Marshal\<close> writes with its
  escapes, and the scanner of \<open>Unmarshal\<close> as a recursive-descent parser. \<open>Unmarshal\<close> checks the whole
  text before it decodes, so the decoders work on the value. Strings are bytes; those from 128 on are
  copied, which is what the library does for valid UTF-8 (other than the two line separators).
\<close>

section \<open>Values and their text\<close>

datatype json =
    JNull
  | JBool bool
  | JNum string
  | JStr string
  | JArr "json list"
  | JObj "(string \<times> json) list"

definition lower_hex :: "nat \<Rightarrow> char" where
  "lower_hex n = (if n < 10 then char_of (48 + n) else char_of (87 + n))"

definition dquote :: char where "dquote = CHR 0x22"
definition backslash :: char where "backslash = CHR 0x5C"

definition json_escape :: "char \<Rightarrow> string" where
  "json_escape c =
     (if c = dquote \<or> c = backslash then [backslash, c]
      else if c = CHR 0x0A then [backslash, CHR ''n'']
      else if c = CHR 0x0D then [backslash, CHR ''r'']
      else if c = CHR 0x09 then [backslash, CHR ''t'']
      else if byte_of c < 32 \<or> c \<in> set ''<>&''
      then [backslash, CHR ''u'', CHR ''0'', CHR ''0'', lower_hex (byte_of c div 16), lower_hex (byte_of c mod 16)]
      else [c])"

definition json_quote :: "string \<Rightarrow> string" where
  "json_quote s = dquote # concat (map json_escape s) @ [dquote]"

fun json_text :: "json \<Rightarrow> string"
  and json_elems :: "json list \<Rightarrow> string"
  and json_members :: "(string \<times> json) list \<Rightarrow> string" where
  "json_text JNull = ''null''"
| "json_text (JBool b) = (if b then ''true'' else ''false'')"
| "json_text (JNum s) = s"
| "json_text (JStr s) = json_quote s"
| "json_text (JArr []) = ''[]''"
| "json_text (JArr (v # vs)) = ''['' @ json_text v @ json_elems vs"
| "json_text (JObj []) = ''{}''"
| "json_text (JObj ((k, v) # ms)) = ''{'' @ json_quote k @ '':'' @ json_text v @ json_members ms"
| "json_elems [] = '']''"
| "json_elems (v # vs) = '','' @ json_text v @ json_elems vs"
| "json_members [] = ''}''"
| "json_members ((k, v) # ms) = '','' @ json_quote k @ '':'' @ json_text v @ json_members ms"

section \<open>Tokens\<close>

definition json_space :: "char \<Rightarrow> bool" where
  "json_space c \<longleftrightarrow> c \<in> {CHR '' '', CHR 0x09, CHR 0x0A, CHR 0x0D}"

definition skip_ws :: "string \<Rightarrow> string" where
  "skip_ws s = dropWhile json_space s"

definition hex_val :: "char \<Rightarrow> nat option" where
  "hex_val c =
     (let b = byte_of c in
      if 48 \<le> b \<and> b \<le> 57 then Some (b - 48)
      else if 97 \<le> b \<and> b \<le> 102 then Some (b - 87)
      else if 65 \<le> b \<and> b \<le> 70 then Some (b - 55)
      else None)"

text \<open>\<open>getu4\<close>: the code unit of an escape \<open>\uXXXX\<close> at the start of the text.\<close>

definition getu4 :: "string \<Rightarrow> nat option" where
  "getu4 s =
     (if length s < 6 \<or> s ! 0 \<noteq> backslash \<or> s ! 1 \<noteq> CHR ''u'' then None
      else case map hex_val (take 4 (drop 2 s)) of
        [Some a, Some b, Some c, Some d] \<Rightarrow> Some (((a * 16 + b) * 16 + c) * 16 + d)
      | _ \<Rightarrow> None)"

text \<open>The UTF-8 encoding of a code point.\<close>

definition utf8 :: "nat \<Rightarrow> string" where
  "utf8 r =
     (if r < 128 then [char_of r]
      else if r < 2048 then [char_of (192 + r div 64), char_of (128 + r mod 64)]
      else if r < 65536
      then [char_of (224 + r div 4096), char_of (128 + r div 64 mod 64), char_of (128 + r mod 64)]
      else [char_of (240 + r div 262144), char_of (128 + r div 4096 mod 64), char_of (128 + r div 64 mod 64),
            char_of (128 + r mod 64)])"

definition simple_escape :: "char \<Rightarrow> char option" where
  "simple_escape c =
     (if c = dquote \<or> c = backslash \<or> c = CHR ''/'' then Some c
      else if c = CHR ''b'' then Some (CHR 0x08)
      else if c = CHR ''f'' then Some (CHR 0x0C)
      else if c = CHR ''n'' then Some (CHR 0x0A)
      else if c = CHR ''r'' then Some (CHR 0x0D)
      else if c = CHR ''t'' then Some (CHR 0x09)
      else None)"

text \<open>
  The next character of a string literal: the bytes it stands for and how many it takes. A surrogate
  must be followed by its other half, otherwise it becomes the replacement character.
\<close>

definition scan_char :: "string \<Rightarrow> (string \<times> nat) option" where
  "scan_char s =
     (case s of
        [] \<Rightarrow> None
      | c # cs \<Rightarrow>
          if c = backslash then
            (case getu4 s of
               Some r \<Rightarrow>
                 if 55296 \<le> r \<and> r < 57344 then
                   (case getu4 (drop 6 s) of
                      Some r' \<Rightarrow>
                        if r < 56320 \<and> 56320 \<le> r' \<and> r' < 57344
                        then Some (utf8 ((r - 55296) * 1024 + (r' - 56320) + 65536), 12)
                        else Some (utf8 65533, 6)
                    | None \<Rightarrow> Some (utf8 65533, 6))
                 else Some (utf8 r, 6)
             | None \<Rightarrow>
                 (case cs of [] \<Rightarrow> None | e # _ \<Rightarrow> map_option (\<lambda>b. ([b], 2)) (simple_escape e)))
          else if byte_of c < 32 then None
          else Some ([c], 1))"

text \<open>The rest of a string literal after its opening quote.\<close>

function scan_string :: "string \<Rightarrow> (string \<times> string) option" where
  "scan_string s =
     (case s of
        [] \<Rightarrow> None
      | c # cs \<Rightarrow>
          if c = dquote then Some ([], cs)
          else case scan_char s of
            None \<Rightarrow> None
          | Some (out, n) \<Rightarrow> map_option (\<lambda>(t, r). (out @ t, r)) (scan_string (drop (n - 1) cs)))"
  by pat_completeness auto
termination
  by (relation "measure length") auto

declare scan_string.simps [simp del]

definition number_int :: "string \<Rightarrow> (string \<times> string) option" where
  "number_int s =
     (case s of
        [] \<Rightarrow> None
      | c # cs \<Rightarrow>
          if c = CHR ''0'' then Some ([c], cs)
          else if is_digit c then Some (c # takeWhile is_digit cs, dropWhile is_digit cs)
          else None)"

definition number_frac :: "string \<Rightarrow> (string \<times> string) option" where
  "number_frac s =
     (case s of
        [] \<Rightarrow> Some ([], [])
      | c # cs \<Rightarrow>
          if c \<noteq> CHR ''.'' then Some ([], s)
          else if takeWhile is_digit cs = [] then None
          else Some (c # takeWhile is_digit cs, dropWhile is_digit cs))"

definition number_exp :: "string \<Rightarrow> (string \<times> string) option" where
  "number_exp s =
     (case s of
        [] \<Rightarrow> Some ([], [])
      | c # cs \<Rightarrow>
          if c \<notin> set ''eE'' then Some ([], s)
          else
            let (sign, ds) = (case cs of d # ds \<Rightarrow> if d \<in> set ''+-'' then ([d], ds) else ([], cs) | [] \<Rightarrow> ([], []))
            in if takeWhile is_digit ds = [] then None
               else Some (c # sign @ takeWhile is_digit ds, dropWhile is_digit ds))"

definition scan_number :: "string \<Rightarrow> (string \<times> string) option" where
  "scan_number s =
     (let (sign, s1) = (case s of c # cs \<Rightarrow> if c = CHR ''-'' then ([c], cs) else ([], s) | [] \<Rightarrow> ([], []))
      in Option.bind (number_int s1) (\<lambda>(i, s2).
         Option.bind (number_frac s2) (\<lambda>(f, s3).
         Option.bind (number_exp s3) (\<lambda>(e, s4). Some (sign @ i @ f @ e, s4)))))"

text \<open>A member's key up to the colon.\<close>

definition scan_key :: "string \<Rightarrow> (string \<times> string) option" where
  "scan_key s =
     (case skip_ws s of
        [] \<Rightarrow> None
      | c # cs \<Rightarrow>
          if c \<noteq> dquote then None
          else Option.bind (scan_string cs) (\<lambda>(k, r).
            case skip_ws r of [] \<Rightarrow> None | c' # r' \<Rightarrow> if c' = CHR '':'' then Some (k, r') else None))"

definition scan_literal :: "string \<Rightarrow> json \<Rightarrow> string \<Rightarrow> (json \<times> string) option" where
  "scan_literal lit v s = (if take (length lit) s = lit then Some (v, drop (length lit) s) else None)"

section \<open>Parsing\<close>

text \<open>
  \<open>n\<close> is fuel; the length of the text is enough. \<open>d\<close> is how deep values may still nest. The tails of
  arrays and objects are parsed after their first element.
\<close>

fun parse_val :: "nat \<Rightarrow> nat \<Rightarrow> string \<Rightarrow> (json \<times> string) option"
  and parse_elems :: "nat \<Rightarrow> nat \<Rightarrow> string \<Rightarrow> (json list \<times> string) option"
  and parse_members :: "nat \<Rightarrow> nat \<Rightarrow> string \<Rightarrow> ((string \<times> json) list \<times> string) option" where
  "parse_val 0 d s = None"
| "parse_val (Suc n) d s =
     (case skip_ws s of
        [] \<Rightarrow> None
      | c # cs \<Rightarrow>
          if c = CHR ''{'' then
            if d = 0 then None
            else (case skip_ws cs of
                    [] \<Rightarrow> None
                  | c' # cs' \<Rightarrow>
                      if c' = CHR ''}'' then Some (JObj [], cs')
                      else Option.bind (scan_key (c' # cs')) (\<lambda>(k, r).
                        Option.bind (parse_val n (d - 1) r) (\<lambda>(v, r').
                        Option.bind (parse_members n (d - 1) r') (\<lambda>(ms, r''). Some (JObj ((k, v) # ms), r'')))))
          else if c = CHR ''['' then
            if d = 0 then None
            else (case skip_ws cs of
                    [] \<Rightarrow> None
                  | c' # cs' \<Rightarrow>
                      if c' = CHR '']'' then Some (JArr [], cs')
                      else Option.bind (parse_val n (d - 1) (c' # cs')) (\<lambda>(v, r').
                        Option.bind (parse_elems n (d - 1) r') (\<lambda>(vs, r''). Some (JArr (v # vs), r''))))
          else if c = dquote then map_option (\<lambda>(t, r). (JStr t, r)) (scan_string cs)
          else if c = CHR ''n'' then scan_literal ''null'' JNull (c # cs)
          else if c = CHR ''t'' then scan_literal ''true'' (JBool True) (c # cs)
          else if c = CHR ''f'' then scan_literal ''false'' (JBool False) (c # cs)
          else map_option (\<lambda>(t, r). (JNum t, r)) (scan_number (c # cs)))"
| "parse_elems 0 d s = None"
| "parse_elems (Suc n) d s =
     (case skip_ws s of
        [] \<Rightarrow> None
      | c # cs \<Rightarrow>
          if c = CHR '']'' then Some ([], cs)
          else if c = CHR '','' then
            Option.bind (parse_val n d cs) (\<lambda>(v, r).
            Option.bind (parse_elems n d r) (\<lambda>(vs, r'). Some (v # vs, r')))
          else None)"
| "parse_members 0 d s = None"
| "parse_members (Suc n) d s =
     (case skip_ws s of
        [] \<Rightarrow> None
      | c # cs \<Rightarrow>
          if c = CHR ''}'' then Some ([], cs)
          else if c = CHR '','' then
            Option.bind (scan_key cs) (\<lambda>(k, r).
            Option.bind (parse_val n d r) (\<lambda>(v, r').
            Option.bind (parse_members n d r') (\<lambda>(ms, r''). Some ((k, v) # ms, r''))))
          else None)"

definition maxNestingDepth :: nat where
  "maxNestingDepth = 10000"

definition parse_next :: "string \<Rightarrow> (json \<times> string) option" where
  "parse_next s = parse_val (Suc (length s)) maxNestingDepth s"

text \<open>\<open>Unmarshal\<close> reads exactly one value, with white space around it.\<close>

definition parse_json :: "string \<Rightarrow> json option" where
  "parse_json s =
     (case parse_next s of
        Some (v, r) \<Rightarrow> if skip_ws r = [] then Some v else None
      | None \<Rightarrow> None)"

section \<open>Strings are read back\<close>

lemma byte_of_inj: "byte_of c = byte_of d \<longleftrightarrow> c = d"
  by (simp add: byte_of_def)

lemma char_of_byte [simp]: "char_of (byte_of c) = c"
  by (simp add: byte_of_def)

lemma byte_of_char_of: "n < 256 \<Longrightarrow> byte_of (char_of n) = n"
  by (simp add: byte_of_def)

lemma byte_of_less [simp]: "byte_of c < 256"
  by (simp add: byte_of_def)

lemma byte_of_simps [simp]:
  "byte_of dquote = 34" "byte_of backslash = 92" "byte_of CHR ''u'' = 117" "byte_of CHR ''0'' = 48"
  by (simp_all add: byte_of_def dquote_def backslash_def)

lemma hex_val_lower_hex [simp]: "n < 16 \<Longrightarrow> hex_val (lower_hex n) = Some n"
  by (simp add: hex_val_def lower_hex_def byte_of_char_of)

lemma getu4_escape:
  assumes "n < 256"
  shows "getu4 (backslash # CHR ''u'' # CHR ''0'' # CHR ''0'' # lower_hex (n div 16) # lower_hex (n mod 16) # rest) = Some n"
proof -
  have "hex_val CHR ''0'' = Some 0" by (simp add: hex_val_def)
  moreover have "n div 16 < 16" using assms by simp
  ultimately show ?thesis by (simp add: getu4_def)
qed

lemma getu4_not_u: "c \<noteq> CHR ''u'' \<Longrightarrow> getu4 (backslash # c # rest) = None"
  by (simp add: getu4_def)

lemma utf8_low: "n < 128 \<Longrightarrow> utf8 n = [char_of n]"
  by (simp add: utf8_def)

lemma simple_escape_simps [simp]:
  "simple_escape dquote = Some dquote" "simple_escape backslash = Some backslash"
  "simple_escape CHR ''n'' = Some CHR 0x0A" "simple_escape CHR ''r'' = Some CHR 0x0D"
  "simple_escape CHR ''t'' = Some CHR 0x09"
  by (simp_all add: simple_escape_def dquote_def backslash_def)

lemma not_u [simp]: "dquote \<noteq> CHR ''u''" "backslash \<noteq> CHR ''u''" "dquote \<noteq> backslash" "backslash \<noteq> dquote"
  by (simp_all add: dquote_def backslash_def)

lemma scan_char_escape: "scan_char (json_escape c @ rest) = Some ([c], length (json_escape c))"
proof (cases "byte_of c < 32 \<or> c \<in> set ''<>&''")
  case True
  then have b: "byte_of c < 128" by (auto simp: byte_of_def)
  have plain: "c \<noteq> dquote" "c \<noteq> backslash" using True by (auto simp: dquote_def backslash_def byte_of_def)
  show ?thesis
  proof (cases "c \<in> {CHR 0x0A, CHR 0x0D, CHR 0x09}")
    case True
    then show ?thesis using plain by (auto simp: json_escape_def scan_char_def getu4_not_u)
  next
    case False
    have e: "json_escape c =
        [backslash, CHR ''u'', CHR ''0'', CHR ''0'', lower_hex (byte_of c div 16), lower_hex (byte_of c mod 16)]"
      using True False plain unfolding json_escape_def by (simp only: if_True if_False insert_iff empty_iff de_Morgan_disj simp_thms)
    show ?thesis
      using b getu4_escape [of "byte_of c" rest] utf8_low [OF b] by (simp add: e scan_char_def)
  qed
next
  case False
  show ?thesis
  proof (cases "c = dquote \<or> c = backslash")
    case True
    then have "json_escape c = [backslash, c]" by (simp add: json_escape_def)
    then show ?thesis using True by (auto simp: scan_char_def getu4_not_u)
  next
    case plain: False
    then have "json_escape c = [c]"
      using False unfolding json_escape_def by (auto simp: byte_of_def)
    then show ?thesis using False plain by (simp add: scan_char_def)
  qed
qed

lemma json_escape_shape: "\<exists>c' cs. json_escape c = c' # cs \<and> c' \<noteq> dquote"
  by (simp add: json_escape_def)

lemma scan_string_quoted: "scan_string (concat (map json_escape s) @ dquote # rest) = Some (s, rest)"
proof (induction s)
  case Nil
  show ?case by (subst scan_string.simps) simp
next
  case (Cons c s)
  let ?rest = "concat (map json_escape s) @ dquote # rest"
  obtain c' cs where e: "json_escape c = c' # cs" "c' \<noteq> dquote" using json_escape_shape by blast
  have "scan_string (c' # cs @ ?rest) = map_option (\<lambda>(t, r). ([c] @ t, r)) (scan_string (drop (length cs) (cs @ ?rest)))"
    using scan_char_escape [of c ?rest] e by (subst scan_string.simps) simp
  then show ?case using Cons.IH by (simp add: e)
qed

lemma scan_string_quote: "scan_string (tl (json_quote s) @ rest) = Some (s, rest)"
  using scan_string_quoted [of s rest] by (simp add: json_quote_def)

lemma json_quote_Cons: "json_quote s = dquote # tl (json_quote s)"
  by (simp add: json_quote_def)

section \<open>Numbers are read back\<close>

definition valid_number :: "string \<Rightarrow> bool" where
  "valid_number s \<longleftrightarrow> scan_number s = Some (s, [])"

text \<open>What may follow a number.\<close>

definition number_stop :: "string \<Rightarrow> bool" where
  "number_stop s \<longleftrightarrow> (case s of [] \<Rightarrow> True | c # _ \<Rightarrow> \<not> is_digit c \<and> c \<notin> set ''.eE'')"

lemma takeWhile_digit_append:
  assumes "number_stop rest"
  shows "takeWhile is_digit (xs @ rest) = takeWhile is_digit xs" "dropWhile is_digit (xs @ rest) = dropWhile is_digit xs @ rest"
proof -
  have "takeWhile is_digit (xs @ rest) = takeWhile is_digit xs \<and> dropWhile is_digit (xs @ rest) = dropWhile is_digit xs @ rest"
    using assms by (induction xs) (cases rest; auto simp: number_stop_def)+
  then show "takeWhile is_digit (xs @ rest) = takeWhile is_digit xs" "dropWhile is_digit (xs @ rest) = dropWhile is_digit xs @ rest"
    by simp_all
qed

lemma number_int_append:
  "number_int s = Some (i, r) \<Longrightarrow> number_stop rest \<Longrightarrow> number_int (s @ rest) = Some (i, r @ rest)"
  by (cases s) (auto simp: number_int_def takeWhile_digit_append split: if_splits)

lemma number_frac_append:
  "number_frac s = Some (f, r) \<Longrightarrow> number_stop rest \<Longrightarrow> number_frac (s @ rest) = Some (f, r @ rest)"
  by (cases s; cases rest) (auto simp: number_frac_def takeWhile_digit_append number_stop_def split: if_splits)

lemma number_exp_append:
  "number_exp s = Some (e, r) \<Longrightarrow> number_stop rest \<Longrightarrow> number_exp (s @ rest) = Some (e, r @ rest)"
proof (cases s)
  case Nil
  then show "number_exp s = Some (e, r) \<Longrightarrow> number_stop rest \<Longrightarrow> ?thesis"
    by (cases rest) (auto simp: number_exp_def number_stop_def)
next
  case (Cons c cs)
  then show "number_exp s = Some (e, r) \<Longrightarrow> number_stop rest \<Longrightarrow> ?thesis"
    by (cases cs) (auto simp: number_exp_def Let_def takeWhile_digit_append split: if_splits)
qed

lemma scan_number_append:
  assumes "valid_number s" "number_stop rest"
  shows "scan_number (s @ rest) = Some (s, rest)"
proof -
  let ?split = "\<lambda>s. case s of c # cs \<Rightarrow> if c = CHR ''-'' then ([c], cs) else ([], s) | [] \<Rightarrow> ([], [])"
  obtain sign s1 i s2 f s3 e where p: "?split s = (sign, s1)" "number_int s1 = Some (i, s2)"
      "number_frac s2 = Some (f, s3)" "number_exp s3 = Some (e, [])" "s = sign @ i @ f @ e"
    using assms(1) by (auto simp: valid_number_def scan_number_def bind_eq_Some_conv split: prod.splits)
  have "s1 \<noteq> []" using p(2) by (auto simp: number_int_def)
  then have q: "?split (s @ rest) = (sign, s1 @ rest)" using p(1) by (cases s) (auto split: if_splits)
  show ?thesis
    unfolding scan_number_def q
    using number_int_append [OF p(2) assms(2)] number_frac_append [OF p(3) assms(2)]
      number_exp_append [OF p(4) assms(2)] p(5)
    by simp
qed

lemma decimal_no_zero: "0 < n \<Longrightarrow> hd (decimal n) \<noteq> CHR ''0''"
proof (induction n rule: decimal.induct)
  case (1 n)
  show ?case
  proof (cases "n < 10")
    case True
    then have "byte_of (digit_char n) \<noteq> 48" using digit_char_byte [of n] "1.prems" by simp
    then have "digit_char n \<noteq> CHR ''0''" by (metis byte_of_simps(4))
    then show ?thesis using True by (simp add: decimal.simps [of n])
  next
    case False
    then show ?thesis using "1.IH" by (simp add: decimal.simps [of n])
  qed
qed

lemma number_int_decimal: "number_int (decimal n) = Some (decimal n, [])"
proof -
  obtain c cs where d: "decimal n = c # cs" by (cases "decimal n") auto
  have digits: "\<forall>x\<in>set (c # cs). is_digit x" using decimal_digits [of _ n] d by metis
  have "c = CHR ''0'' \<Longrightarrow> cs = []"
    using decimal_no_zero [of n] d by (cases "n = 0") (simp_all add: decimal.simps [of 0])
  then show ?thesis using d digits by (auto simp: number_int_def)
qed

lemma valid_number_Itoa: "valid_number (Itoa i)"
proof -
  have "number_frac [] = Some ([], [])" "number_exp [] = Some ([], [])"
    by (simp_all add: number_frac_def number_exp_def)
  moreover have "(case decimal n of c # cs \<Rightarrow> if c = CHR ''-'' then ([c], cs) else ([], decimal n) | [] \<Rightarrow> ([], [])) =
      ([], decimal n)" for n
    using decimal_digits [of "hd (decimal n)" n] by (cases "decimal n") auto
  ultimately show ?thesis
    by (simp add: valid_number_def scan_number_def Itoa_def number_int_decimal)
qed

section \<open>Values are read back\<close>


text \<open>Values whose numbers are numbers and that nest at most \<open>d\<close> deep.\<close>

fun json_ok :: "nat \<Rightarrow> json \<Rightarrow> bool" where
  "json_ok d (JNum s) = valid_number s"
| "json_ok d (JArr vs) = (0 < d \<and> (\<forall>v\<in>set vs. json_ok (d - 1) v))"
| "json_ok d (JObj ms) = (0 < d \<and> (\<forall>m\<in>set ms. json_ok (d - 1) (snd m)))"
| "json_ok d _ = True"

definition starts_value :: "string \<Rightarrow> bool" where
  "starts_value s \<longleftrightarrow> (case s of [] \<Rightarrow> False | c # _ \<Rightarrow> \<not> json_space c \<and> c \<notin> set ''],}:'')"

lemma skip_ws_Cons: "skip_ws (c # s) = (if json_space c then skip_ws s else c # s)"
  by (simp add: skip_ws_def)

lemma skip_ws_starts: "starts_value s \<Longrightarrow> skip_ws s = s"
  by (cases s) (simp_all add: starts_value_def skip_ws_Cons)

lemma not_space [simp]:
  "\<not> json_space dquote" "\<not> json_space CHR ''{''" "\<not> json_space CHR ''}''" "\<not> json_space CHR ''[''"
  "\<not> json_space CHR '']''" "\<not> json_space CHR '',''" "\<not> json_space CHR '':''" "\<not> json_space CHR ''n''"
  "\<not> json_space CHR ''t''" "\<not> json_space CHR ''f''"
  by (simp_all add: json_space_def dquote_def)

lemma digit_starts: "is_digit c \<or> c = CHR ''-'' \<Longrightarrow> \<not> json_space c \<and> c \<notin> set ''],}:{[ntf'' \<and> c \<noteq> dquote"
  by (auto simp: json_space_def is_digit_def byte_of_def dquote_def)

lemma is_digit_zero [simp]: "is_digit CHR ''0''"
  by (simp add: is_digit_def)

lemma valid_number_starts:
  assumes "valid_number s"
  shows "\<exists>c cs. s = c # cs \<and> (is_digit c \<or> c = CHR ''-'')"
proof (cases s)
  case Nil
  with assms show ?thesis by (simp add: valid_number_def scan_number_def number_int_def)
next
  case (Cons c cs)
  have "c = CHR ''-'' \<or> number_int (c # cs) \<noteq> None"
    using assms Cons by (cases "number_int (c # cs)") (auto simp: valid_number_def scan_number_def split: if_splits)
  then show ?thesis using Cons by (auto simp: number_int_def split: if_splits)
qed

lemma json_text_starts: "json_ok d v \<Longrightarrow> starts_value (json_text v)"
proof (cases v)
  case (JNum s)
  assume "json_ok d v"
  then have "valid_number s" using JNum by simp
  then obtain c cs where "s = c # cs" "is_digit c \<or> c = CHR ''-''" using valid_number_starts by blast
  then show ?thesis using digit_starts [of c] JNum by (simp add: starts_value_def)
next
  case (JArr vs)
  then show ?thesis by (cases vs) (simp_all add: starts_value_def)
next
  case (JObj ms)
  then show ?thesis by (cases ms) (auto simp: starts_value_def)
qed (simp_all add: starts_value_def json_quote_def dquote_def json_space_def)

lemma starts_value_append: "starts_value s \<Longrightarrow> starts_value (s @ t)"
  by (cases s) (simp_all add: starts_value_def)

lemma scan_key_quote: "scan_key (json_quote k @ CHR '':'' # rest) = Some (k, rest)"
proof -
  have "json_quote k @ CHR '':'' # rest = dquote # (tl (json_quote k) @ CHR '':'' # rest)"
    using json_quote_Cons [of k] by (metis append_Cons)
  then show ?thesis
    unfolding scan_key_def by (simp only:) (simp add: skip_ws_Cons scan_string_quote)
qed

lemma scan_literal_append: "scan_literal lit v (lit @ rest) = Some (v, rest)"
  by (simp add: scan_literal_def)

lemma parse_array:
  assumes "starts_value s"
  shows "parse_val (Suc n) (Suc d) (CHR ''['' # s) =
    Option.bind (parse_val n d s) (\<lambda>(v, r').
    Option.bind (parse_elems n d r') (\<lambda>(vs, r''). Some (JArr (v # vs), r'')))"
proof -
  obtain c cs where s: "s = c # cs" "c \<noteq> CHR '']''" using assms by (cases s) (auto simp: starts_value_def)
  show ?thesis using skip_ws_starts [OF assms] s by (simp add: skip_ws_Cons)
qed

lemma parse_object:
  "parse_val (Suc n) (Suc d) (CHR ''{'' # json_quote k @ CHR '':'' # s) =
    Option.bind (parse_val n d s) (\<lambda>(v, r').
    Option.bind (parse_members n d r') (\<lambda>(ms, r''). Some (JObj ((k, v) # ms), r'')))"
proof -
  have q: "skip_ws (json_quote k @ t) = dquote # (tl (json_quote k) @ t)" for t
    using json_quote_Cons [of k] by (metis append_Cons not_space(1) skip_ws_Cons)
  have "scan_key (dquote # (tl (json_quote k) @ CHR '':'' # s)) = Some (k, s)"
    using scan_key_quote [of k s] json_quote_Cons [of k] by (metis append_Cons)
  then show ?thesis by (simp add: skip_ws_Cons q) (simp add: dquote_def)
qed

lemma parse_number:
  assumes "valid_number s" "number_stop rest"
  shows "parse_val (Suc n) d (s @ rest) = Some (JNum s, rest)"
proof -
  obtain c cs where s: "s = c # cs" "is_digit c \<or> c = CHR ''-''" using valid_number_starts [OF assms(1)] by blast
  note c = digit_starts [OF s(2)]
  have "skip_ws (s @ rest) = s @ rest" using c s(1) by (simp add: skip_ws_Cons)
  then show ?thesis using c s(1) scan_number_append [OF assms] by simp
qed

lemma parse_string: "parse_val (Suc n) d (json_quote s @ rest) = Some (JStr s, rest)"
proof -
  have "parse_val (Suc n) d (dquote # (tl (json_quote s) @ rest)) = Some (JStr s, rest)"
    using scan_string_quote [of s rest] by (simp add: skip_ws_Cons) (simp add: dquote_def)
  then show ?thesis using json_quote_Cons [of s] by (metis append_Cons)
qed

text \<open>The text of a value is parsed back whatever follows it, and its length is enough fuel.\<close>

lemma parse_text:
  "json_ok d v \<Longrightarrow> length (json_text v) \<le> n \<Longrightarrow> number_stop rest \<Longrightarrow>
    parse_val n d (json_text v @ rest) = Some (v, rest)"
  "\<forall>v\<in>set vs. json_ok d v \<Longrightarrow> length (json_elems vs) \<le> n \<Longrightarrow>
    parse_elems n d (json_elems vs @ rest) = Some (vs, rest)"
  "\<forall>m\<in>set ms. json_ok d (snd m) \<Longrightarrow> length (json_members ms) \<le> n \<Longrightarrow>
    parse_members n d (json_members ms @ rest) = Some (ms, rest)"
proof (induction v and vs and ms arbitrary: n d rest and n d rest and n d rest
    rule: json_text_json_elems_json_members.induct)
  case 1
  then show ?case
    by (cases n) (simp_all add: skip_ws_Cons dquote_def scan_literal_append [of "''null''", simplified])
next
  case (2 b)
  then show ?case
    by (cases n; cases b) (simp_all add: skip_ws_Cons dquote_def scan_literal_append [of "''true''", simplified]
        scan_literal_append [of "''false''", simplified])
next
  case (3 s)
  obtain m where "n = Suc m" using 3 valid_number_starts [of s] by (cases n) auto
  then show ?case using 3 parse_number [of s rest] by simp
next
  case (4 s)
  obtain m where n: "n = Suc m" using 4 by (cases n) (simp_all add: json_quote_def)
  show ?case by (simp only: n json_text.simps parse_string)
next
  case 5
  obtain m e where "n = Suc m" "d = Suc e" using 5 by (cases n; cases d) simp_all
  then show ?case by (simp add: skip_ws_Cons)
next
  case (6 v vs)
  obtain m e where nd: "n = Suc m" "d = Suc e" using 6(3,4) by (cases n; cases d) simp_all
  have ok: "json_ok e v" "\<forall>v\<in>set vs. json_ok e v" using 6(3) nd by simp_all
  have st: "starts_value (json_text v @ json_elems vs @ rest)"
    by (rule starts_value_append [OF json_text_starts [OF ok(1)]])
  have ns: "number_stop (json_elems vs @ rest)" by (cases vs) (simp_all add: number_stop_def is_digit_def byte_of_def)
  have "parse_val m e (json_text v @ json_elems vs @ rest) = Some (v, json_elems vs @ rest)"
    by (rule 6(1) [OF ok(1) _ ns]) (use 6(4) nd in simp)
  moreover have "parse_elems m e (json_elems vs @ rest) = Some (vs, rest)"
    by (rule 6(2) [OF ok(2)]) (use 6(4) nd in simp)
  ultimately show ?case using parse_array [OF st, of m e] by (simp add: nd)
next
  case 7
  obtain m e where "n = Suc m" "d = Suc e" using 7 by (cases n; cases d) simp_all
  then show ?case by (simp add: skip_ws_Cons)
next
  case (8 k v ms)
  obtain m e where nd: "n = Suc m" "d = Suc e" using 8(3,4) by (cases n; cases d) simp_all
  have ok: "json_ok e v" "\<forall>m\<in>set ms. json_ok e (snd m)" using 8(3) nd by simp_all
  have ns: "number_stop (json_members ms @ rest)" by (cases ms) (auto simp: number_stop_def is_digit_def byte_of_def)
  have "parse_val m e (json_text v @ json_members ms @ rest) = Some (v, json_members ms @ rest)"
    by (rule 8(1) [OF ok(1) _ ns]) (use 8(4) nd in simp)
  moreover have "parse_members m e (json_members ms @ rest) = Some (ms, rest)"
    by (rule 8(2) [OF ok(2)]) (use 8(4) nd in simp)
  ultimately show ?case unfolding nd by (simp del: parse_val.simps add: parse_object)
next
  case 9
  then obtain m where "n = Suc m" by (cases n) simp_all
  then show ?case by (simp add: skip_ws_Cons)
next
  case (10 v vs)
  obtain m where n: "n = Suc m" using 10(4) by (cases n) simp_all
  have ok: "json_ok d v" "\<forall>v\<in>set vs. json_ok d v" using 10(3) by simp_all
  have ns: "number_stop (json_elems vs @ rest)" by (cases vs) (simp_all add: number_stop_def is_digit_def byte_of_def)
  have "parse_val m d (json_text v @ json_elems vs @ rest) = Some (v, json_elems vs @ rest)"
    by (rule 10(1) [OF ok(1) _ ns]) (use 10(4) n in simp)
  moreover have "parse_elems m d (json_elems vs @ rest) = Some (vs, rest)"
    by (rule 10(2) [OF ok(2)]) (use 10(4) n in simp)
  ultimately show ?case by (simp add: n skip_ws_Cons)
next
  case 11
  then obtain m where "n = Suc m" by (cases n) simp_all
  then show ?case by (simp add: skip_ws_Cons)
next
  case (12 k v ms)
  obtain m where n: "n = Suc m" using 12(4) by (cases n) simp_all
  have ok: "json_ok d v" "\<forall>m\<in>set ms. json_ok d (snd m)" using 12(3) by simp_all
  have ns: "number_stop (json_members ms @ rest)" by (cases ms) (auto simp: number_stop_def is_digit_def byte_of_def)
  have "parse_val m d (json_text v @ json_members ms @ rest) = Some (v, json_members ms @ rest)"
    by (rule 12(1) [OF ok(1) _ ns]) (use 12(4) n in simp)
  moreover have "parse_members m d (json_members ms @ rest) = Some (ms, rest)"
    by (rule 12(2) [OF ok(2)]) (use 12(4) n in simp)
  ultimately show ?case by (simp add: n skip_ws_Cons scan_key_quote)
qed

lemma parse_next_text: "json_ok maxNestingDepth v \<Longrightarrow> number_stop rest \<Longrightarrow> parse_next (json_text v @ rest) = Some (v, rest)"
  unfolding parse_next_def by (rule parse_text(1)) simp_all

lemma parse_json_text: "json_ok maxNestingDepth v \<Longrightarrow> parse_json (json_text v) = Some v"
  using parse_next_text [of v "[]"] by (simp add: parse_json_def number_stop_def skip_ws_def)

text \<open>A text that goes on after its first value is refused as a whole.\<close>

lemma parse_json_two:
  assumes "json_ok maxNestingDepth v" "number_stop rest" "skip_ws rest \<noteq> []"
  shows "parse_json (json_text v @ rest) = None"
  using parse_next_text [OF assms(1,2)] assms(3) by (simp add: parse_json_def)

lemma parse_json_empty: "parse_json [] = None"
  by (simp add: parse_json_def parse_next_def skip_ws_def)

section \<open>The fuel of the parser\<close>

text \<open>Every parse consumes input, so a text parses with the fuel \<open>parse_next\<close> gives it if it parses at all.\<close>

lemma skip_ws_length: "length (skip_ws s) \<le> length s"
  by (simp add: skip_ws_def length_dropWhile_le)

lemma scan_string_shorter: "scan_string s = Some (t, r) \<Longrightarrow> length r < length s"
proof (induction s arbitrary: t rule: scan_string.induct)
  case (1 s)
  from "1.prems" obtain c cs where s: "s = c # cs" by (subst (asm) scan_string.simps) (auto split: list.splits)
  show ?case
  proof (cases "c = dquote")
    case True
    then show ?thesis using "1.prems" s by (subst (asm) scan_string.simps) simp
  next
    case False
    obtain out n t' where "scan_char s = Some (out, n)" "scan_string (drop (n - 1) cs) = Some (t', r)"
      using "1.prems" False s by (subst (asm) scan_string.simps) (auto split: option.splits)
    then have "length r < length (drop (n - 1) cs)" using "1.IH" [OF s False] by auto
    then show ?thesis using s by simp
  qed
qed

lemma case_list_someE:
  assumes "(case xs of [] \<Rightarrow> None | x # xs' \<Rightarrow> f x xs') = Some y"
  obtains x xs' where "xs = x # xs'" "f x xs' = Some y"
  using assms by (cases xs) simp_all

lemma scan_key_shorter: "scan_key s = Some (k, r) \<Longrightarrow> length r < length s"
proof -
  assume k: "scan_key s = Some (k, r)"
  obtain c cs where s: "skip_ws s = c # cs" using k unfolding scan_key_def by (elim case_list_someE)
  obtain r' where "scan_string cs = Some (k, r')" "skip_ws r' = CHR '':'' # r"
    using k s by (auto simp: scan_key_def bind_eq_Some_conv split: if_splits elim!: case_list_someE)
  then show ?thesis
    using scan_string_shorter [of cs k r'] skip_ws_length [of r'] skip_ws_length [of s] s by simp
qed

lemma takeWhile_dropWhile_length: "length (takeWhile P s) + length (dropWhile P s) = length s"
  by (metis length_append takeWhile_dropWhile_id)

lemma scan_number_shorter: "scan_number s = Some (t, r) \<Longrightarrow> length r < length s"
proof -
  assume n: "scan_number s = Some (t, r)"
  obtain sign s1 i s2 f s3 e where
      p: "(case s of c # cs \<Rightarrow> if c = CHR ''-'' then ([c], cs) else ([], s) | [] \<Rightarrow> ([], [])) = (sign, s1)"
      "number_int s1 = Some (i, s2)" "number_frac s2 = Some (f, s3)" "number_exp s3 = Some (e, r)"
    using n by (auto simp: scan_number_def bind_eq_Some_conv split: prod.splits)
  have "length s1 \<le> length s" using p(1) by (auto split: list.splits if_splits)
  moreover have "length s2 < length s1"
    using p(2) length_dropWhile_le [of is_digit] by (auto simp: number_int_def less_Suc_eq_le split: list.splits if_splits)
  moreover have "length s3 \<le> length s2"
    using p(3) length_dropWhile_le [of is_digit] by (auto simp: number_frac_def le_SucI split: list.splits if_splits)
  moreover have "length r \<le> length s3"
  proof (cases s3)
    case (Cons c cs)
    have "length (dropWhile is_digit cs) \<le> Suc (length cs)" "length (dropWhile is_digit (tl cs)) \<le> Suc (length cs)"
      using length_dropWhile_le [of is_digit cs] length_dropWhile_le [of is_digit "tl cs"] by simp_all
    then show ?thesis
      using p(4) Cons by (cases cs) (auto simp: number_exp_def Let_def split: if_splits)
  qed (use p(4) in \<open>simp add: number_exp_def\<close>)
  ultimately show ?thesis by linarith
qed

lemma scan_literal_shorter: "scan_literal lit v s = Some (w, r) \<Longrightarrow> lit \<noteq> [] \<Longrightarrow> length r < length s"
  by (auto simp: scan_literal_def split: if_splits) (metis diff_less length_greater_0_conv take_Nil)

lemma parse_shorter:
  "parse_val n d s = Some (v, r) \<Longrightarrow> length r < length s"
  "parse_elems n d s = Some (vs, r) \<Longrightarrow> length r < length s"
  "parse_members n d s = Some (ms, r) \<Longrightarrow> length r < length s"
proof (induction n arbitrary: d s v vs ms r)
  case (Suc n)
  note sw = skip_ws_length
  {
    case 1
    then obtain c cs where s: "skip_ws s = c # cs" unfolding parse_val.simps by (elim case_list_someE)
    have cs: "length cs < length s" using sw [of s] s by simp
    show ?case
    proof (cases "c = CHR ''{'' \<or> c = CHR ''[''")
      case True
      have d: "d \<noteq> 0" using True 1 s by (cases d) auto
      obtain c' cs' where s': "skip_ws cs = c' # cs'"
        using 1 s True d by (cases "skip_ws cs") auto
      have cs': "length cs' < length cs" using sw [of cs] s' by simp
      show ?thesis
        using 1 s s' d True cs cs'
        by (auto simp: bind_eq_Some_conv split: if_splits
            dest!: Suc.IH(1) Suc.IH(2) Suc.IH(3) scan_key_shorter)
    next
      case False
      show ?thesis
        using 1 s False cs sw [of s]
        by (auto split: if_splits dest!: scan_string_shorter scan_number_shorter scan_literal_shorter)
    qed
  next
    case 2
    then obtain c cs where s: "skip_ws s = c # cs" unfolding parse_elems.simps by (elim case_list_someE)
    have cs: "length cs < length s" using sw [of s] s by simp
    show ?case
      using 2 s cs by (auto simp: bind_eq_Some_conv split: if_splits dest!: Suc.IH(1) Suc.IH(2))
  next
    case 3
    then obtain c cs where s: "skip_ws s = c # cs" unfolding parse_members.simps by (elim case_list_someE)
    have cs: "length cs < length s" using sw [of s] s by simp
    show ?case
      using 3 s cs by (auto simp: bind_eq_Some_conv split: if_splits dest!: Suc.IH(1) Suc.IH(3) scan_key_shorter)
  }
qed simp_all

lemma parse_more_fuel:
  "length s < n \<Longrightarrow> n \<le> m \<Longrightarrow> parse_val m d s = parse_val n d s"
  "length s < n \<Longrightarrow> n \<le> m \<Longrightarrow> parse_elems m d s = parse_elems n d s"
  "length s < n \<Longrightarrow> n \<le> m \<Longrightarrow> parse_members m d s = parse_members n d s"
proof (induction n arbitrary: d s m)
  case (Suc n)
  note sw = skip_ws_length
  {
    case 1
    obtain m' where m: "m = Suc m'" "n \<le> m'" using 1(2) by (cases m) simp_all
    note IH = Suc.IH(1) [OF _ m(2)] Suc.IH(2) [OF _ m(2)] Suc.IH(3) [OF _ m(2)]
    show ?case
    proof (cases "skip_ws s")
      case (Cons c cs)
      have cs: "length cs < n" using sw [of s] Cons 1(1) by simp
      show ?thesis
      proof (cases "skip_ws cs")
        case (Cons c' cs')
        have cs': "length (c' # cs') < n" using sw [of cs] Cons cs by simp
        show ?thesis
          unfolding m parse_val.simps \<open>skip_ws s = c # cs\<close>
          using cs' by (auto simp: Cons intro!: Option.bind_cong IH dest!: scan_key_shorter parse_shorter)
      qed (simp add: m Cons)
    qed (simp add: m)
  next
    case 2
    obtain m' where m: "m = Suc m'" "n \<le> m'" using 2(2) by (cases m) simp_all
    note IH = Suc.IH(1) [OF _ m(2)] Suc.IH(2) [OF _ m(2)] Suc.IH(3) [OF _ m(2)]
    show ?case
    proof (cases "skip_ws s")
      case (Cons c cs)
      have cs: "length cs < n" using sw [of s] Cons 2(1) by simp
      show ?thesis
        unfolding m parse_elems.simps Cons
        using cs by (auto intro!: Option.bind_cong IH dest!: parse_shorter)
    qed (simp add: m)
  next
    case 3
    obtain m' where m: "m = Suc m'" "n \<le> m'" using 3(2) by (cases m) simp_all
    note IH = Suc.IH(1) [OF _ m(2)] Suc.IH(2) [OF _ m(2)] Suc.IH(3) [OF _ m(2)]
    show ?case
    proof (cases "skip_ws s")
      case (Cons c cs)
      have cs: "length cs < n" using sw [of s] Cons 3(1) by simp
      show ?thesis
        unfolding m parse_members.simps Cons
        using cs by (auto intro!: Option.bind_cong IH dest!: scan_key_shorter parse_shorter)
    qed (simp add: m)
  }
qed simp_all

lemma parse_next_fuel: "length s < n \<Longrightarrow> parse_val n maxNestingDepth s = parse_next s"
  unfolding parse_next_def by (rule parse_more_fuel(1)) simp_all

end
