(* ===== verification/Go_Decode.thy ===== *)
theory Go_Decode
  imports Go_Json
begin

text \<open>
  How \<open>encoding/json\<close> maps Go types to JSON. A decoder stores a JSON value into an existing Go value,
  as \<open>Unmarshal\<close> does: null leaves most types alone, members that the type does not have are ignored,
  names match without regard to case, and a value of the wrong type is remembered as an error while
  decoding goes on; an error of a type's own decoder ends it. What lies beyond the length of a slice
  that a repeated member has shortened is taken to be zero.
\<close>

section \<open>Decoders\<close>

datatype dec_error = Decoded | Mismatch | Aborted

type_synonym 'a decoder = "json \<Rightarrow> 'a \<Rightarrow> 'a \<times> dec_error"

fun worse :: "dec_error \<Rightarrow> dec_error \<Rightarrow> dec_error" where
  "worse Decoded e = e"
| "worse Mismatch Decoded = Mismatch"
| "worse Mismatch e = e"
| "worse Aborted e = Aborted"

lemma worse_Decoded [simp]: "worse e Decoded = e"
  by (cases e) simp_all

lemma worse_eq_Decoded [simp]: "worse e e' = Decoded \<longleftrightarrow> e = Decoded \<and> e' = Decoded"
  by (cases e; cases e') simp_all

definition dec_string :: "string decoder" where
  "dec_string j old = (case j of JStr s \<Rightarrow> (s, Decoded) | JNull \<Rightarrow> (old, Decoded) | _ \<Rightarrow> (old, Mismatch))"

definition dec_bool :: "bool decoder" where
  "dec_bool j old = (case j of JBool b \<Rightarrow> (b, Decoded) | JNull \<Rightarrow> (old, Decoded) | _ \<Rightarrow> (old, Mismatch))"

definition dec_number :: "(string \<Rightarrow> 'a option) \<Rightarrow> 'a decoder" where
  "dec_number parse j old =
     (case j of
        JNum t \<Rightarrow> (case parse t of Some x \<Rightarrow> (x, Decoded) | None \<Rightarrow> (old, Mismatch))
      | JNull \<Rightarrow> (old, Decoded)
      | _ \<Rightarrow> (old, Mismatch))"

text \<open>\<open>int\<close> and \<open>int64\<close> by \<open>ParseInt\<close>, \<open>uint64\<close> and \<open>byte\<close> by \<open>ParseUint\<close> with the check of the width.\<close>

definition dec_int :: "int decoder" where
  "dec_int = dec_number Atoi"

definition dec_uint64 :: "uint64 decoder" where
  "dec_uint64 = dec_number ParseUint"

definition dec_byte :: "8 word decoder" where
  "dec_byte = dec_number (\<lambda>t. case ParseUint t of
     Some w \<Rightarrow> if unat w < 256 then Some (of_nat (unat w)) else None
   | None \<Rightarrow> None)"

text \<open>A type with its own \<open>UnmarshalJSON\<close> on string literals that ignores null (\<open>time.Time\<close>).\<close>

definition dec_text :: "(string \<Rightarrow> 'a option) \<Rightarrow> 'a decoder" where
  "dec_text parse j old =
     (case j of
        JStr s \<Rightarrow> (case parse s of Some x \<Rightarrow> (x, Decoded) | None \<Rightarrow> (old, Aborted))
      | JNull \<Rightarrow> (old, Decoded)
      | _ \<Rightarrow> (old, Aborted))"

text \<open>Structs: the decoder of a field updates the struct.\<close>

definition field :: "('r \<Rightarrow> 'a) \<Rightarrow> (('a \<Rightarrow> 'a) \<Rightarrow> 'r \<Rightarrow> 'r) \<Rightarrow> 'a decoder \<Rightarrow> 'r decoder" where
  "field get upd d j r = (let (x, e) = d j (get r) in (upd (\<lambda>_. x) r, e))"

definition find_field :: "(string \<times> 'f) list \<Rightarrow> string \<Rightarrow> 'f option" where
  "find_field fs k =
     (case map_of fs k of
        Some d \<Rightarrow> Some d
      | None \<Rightarrow> map_of (map (\<lambda>(n, d). (to_lower n, d)) fs) (to_lower k))"

fun dec_members :: "(string \<times> 'r decoder) list \<Rightarrow> (string \<times> json) list \<Rightarrow> 'r \<Rightarrow> dec_error \<Rightarrow> 'r \<times> dec_error" where
  "dec_members fs [] r e = (r, e)"
| "dec_members fs ((k, j) # ms) r e =
     (case find_field fs k of
        None \<Rightarrow> dec_members fs ms r e
      | Some d \<Rightarrow>
          (case d j r of
             (r', Aborted) \<Rightarrow> (r', Aborted)
           | (r', e') \<Rightarrow> dec_members fs ms r' (worse e e')))"

definition dec_struct :: "(string \<times> 'r decoder) list \<Rightarrow> 'r decoder" where
  "dec_struct fs j r =
     (case j of JObj ms \<Rightarrow> dec_members fs ms r Decoded | JNull \<Rightarrow> (r, Decoded) | _ \<Rightarrow> (r, Mismatch))"

definition dec_ptr :: "'a \<Rightarrow> 'a decoder \<Rightarrow> 'a option decoder" where
  "dec_ptr zero d j old =
     (if j = JNull then (None, Decoded)
      else let (x, e) = d j (case old of Some o' \<Rightarrow> o' | None \<Rightarrow> zero) in (Some x, e))"

fun dec_elems :: "'a \<Rightarrow> 'a decoder \<Rightarrow> json list \<Rightarrow> 'a list \<Rightarrow> dec_error \<Rightarrow> 'a list \<times> dec_error" where
  "dec_elems zero d [] old e = ([], e)"
| "dec_elems zero d (j # js) old e =
     (case d j (case old of [] \<Rightarrow> zero | x # _ \<Rightarrow> x) of
        (x, Aborted) \<Rightarrow> (x # tl old, Aborted)
      | (x, e') \<Rightarrow> (let (xs, e'') = dec_elems zero d js (tl old) (worse e e') in (x # xs, e'')))"

definition dec_slice :: "'a \<Rightarrow> 'a decoder \<Rightarrow> 'a list decoder" where
  "dec_slice zero d j old =
     (case j of JArr vs \<Rightarrow> dec_elems zero d vs old Decoded | JNull \<Rightarrow> ([], Decoded) | _ \<Rightarrow> (old, Mismatch))"

text \<open>The value of an entry is decoded before its key.\<close>

fun dec_entries ::
  "(string \<Rightarrow> 'k option) \<Rightarrow> 'v \<Rightarrow> 'v decoder \<Rightarrow> (string \<times> json) list \<Rightarrow> ('k, 'v) gomap \<Rightarrow> dec_error \<Rightarrow>
     ('k, 'v) gomap \<times> dec_error" where
  "dec_entries key zero d [] m e = (m, e)"
| "dec_entries key zero d ((k, j) # ms) m e =
     (case d j zero of
        (v, Aborted) \<Rightarrow> (m, Aborted)
      | (v, e') \<Rightarrow>
          (case key k of
             None \<Rightarrow> (m, Aborted)
           | Some k' \<Rightarrow> dec_entries key zero d ms (gm_put k' v m) (worse e e')))"

definition dec_map :: "(string \<Rightarrow> 'k option) \<Rightarrow> 'v \<Rightarrow> 'v decoder \<Rightarrow> ('k, 'v) gomap decoder" where
  "dec_map key zero d j old =
     (case j of JObj ms \<Rightarrow> dec_entries key zero d ms old Decoded | JNull \<Rightarrow> ([], Decoded) | _ \<Rightarrow> (old, Mismatch))"

text \<open>\<open>Unmarshal\<close>: the value afterwards and whether there was an error.\<close>

definition Unmarshal :: "'a decoder \<Rightarrow> string \<Rightarrow> 'a \<Rightarrow> 'a \<times> bool" where
  "Unmarshal d s old =
     (case parse_json s of
        None \<Rightarrow> (old, True)
      | Some j \<Rightarrow> let (x, e) = d j old in (x, e \<noteq> Decoded))"

section \<open>Encoders\<close>

text \<open>A value may have no text: a time outside the years 0 to 9999.\<close>

type_synonym 'a encoder = "'a \<Rightarrow> json option"

definition enc_string :: "string encoder" where "enc_string s = Some (JStr s)"
definition enc_bool :: "bool encoder" where "enc_bool b = Some (JBool b)"
definition enc_int :: "int encoder" where "enc_int i = Some (JNum (Itoa i))"
definition enc_word :: "'w::len word encoder" where "enc_word w = Some (JNum (decimal (unat w)))"

definition enc_text :: "('a \<Rightarrow> string option) \<Rightarrow> 'a encoder" where
  "enc_text fmt x = map_option JStr (fmt x)"

fun enc_list :: "'a encoder \<Rightarrow> 'a list \<Rightarrow> json list option" where
  "enc_list enc [] = Some []"
| "enc_list enc (x # xs) =
     Option.bind (enc x) (\<lambda>j. Option.bind (enc_list enc xs) (\<lambda>js. Some (j # js)))"

definition enc_slice :: "'a encoder \<Rightarrow> 'a list encoder" where
  "enc_slice enc xs = map_option JArr (enc_list enc xs)"

text \<open>Fields in the order of the struct; \<open>None\<close> is a field left out by \<open>omitempty\<close>.\<close>

fun enc_fields :: "(string \<times> json option option) list \<Rightarrow> (string \<times> json) list option" where
  "enc_fields [] = Some []"
| "enc_fields ((k, f) # fs) =
     (case f of
        None \<Rightarrow> enc_fields fs
      | Some None \<Rightarrow> None
      | Some (Some j) \<Rightarrow> map_option (\<lambda>ms. (k, j) # ms) (enc_fields fs))"

definition enc_struct :: "(string \<times> json option option) list \<Rightarrow> json option" where
  "enc_struct fs = map_option JObj (enc_fields fs)"

text \<open>Entries of a map are written in the order of their keys' texts.\<close>

fun insert_entry :: "string \<times> 'v \<Rightarrow> (string \<times> 'v) list \<Rightarrow> (string \<times> 'v) list" where
  "insert_entry e [] = [e]"
| "insert_entry e (x # xs) = (if str_le (fst e) (fst x) then e # x # xs else x # insert_entry e xs)"

definition sort_entries :: "(string \<times> 'v) list \<Rightarrow> (string \<times> 'v) list" where
  "sort_entries es = foldr insert_entry es []"

definition enc_map :: "('k \<Rightarrow> string) \<Rightarrow> 'v encoder \<Rightarrow> ('k, 'v) gomap encoder" where
  "enc_map text enc m =
     (if m = [] then Some JNull
      else Option.bind (enc_list enc (map snd m)) (\<lambda>js. Some (JObj (sort_entries (zip (map (text \<circ> fst) m) js)))))"

definition Marshal :: "'a encoder \<Rightarrow> 'a \<Rightarrow> string option" where
  "Marshal enc x = map_option json_text (enc x)"

section \<open>Round trips of the parts\<close>

named_theorems dec_enc \<open>what a decoder makes of an encoded value\<close>
named_theorems enc_shape \<open>the values that encoders write\<close>

lemma dec_members_Decoded:
  "find_field fs k = Some d \<Longrightarrow> d j r = (r', Decoded) \<Longrightarrow>
    dec_members fs ((k, j) # ms) r Decoded = dec_members fs ms r' Decoded"
  by simp

lemma dec_string_enc [dec_enc]: "dec_string (JStr s) old = (s, Decoded)"
  by (simp add: dec_string_def)

lemma dec_bool_enc [dec_enc]: "dec_bool (JBool b) old = (b, Decoded)"
  by (simp add: dec_bool_def)

definition int64 :: "int \<Rightarrow> bool" where
  "int64 i \<longleftrightarrow> - (2 ^ 63) \<le> i \<and> i < 2 ^ 63"

lemma Atoi_Itoa: "int64 i \<Longrightarrow> Atoi (Itoa i) = Some i"
proof (cases "i < 0")
  case True
  assume "int64 i"
  then have "nat (- i) < 2 ^ 63 + 1" unfolding int64_def by (simp add: nat_less_iff) linarith
  then have "parse_digits (2 ^ 63 + 1) 0 (decimal (nat (- i))) = Some (nat (- i))" by (rule parse_decimal)
  then show ?thesis using True by (simp add: Atoi_def Itoa_def)
next
  case False
  assume "int64 i"
  then show ?thesis using False Atoi_decimal [of "nat i"] by (simp add: int64_def Itoa_def)
qed

lemma dec_int_enc [dec_enc]: "int64 i \<Longrightarrow> dec_int (JNum (Itoa i)) old = (i, Decoded)"
  by (simp add: dec_int_def dec_number_def Atoi_Itoa)

lemma dec_uint64_enc [dec_enc]: "dec_uint64 (JNum (decimal (unat w))) old = (w, Decoded)"
proof -
  have "unat w < 2 ^ 64" using unsigned_less [of w] by simp
  then show ?thesis by (simp add: dec_uint64_def dec_number_def ParseUint_decimal)
qed

lemma dec_byte_enc [dec_enc]: "dec_byte (JNum (decimal (unat w))) old = (w, Decoded)"
proof -
  have "unat w < 2 ^ 8" using unsigned_less [of w] by simp
  have w: "of_nat (unat w) = w" by simp
  have b: "unat w < 2 ^ LENGTH(64)" using \<open>unat w < 2 ^ 8\<close> by simp
  have "ParseUint (decimal (unat w)) = Some (of_nat (unat w))" by (rule ParseUint_decimal) (use b in simp)
  moreover have "unat (of_nat (unat w) :: uint64) = unat w" by (simp only: unat_of_nat mod_less [OF b])
  moreover have "unat w < 256" using \<open>unat w < 2 ^ 8\<close> by simp
  ultimately show ?thesis unfolding dec_byte_def dec_number_def by (simp only: json.case option.case if_True w)
qed

lemma dec_text_enc [dec_enc]: "parse s = Some x \<Longrightarrow> dec_text parse (JStr s) old = (x, Decoded)"
  by (simp add: dec_text_def)

lemma dec_ptr_enc [dec_enc]: "j \<noteq> JNull \<Longrightarrow> d j zero = (x, Decoded) \<Longrightarrow> dec_ptr zero d j None = (Some x, Decoded)"
  by (simp add: dec_ptr_def)

declare valid_number_Itoa [simp]

lemma valid_number_decimal [simp]: "valid_number (decimal n)"
  using valid_number_Itoa [of "int n"] by (simp add: Itoa_def)

lemma json_ok_numbers [simp]: "json_ok d (JNum (Itoa i))" "json_ok d (JNum (decimal n))"
  by (simp_all add: valid_number_Itoa valid_number_decimal)

lemma json_ok_mono: "json_ok d v \<Longrightarrow> d \<le> d' \<Longrightarrow> json_ok d' v"
proof (induction d v arbitrary: d' rule: json_ok.induct)
  case (2 d vs)
  then show ?case using diff_le_mono [OF 2(3), of 1] by auto
next
  case (3 d ms)
  then show ?case using diff_le_mono [OF 3(3), of 1] by auto
qed simp_all

subsection \<open>Slices\<close>

lemma enc_list_Some:
  assumes "\<And>x. x \<in> set xs \<Longrightarrow> \<exists>j. enc x = Some j"
  shows "enc_list enc xs = Some (map (the \<circ> enc) xs)"
  using assms by (induction xs) force+

lemma dec_elems_enc:
  assumes "\<And>x. x \<in> set xs \<Longrightarrow> d (f x) zero = (g x, Decoded)"
  shows "dec_elems zero d (map f xs) [] Decoded = (map g xs, Decoded)"
  using assms by (induction xs) simp_all

lemma slice_codec:
  assumes "\<And>x. x \<in> set xs \<Longrightarrow> \<exists>j. enc x = Some j \<and> d j zero = (canon x, Decoded) \<and> json_ok n j"
  shows "\<exists>js. enc_slice enc xs = Some (JArr js) \<and> dec_slice zero d (JArr js) [] = (map canon xs, Decoded) \<and>
    json_ok (Suc n) (JArr js)"
proof -
  have e: "enc x = Some (the (enc x)) \<and> d (the (enc x)) zero = (canon x, Decoded) \<and> json_ok n (the (enc x))"
    if "x \<in> set xs" for x using assms [OF that] by auto
  have "enc_slice enc xs = Some (JArr (map (the \<circ> enc) xs))"
    using enc_list_Some [of xs enc] assms by (fastforce simp: enc_slice_def)
  moreover have "dec_slice zero d (JArr (map (the \<circ> enc) xs)) [] = (map canon xs, Decoded)"
    using dec_elems_enc [of xs d "the \<circ> enc" zero canon] e by (simp add: dec_slice_def)
  moreover have "json_ok (Suc n) (JArr (map (the \<circ> enc) xs))" using e by simp
  ultimately show ?thesis by blast
qed

subsection \<open>Maps\<close>

definition canon_map :: "('k \<Rightarrow> string) \<Rightarrow> ('k, 'v) gomap \<Rightarrow> ('k, 'v) gomap" where
  "canon_map text m = map snd (sort_entries (map (\<lambda>(k, v). (text k, k, v)) m))"

lemma insert_entry_map: "insert_entry (k, f v) (map (\<lambda>(k, v). (k, f v)) es) = map (\<lambda>(k, v). (k, f v)) (insert_entry (k, v) es)"
  by (induction es) auto

lemma sort_entries_map: "sort_entries (map (\<lambda>(k, v). (k, f v)) es) = map (\<lambda>(k, v). (k, f v)) (sort_entries es)"
  unfolding sort_entries_def by (induction es) (auto simp: insert_entry_map)

lemma insert_entry_mset: "mset (insert_entry e es) = add_mset e (mset es)"
  by (induction es) auto

lemma sort_entries_mset: "mset (sort_entries es) = mset es"
  unfolding sort_entries_def by (induction es) (simp_all add: insert_entry_mset)

lemma sort_entries_set [simp]: "set (sort_entries es) = set es"
  by (metis set_mset_mset sort_entries_mset)

lemma canon_map_mset: "mset (canon_map text m) = mset m"
proof -
  have "mset (canon_map text m) = mset (map snd (map (\<lambda>(k, v). (text k, k, v)) m))"
    unfolding canon_map_def by (simp only: mset_map sort_entries_mset)
  also have "map snd (map (\<lambda>(k, v). (text k, k, v)) m) = m" by (simp add: comp_def case_prod_beta)
  finally show ?thesis .
qed

lemma canon_map_get [simp]: "gm_wf m \<Longrightarrow> gm_get (canon_map text m) = gm_get m"
  by (rule gm_get_mset [OF _ canon_map_mset])

lemma canon_map_wf [simp]: "gm_wf (canon_map text m) = gm_wf m"
  using range_order_wf [of "canon_map text" m] by (simp add: range_order_def canon_map_mset)

lemma canon_map_set [simp]: "set (canon_map text m) = set m"
  by (metis set_mset_mset canon_map_mset)

lemma canon_map_Nil [simp]: "canon_map text [] = []"
  by (simp add: canon_map_def sort_entries_def)

lemma canon_map_eq_Nil [simp]: "canon_map text m = [] \<longleftrightarrow> m = []"
  by (metis canon_map_set set_empty)

text \<open>Decoding a map into an existing one keeps the entries it does not mention; null empties it.\<close>

definition merge_map :: "('k \<Rightarrow> string) \<Rightarrow> ('k, 'v) gomap \<Rightarrow> ('k, 'v) gomap \<Rightarrow> ('k, 'v) gomap" where
  "merge_map text m old = (if m = [] then [] else fold (\<lambda>(k, v). gm_put k v) (canon_map text m) old)"

lemma fold_put_fresh:
  "distinct (map fst acc @ map fst es) \<Longrightarrow> fold (\<lambda>(k, v). gm_put k v) es acc = acc @ es"
proof (induction es arbitrary: acc)
  case (Cons e es)
  obtain k v where e: "e = (k, v)" by (cases e)
  have "gm_get acc k = None" using Cons.prems by (auto simp: e gm_get_def map_of_eq_None_iff)
  then have "gm_put k v acc = acc @ [(k, v)]" by (rule gm_put_fresh)
  moreover have "fold (\<lambda>(k, v). gm_put k v) es (acc @ [(k, v)]) = (acc @ [(k, v)]) @ es"
    by (rule Cons.IH) (use Cons.prems in \<open>auto simp: e\<close>)
  ultimately show ?case by (simp add: e)
qed simp

lemma merge_map_Nil [simp]: "gm_wf m \<Longrightarrow> merge_map text m [] = canon_map text m"
  using fold_put_fresh [of "[]" "canon_map text m"] canon_map_wf [of "text" m]
  by (simp add: merge_map_def gm_wf_def del: canon_map_wf)

lemma dec_entries_enc:
  assumes "\<And>t k v. (t, k, v) \<in> set es \<Longrightarrow> key t = Some k \<and> d (f v) zero = (v, Decoded)"
  shows "dec_entries key zero d (map (\<lambda>(t, kv). (t, f (snd kv))) es) acc Decoded =
    (fold (\<lambda>(k, v). gm_put k v) (map snd es) acc, Decoded)"
  using assms
proof (induction es arbitrary: acc)
  case (Cons e es)
  obtain t k v where e: "e = (t, k, v)" by (cases e)
  have "key t = Some k" "d (f v) zero = (v, Decoded)" using Cons.prems [of t k v] by (simp_all add: e)
  moreover have "dec_entries key zero d (map (\<lambda>(t, kv). (t, f (snd kv))) es) (gm_put k v acc) Decoded =
      (fold (\<lambda>(k, v). gm_put k v) (map snd es) (gm_put k v acc), Decoded)"
    by (rule Cons.IH) (use Cons.prems in \<open>auto simp: e\<close>)
  ultimately show ?case by (simp add: e)
qed simp

lemma map_codec:
  assumes "\<And>k v. (k, v) \<in> set m \<Longrightarrow> key (text k) = Some k \<and> (\<exists>j. enc v = Some j \<and> d j zero = (v, Decoded) \<and> json_ok n j)"
  shows "\<exists>j. enc_map text enc m = Some j \<and> (\<forall>old. dec_map key zero d j old = (merge_map text m old, Decoded)) \<and>
    json_ok (Suc n) j"
proof (cases "m = []")
  case False
  let ?es = "map (\<lambda>(k, v). (text k, k, v)) m"
  let ?f = "the \<circ> enc"
  let ?ms = "map (\<lambda>(t, kv). (t, ?f (snd kv))) (sort_entries ?es)"
  have e: "key (text k) = Some k \<and> enc v = Some (?f v) \<and> d (?f v) zero = (v, Decoded) \<and> json_ok n (?f v)"
    if "(k, v) \<in> set m" for k v using assms [OF that] by auto
  have "enc_list enc (map snd m) = Some (map ?f (map snd m))"
    by (rule enc_list_Some) (use assms in fastforce)
  moreover have "zip (map (text \<circ> fst) m) (map ?f (map snd m)) = map (\<lambda>(t, kv). (t, ?f (snd kv))) ?es"
    by (induction m) auto
  moreover have "sort_entries (map (\<lambda>(t, kv). (t, ?f (snd kv))) ?es) = ?ms"
    by (rule sort_entries_map)
  ultimately have j: "enc_map text enc m = Some (JObj ?ms)"
    using False by (simp add: enc_map_def)
  have "dec_entries key zero d ?ms old Decoded = (fold (\<lambda>(k, v). gm_put k v) (map snd (sort_entries ?es)) old, Decoded)" for old
    by (rule dec_entries_enc) (use e in auto)
  then have "dec_map key zero d (JObj ?ms) old = (merge_map text m old, Decoded)" for old
    using False by (simp add: dec_map_def merge_map_def canon_map_def)
  moreover have "json_ok (Suc n) (JObj ?ms)" using e by auto
  ultimately show ?thesis using j by blast
qed (simp add: enc_map_def dec_map_def merge_map_def)

lemma parse_next_space:
  assumes "json_space c"
  shows "parse_next (c # s) = parse_next s"
proof -
  have "parse_val (Suc n) d (c # s) = parse_val (Suc n) d s" for n d using assms by (simp add: skip_ws_Cons)
  then show ?thesis using parse_next_fuel [of s "Suc (length (c # s))"] by (simp add: parse_next_def)
qed

section \<open>Streams of values\<close>

text \<open>
  \<open>json.Decoder\<close> over a whole stream, each value decoded into a new zero value: the values in order up
  to the end of the stream or the first syntax error, which the decoder repeats from then on.
\<close>

datatype stream_error = StreamEOF | StreamSyntax | StreamMismatch

function decode_stream :: "'a decoder \<Rightarrow> 'a \<Rightarrow> string \<Rightarrow> (stream_error + 'a) list" where
  "decode_stream d zero s =
     (if skip_ws s = [] then [Inl StreamEOF]
      else case parse_next s of
        None \<Rightarrow> [Inl StreamSyntax]
      | Some (j, r) \<Rightarrow>
          (let (x, e) = d j zero in if e = Decoded then Inr x else Inl StreamMismatch) # decode_stream d zero r)"
  by pat_completeness auto
termination
  by (relation "measure (\<lambda>(d, zero, s). length s)") (auto simp: parse_next_def dest: parse_shorter(1) simp del: parse_val.simps)

declare decode_stream.simps [simp del]

section \<open>Types that are encoded as objects\<close>

text \<open>
  The contract of a type's encoder and of a decoder for its text: a value that is \<open>ok\<close> has a text, and
  decoding it gives \<open>canon\<close> of the value, for most types the value with its maps in the text's order.
\<close>

locale object_codec =
  fixes enc :: "'a encoder" and d :: "'b decoder" and zero :: 'b
    and ok :: "'a \<Rightarrow> bool" and canon :: "'a \<Rightarrow> 'b" and depth :: nat
  assumes depth_limit: "depth \<le> maxNestingDepth"
    and codec: "ok x \<Longrightarrow> \<exists>ms. enc x = Some (JObj ms) \<and> d (JObj ms) zero = (canon x, Decoded) \<and> json_ok depth (JObj ms)"
begin

lemma object_text:
  assumes "ok x"
  obtains ms where "Marshal enc x = Some (json_text (JObj ms))" "d (JObj ms) zero = (canon x, Decoded)"
    "json_ok maxNestingDepth (JObj ms)"
proof -
  obtain ms where "enc x = Some (JObj ms)" "d (JObj ms) zero = (canon x, Decoded)" "json_ok depth (JObj ms)"
    using codec [OF assms] by blast
  then show thesis using that json_ok_mono [OF _ depth_limit] by (simp del: json_ok.simps add: Marshal_def)
qed

lemma unmarshal_marshal:
  assumes "ok x"
  shows "\<exists>t. Marshal enc x = Some t \<and> t \<noteq> '''' \<and> Unmarshal d t zero = (canon x, False)"
proof -
  obtain ms where ms: "Marshal enc x = Some (json_text (JObj ms))" "d (JObj ms) zero = (canon x, Decoded)"
    "json_ok maxNestingDepth (JObj ms)" using assms by (rule object_text)
  moreover have "json_text (JObj ms) \<noteq> ''''" by (cases ms) auto
  ultimately show ?thesis by (simp add: Unmarshal_def parse_json_text)
qed

lemma unmarshal_two:
  assumes "ok x" "ok y" "Marshal enc x = Some t" "Marshal enc y = Some u"
  shows "Unmarshal d (t @ u @ rest) old = (old, True)"
proof -
  obtain ms where ms: "t = json_text (JObj ms)" "json_ok maxNestingDepth (JObj ms)"
    using assms(1,3) by (auto elim!: object_text)
  obtain ms' where "u = json_text (JObj ms')" using assms(2,4) by (auto elim!: object_text)
  then obtain u' where u: "u = CHR ''{'' # u'" by (cases ms') auto
  have "number_stop (u @ rest)" "skip_ws (u @ rest) \<noteq> []"
    by (simp_all add: u number_stop_def is_digit_def byte_of_def skip_ws_Cons)
  then show ?thesis using parse_json_two [OF ms(2)] by (simp add: Unmarshal_def ms(1))
qed

lemma stream_values:
  assumes "\<forall>x\<in>set xs. ok x"
  shows "decode_stream d zero (concat (map (\<lambda>x. the (Marshal enc x) @ [CHR 0x0A]) xs)) = map (Inr \<circ> canon) xs @ [Inl StreamEOF]"
  using assms
proof (induction xs)
  case Nil
  show ?case by (subst decode_stream.simps) (simp add: skip_ws_def)
next
  case (Cons x xs)
  let ?rest = "CHR 0x0A # concat (map (\<lambda>x. the (Marshal enc x) @ [CHR 0x0A]) xs)"
  obtain ms where ms: "Marshal enc x = Some (json_text (JObj ms))" "d (JObj ms) zero = (canon x, Decoded)"
    "json_ok maxNestingDepth (JObj ms)" using Cons.prems by (auto elim!: object_text)
  have nl: "json_space CHR 0x0A" by (simp add: json_space_def)
  have "number_stop ?rest" by (simp add: number_stop_def is_digit_def byte_of_def)
  then have p: "parse_next (json_text (JObj ms) @ ?rest) = Some (JObj ms, ?rest)" by (rule parse_next_text [OF ms(3)])
  have s: "skip_ws (json_text (JObj ms) @ ?rest) \<noteq> []" by (cases ms) (auto simp: skip_ws_Cons)
  have "decode_stream d zero ?rest = decode_stream d zero (tl ?rest)"
    by (subst (1 2) decode_stream.simps) (simp add: skip_ws_Cons nl parse_next_space)
  then have "decode_stream d zero (json_text (JObj ms) @ ?rest) = Inr (canon x) # map (Inr \<circ> canon) xs @ [Inl StreamEOF]"
    using Cons by (subst decode_stream.simps) (simp add: s p ms(2))
  then show ?case by (simp add: ms(1))
qed

end

end
