(* ===== verification/GRS_Codec.thy ===== *)
theory GRS_Codec
  imports Go_Decode GRS_ServiceApi
begin

text \<open>
  The JSON of the program's types: the field tags of \<open>common-lib/types\<close>, \<open>service-api/types\<close>,
  \<open>common-lib/types/event\<close> and \<open>common-lib/interfaces/store\<close>, and the two text methods of
  \<open>RvLocation\<close>. The texts of times (RFC 3339) and floats are parameters. A type without tags uses its
  field names; unexported fields are not written. Strings are ASCII.
\<close>

section \<open>Texts of times and floats\<close>

text \<open>\<open>None\<close> is the error of a time outside the years 0 to 9999 and of an infinity.\<close>

record TextCodec =
  tc_time :: "go_time \<Rightarrow> string option"
  tc_parse_time :: "string \<Rightarrow> go_time option"
  tc_float :: "f64 \<Rightarrow> string option"
  tc_parse_float :: "string \<Rightarrow> f64 option"

text \<open>The documented behaviour: RFC 3339 with nanoseconds and the shortest float text are read back.\<close>

definition text_laws :: "TextCodec \<Rightarrow> bool" where
  "text_laws tc \<longleftrightarrow>
     (\<forall>t s. tc_time tc t = Some s \<longrightarrow> tc_parse_time tc s = Some t) \<and>
     (\<forall>x s. tc_float tc x = Some s \<longrightarrow> valid_number s \<and> tc_parse_float tc s = Some x)"

definition ascii :: "string \<Rightarrow> bool" where
  "ascii s \<longleftrightarrow> (\<forall>c\<in>set s. byte_of c < 128)"

lemmas struct_simps = enc_struct_def dec_struct_def find_field_def field_def
  enc_int_def enc_word_def enc_string_def enc_bool_def enc_text_def dec_enc

section \<open>Locations in resource version maps\<close>

text \<open>\<open>MarshalText\<close> and \<open>UnmarshalText\<close> go through the same struct without its methods.\<close>

definition zero_RvLocation :: RvLocation where
  "zero_RvLocation = \<lparr>rv_Region = 0, rv_Partition = 0\<rparr>"

definition enc_RvLocation :: "RvLocation encoder" where
  "enc_RvLocation l =
     enc_struct [(''Region'', Some (enc_int (rv_Region l))), (''Partition'', Some (enc_int (rv_Partition l)))]"

definition dec_RvLocation :: "RvLocation decoder" where
  "dec_RvLocation =
     dec_struct [(''Region'', field rv_Region rv_Region_update dec_int),
                 (''Partition'', field rv_Partition rv_Partition_update dec_int)]"

definition RvLocation_MarshalText :: "RvLocation \<Rightarrow> string" where
  "RvLocation_MarshalText l = the (Marshal enc_RvLocation l)"

definition RvLocation_UnmarshalText :: "string \<Rightarrow> RvLocation option" where
  "RvLocation_UnmarshalText s =
     (let (l, failed) = Unmarshal dec_RvLocation s zero_RvLocation in if failed then None else Some l)"

definition RvLocation_ok :: "RvLocation \<Rightarrow> bool" where
  "RvLocation_ok l \<longleftrightarrow> int64 (rv_Region l) \<and> int64 (rv_Partition l)"

interpretation rv_codec: object_codec enc_RvLocation dec_RvLocation zero_RvLocation RvLocation_ok "\<lambda>l. l" 1
  by standard (auto simp: maxNestingDepth_def enc_RvLocation_def dec_RvLocation_def RvLocation_ok_def struct_simps)

lemma RvLocation_text: "RvLocation_ok l \<Longrightarrow> RvLocation_UnmarshalText (RvLocation_MarshalText l) = Some l"
  using rv_codec.unmarshal_marshal [of l] by (auto simp: RvLocation_UnmarshalText_def RvLocation_MarshalText_def)

definition enc_rvs :: "TransitResourceVersionMap encoder" where
  "enc_rvs = enc_map RvLocation_MarshalText enc_word"

definition dec_rvs :: "TransitResourceVersionMap decoder" where
  "dec_rvs = dec_map RvLocation_UnmarshalText 0 dec_uint64"

definition rvs_ok :: "TransitResourceVersionMap \<Rightarrow> bool" where
  "rvs_ok m \<longleftrightarrow> gm_wf m \<and> (\<forall>(l, v)\<in>set m. RvLocation_ok l)"

definition canon_rvs :: "TransitResourceVersionMap \<Rightarrow> TransitResourceVersionMap" where
  "canon_rvs = canon_map RvLocation_MarshalText"

lemma rvs_codec:
  assumes "rvs_ok m"
  shows "\<exists>j. enc_rvs m = Some j \<and> dec_rvs j [] = (canon_rvs m, Decoded) \<and> json_ok 1 j"
proof -
  have "\<exists>j. enc_map RvLocation_MarshalText enc_word m = Some j \<and>
      (\<forall>old. dec_map RvLocation_UnmarshalText 0 dec_uint64 j old = (merge_map RvLocation_MarshalText m old, Decoded)) \<and>
      json_ok (Suc 0) j"
    by (rule map_codec) (use assms in \<open>auto simp: rvs_ok_def RvLocation_text enc_word_def dec_enc\<close>)
  then show ?thesis using assms by (auto simp: enc_rvs_def dec_rvs_def canon_rvs_def rvs_ok_def)
qed

text \<open>A map with \<open>omitempty\<close>, and one that may be nil.\<close>

definition omit_empty :: "('k, 'v) gomap encoder \<Rightarrow> ('k, 'v) gomap \<Rightarrow> json option option" where
  "omit_empty enc m = (if m = [] then None else Some (enc m))"

definition enc_nil_map :: "('k, 'v) gomap encoder \<Rightarrow> ('k, 'v) gomap option encoder" where
  "enc_nil_map enc m = (case m of None \<Rightarrow> Some JNull | Some m' \<Rightarrow> if m' = [] then Some (JObj []) else enc m')"

definition dec_nil_map :: "('k, 'v) gomap decoder \<Rightarrow> ('k, 'v) gomap option decoder" where
  "dec_nil_map d j old =
     (case j of
        JNull \<Rightarrow> (None, Decoded)
      | JObj ms \<Rightarrow> (let (m, e) = d j (case old of None \<Rightarrow> [] | Some m \<Rightarrow> m) in (Some m, e))
      | _ \<Rightarrow> (old, Mismatch))"

section \<open>Logical nodes and their events\<close>

definition enc_geo :: "NodeGeoInfo encoder" where
  "enc_geo g =
     enc_struct [(''Region'', Some (enc_int (geo_Region g))), (''ResourcePartition'', Some (enc_int (geo_ResourcePartition g))),
       (''DataCenter'', Some (enc_string (geo_DataCenter g))),
       (''AvailabilityZone'', Some (enc_string (geo_AvailabilityZone g))),
       (''FaultDomain'', Some (enc_string (geo_FaultDomain g)))]"

definition dec_geo :: "NodeGeoInfo decoder" where
  "dec_geo =
     dec_struct [(''Region'', field geo_Region geo_Region_update dec_int),
       (''ResourcePartition'', field geo_ResourcePartition geo_ResourcePartition_update dec_int),
       (''DataCenter'', field geo_DataCenter geo_DataCenter_update dec_string),
       (''AvailabilityZone'', field geo_AvailabilityZone geo_AvailabilityZone_update dec_string),
       (''FaultDomain'', field geo_FaultDomain geo_FaultDomain_update dec_string)]"

definition enc_taints :: "NodeTaints encoder" where
  "enc_taints t = enc_struct [(''NoSchedule'', Some (enc_bool (NoSchedule t))), (''NoExecute'', Some (enc_bool (NoExecute t)))]"

definition dec_taints :: "NodeTaints decoder" where
  "dec_taints =
     dec_struct [(''NoSchedule'', field NoSchedule NoSchedule_update dec_bool),
       (''NoExecute'', field NoExecute NoExecute_update dec_bool)]"

definition enc_hardware :: "NodeSpecialHardWareTypeInfo encoder" where
  "enc_hardware h = enc_struct [(''HasGpu'', Some (enc_bool (HasGpu h))), (''HasFPGA'', Some (enc_bool (HasFPGA h)))]"

definition dec_hardware :: "NodeSpecialHardWareTypeInfo decoder" where
  "dec_hardware =
     dec_struct [(''HasGpu'', field HasGpu HasGpu_update dec_bool), (''HasFPGA'', field HasFPGA HasFPGA_update dec_bool)]"

text \<open>The keys of these maps are strings.\<close>

definition enc_counts :: "(string, int) gomap encoder" where
  "enc_counts = enc_map (\<lambda>k. k) enc_int"

definition dec_counts :: "(string, int) gomap decoder" where
  "dec_counts = dec_map Some 0 dec_int"

definition counts_ok :: "(string, int) gomap \<Rightarrow> bool" where
  "counts_ok m \<longleftrightarrow> gm_wf m \<and> (\<forall>(k, v)\<in>set m. ascii k \<and> int64 v)"

definition canon_counts :: "(string, int) gomap \<Rightarrow> (string, int) gomap" where
  "canon_counts = canon_map (\<lambda>k. k)"

definition merge_counts :: "(string, int) gomap \<Rightarrow> (string, int) gomap \<Rightarrow> (string, int) gomap" where
  "merge_counts = merge_map (\<lambda>k. k)"

lemma merge_counts_Nil [simp]: "counts_ok m \<Longrightarrow> merge_counts m [] = canon_counts m"
  by (simp add: merge_counts_def canon_counts_def counts_ok_def)

lemma counts_codec:
  assumes "counts_ok m"
  shows "\<exists>j. enc_counts m = Some j \<and> (\<forall>old. dec_counts j old = (merge_counts m old, Decoded)) \<and> json_ok 1 j"
  unfolding enc_counts_def dec_counts_def merge_counts_def One_nat_def
  by (rule map_codec) (use assms in \<open>auto simp: counts_ok_def enc_int_def dec_enc\<close>)

definition enc_resource :: "NodeResource encoder" where
  "enc_resource r =
     enc_struct [(''MilliCPU'', Some (enc_int (MilliCPU r))), (''Memory'', Some (enc_int (Memory r))),
       (''EphemeralStorage'', Some (enc_int (EphemeralStorage r))),
       (''AllowedPodNumber'', Some (enc_int (AllowedPodNumber r))),
       (''ScalarResources'', Some (enc_counts (ScalarResources r)))]"

definition dec_resource :: "NodeResource decoder" where
  "dec_resource =
     dec_struct [(''MilliCPU'', field MilliCPU MilliCPU_update dec_int), (''Memory'', field Memory Memory_update dec_int),
       (''EphemeralStorage'', field EphemeralStorage EphemeralStorage_update dec_int),
       (''AllowedPodNumber'', field AllowedPodNumber AllowedPodNumber_update dec_int),
       (''ScalarResources'', field ScalarResources ScalarResources_update dec_counts)]"

definition enc_node :: "TextCodec \<Rightarrow> LogicalNode encoder" where
  "enc_node tc n =
     enc_struct [(''Id'', Some (enc_string (node_Id n))), (''ResourceVersion'', Some (enc_string (node_ResourceVersion n))),
       (''GeoInfo'', Some (enc_geo (node_GeoInfo n))), (''Taints'', Some (enc_taints (node_Taints n))),
       (''SpecialHardwareTypes'', Some (enc_hardware (node_SpecialHardwareTypes n))),
       (''AllocatableResource'', Some (enc_resource (node_AllocatableResource n))),
       (''Conditions'', Some (enc_word (node_Conditions n))), (''Reserved'', Some (enc_bool (node_Reserved n))),
       (''MachineType'', Some (enc_string (node_MachineType n))),
       (''LastUpdatedTime'', Some (enc_text (tc_time tc) (node_LastUpdatedTime n)))]"

definition node_fields :: "TextCodec \<Rightarrow> (string \<times> LogicalNode decoder) list" where
  "node_fields tc =
     [(''Id'', field node_Id node_Id_update dec_string),
       (''ResourceVersion'', field node_ResourceVersion node_ResourceVersion_update dec_string),
       (''GeoInfo'', field node_GeoInfo node_GeoInfo_update dec_geo),
       (''Taints'', field node_Taints node_Taints_update dec_taints),
       (''SpecialHardwareTypes'', field node_SpecialHardwareTypes node_SpecialHardwareTypes_update dec_hardware),
       (''AllocatableResource'', field node_AllocatableResource node_AllocatableResource_update dec_resource),
       (''Conditions'', field node_Conditions node_Conditions_update dec_byte),
       (''Reserved'', field node_Reserved node_Reserved_update dec_bool),
       (''MachineType'', field node_MachineType node_MachineType_update dec_string),
       (''LastUpdatedTime'', field node_LastUpdatedTime node_LastUpdatedTime_update (dec_text (tc_parse_time tc)))]"

definition dec_node :: "TextCodec \<Rightarrow> LogicalNode decoder" where
  "dec_node tc = dec_struct (node_fields tc)"

lemma find_node_field:
  "find_field (node_fields tc) ''Id'' = Some (field node_Id node_Id_update dec_string)"
  "find_field (node_fields tc) ''ResourceVersion'' = Some (field node_ResourceVersion node_ResourceVersion_update dec_string)"
  "find_field (node_fields tc) ''GeoInfo'' = Some (field node_GeoInfo node_GeoInfo_update dec_geo)"
  "find_field (node_fields tc) ''Taints'' = Some (field node_Taints node_Taints_update dec_taints)"
  "find_field (node_fields tc) ''SpecialHardwareTypes'' =
     Some (field node_SpecialHardwareTypes node_SpecialHardwareTypes_update dec_hardware)"
  "find_field (node_fields tc) ''AllocatableResource'' =
     Some (field node_AllocatableResource node_AllocatableResource_update dec_resource)"
  "find_field (node_fields tc) ''Conditions'' = Some (field node_Conditions node_Conditions_update dec_byte)"
  "find_field (node_fields tc) ''Reserved'' = Some (field node_Reserved node_Reserved_update dec_bool)"
  "find_field (node_fields tc) ''MachineType'' = Some (field node_MachineType node_MachineType_update dec_string)"
  "find_field (node_fields tc) ''LastUpdatedTime'' =
     Some (field node_LastUpdatedTime node_LastUpdatedTime_update (dec_text (tc_parse_time tc)))"
  by (simp_all add: find_field_def node_fields_def)
definition geo_ok :: "NodeGeoInfo \<Rightarrow> bool" where
  "geo_ok g \<longleftrightarrow> int64 (geo_Region g) \<and> int64 (geo_ResourcePartition g) \<and>
     ascii (geo_DataCenter g) \<and> ascii (geo_AvailabilityZone g) \<and> ascii (geo_FaultDomain g)"

definition resource_ok :: "NodeResource \<Rightarrow> bool" where
  "resource_ok r \<longleftrightarrow> int64 (MilliCPU r) \<and> int64 (Memory r) \<and> int64 (EphemeralStorage r) \<and>
     int64 (AllowedPodNumber r) \<and> counts_ok (ScalarResources r)"

text \<open>What the struct can hold, with a time that has a text.\<close>

definition node_ok :: "TextCodec \<Rightarrow> LogicalNode \<Rightarrow> bool" where
  "node_ok tc n \<longleftrightarrow> text_laws tc \<and> ascii (node_Id n) \<and> ascii (node_ResourceVersion n) \<and> ascii (node_MachineType n) \<and>
     geo_ok (node_GeoInfo n) \<and> resource_ok (node_AllocatableResource n) \<and>
     tc_time tc (node_LastUpdatedTime n) \<noteq> None"

definition canon_resource :: "NodeResource \<Rightarrow> NodeResource" where
  "canon_resource r = r\<lparr>ScalarResources := canon_counts (ScalarResources r)\<rparr>"

definition canon_node :: "LogicalNode \<Rightarrow> LogicalNode" where
  "canon_node n = n\<lparr>node_AllocatableResource := canon_resource (node_AllocatableResource n)\<rparr>"

text \<open>Decoding into an existing node replaces everything but the scalar resources it holds.\<close>

definition merge_resource :: "NodeResource \<Rightarrow> NodeResource \<Rightarrow> NodeResource" where
  "merge_resource r old = r\<lparr>ScalarResources := merge_counts (ScalarResources r) (ScalarResources old)\<rparr>"

definition merge_node :: "LogicalNode \<Rightarrow> LogicalNode \<Rightarrow> LogicalNode" where
  "merge_node n old =
     n\<lparr>node_AllocatableResource := merge_resource (node_AllocatableResource n) (node_AllocatableResource old)\<rparr>"

lemma merge_node_zero: "node_ok tc n \<Longrightarrow> merge_node n zero_node = canon_node n"
  by (simp add: merge_node_def canon_node_def merge_resource_def canon_resource_def zero_node_def node_ok_def resource_ok_def)

lemma geo_codec:
  "geo_ok g \<Longrightarrow> \<exists>ms. enc_geo g = Some (JObj ms) \<and> dec_geo (JObj ms) old = (g, Decoded) \<and> json_ok 1 (JObj ms)"
  by (auto simp: geo_ok_def enc_geo_def dec_geo_def struct_simps)

lemma taints_codec:
  "\<exists>ms. enc_taints t = Some (JObj ms) \<and> dec_taints (JObj ms) old = (t, Decoded) \<and> json_ok 1 (JObj ms)"
  by (auto simp: enc_taints_def dec_taints_def struct_simps)

lemma hardware_codec:
  "\<exists>ms. enc_hardware h = Some (JObj ms) \<and> dec_hardware (JObj ms) old = (h, Decoded) \<and> json_ok 1 (JObj ms)"
  by (auto simp: enc_hardware_def dec_hardware_def struct_simps)

lemma resource_codec:
  assumes "resource_ok r"
  shows "\<exists>ms. enc_resource r = Some (JObj ms) \<and> (\<forall>old. dec_resource (JObj ms) old = (merge_resource r old, Decoded)) \<and>
    json_ok 2 (JObj ms)"
proof -
  obtain j where "enc_counts (ScalarResources r) = Some j"
    "\<forall>old. dec_counts j old = (merge_counts (ScalarResources r) old, Decoded)" "json_ok 1 j"
    using counts_codec assms by (auto simp: resource_ok_def)
  then show ?thesis
    using assms by (auto simp: resource_ok_def enc_resource_def dec_resource_def merge_resource_def struct_simps)
qed

lemma node_merge_codec:
  assumes "node_ok tc n"
  shows "\<exists>ms. enc_node tc n = Some (JObj ms) \<and> dec_node tc (JObj ms) old = (merge_node n old, Decoded) \<and>
    json_ok 3 (JObj ms)"
proof -
  have ok: "geo_ok (node_GeoInfo n)" "resource_ok (node_AllocatableResource n)" using assms by (simp_all add: node_ok_def)
  obtain t where t: "tc_time tc (node_LastUpdatedTime n) = Some t" "tc_parse_time tc t = Some (node_LastUpdatedTime n)"
    using assms by (auto simp: node_ok_def text_laws_def)
  obtain g where g: "enc_geo (node_GeoInfo n) = Some (JObj g)"
    "dec_geo (JObj g) (node_GeoInfo old) = (node_GeoInfo n, Decoded)" "json_ok 1 (JObj g)"
    using geo_codec [OF ok(1)] by blast
  obtain ta where ta: "enc_taints (node_Taints n) = Some (JObj ta)"
    "dec_taints (JObj ta) (node_Taints old) = (node_Taints n, Decoded)" "json_ok 1 (JObj ta)"
    using taints_codec by blast
  obtain h where h: "enc_hardware (node_SpecialHardwareTypes n) = Some (JObj h)"
    "dec_hardware (JObj h) (node_SpecialHardwareTypes old) = (node_SpecialHardwareTypes n, Decoded)"
    "json_ok 1 (JObj h)"
    using hardware_codec by blast
  obtain r where r: "enc_resource (node_AllocatableResource n) = Some (JObj r)"
    "dec_resource (JObj r) (node_AllocatableResource old) =
      (merge_resource (node_AllocatableResource n) (node_AllocatableResource old), Decoded)" "json_ok 2 (JObj r)"
    using resource_codec [OF ok(2)] by blast
  let ?ms = "[(''Id'', JStr (node_Id n)), (''ResourceVersion'', JStr (node_ResourceVersion n)), (''GeoInfo'', JObj g),
    (''Taints'', JObj ta), (''SpecialHardwareTypes'', JObj h), (''AllocatableResource'', JObj r),
    (''Conditions'', JNum (decimal (unat (node_Conditions n)))), (''Reserved'', JBool (node_Reserved n)),
    (''MachineType'', JStr (node_MachineType n)), (''LastUpdatedTime'', JStr t)]"
  let ?new = "old\<lparr>node_Id := node_Id n, node_ResourceVersion := node_ResourceVersion n, node_GeoInfo := node_GeoInfo n,
        node_Taints := node_Taints n, node_SpecialHardwareTypes := node_SpecialHardwareTypes n,
        node_AllocatableResource := merge_resource (node_AllocatableResource n) (node_AllocatableResource old),
        node_Conditions := node_Conditions n, node_Reserved := node_Reserved n, node_MachineType := node_MachineType n,
        node_LastUpdatedTime := node_LastUpdatedTime n\<rparr>"
  have "json_ok 2 (JObj g)" "json_ok 2 (JObj ta)" "json_ok 2 (JObj h)"
    by (rule json_ok_mono [OF g(3)] json_ok_mono [OF ta(3)] json_ok_mono [OF h(3)]; simp)+
  then have ok3: "json_ok 3 (JObj ?ms)" using r(3) by simp
  have "enc_node tc n = Some (JObj ?ms)"
    using t g(1) ta(1) h(1) r(1) by (simp add: enc_node_def struct_simps)
  moreover have "dec_node tc (JObj ?ms) old = (?new, Decoded)"
    using t(2) by (simp add: dec_node_def dec_struct_def find_node_field field_def dec_enc g(2) ta(2) h(2) r(2))
  moreover have "?new = merge_node n old"
    by (rule LogicalNode.equality) (simp_all add: merge_node_def)
  ultimately show ?thesis using ok3 by (intro exI [of _ ?ms]) simp
qed

lemma node_codec:
  assumes "node_ok tc n"
  shows "\<exists>ms. enc_node tc n = Some (JObj ms) \<and> dec_node tc (JObj ms) zero_node = (canon_node n, Decoded) \<and>
    json_ok 3 (JObj ms)"
  using node_merge_codec [OF assms, of zero_node] by (simp add: merge_node_zero [OF assms])

interpretation node_codec: object_codec "enc_node tc" "dec_node tc" zero_node "node_ok tc" canon_node 3
  for tc
  by standard (simp_all add: maxNestingDepth_def node_codec del: json_ok.simps)

text \<open>An event is sent without its checkpoints; it is decoded as its type and a pointer to its node.\<close>

definition enc_event :: "TextCodec \<Rightarrow> NodeEvent encoder" where
  "enc_event tc e = enc_struct [(''Type'', Some (enc_string (ne_Type e))), (''Node'', Some (enc_node tc (ne_Node e)))]"

definition dec_event :: "TextCodec \<Rightarrow> (EventType \<times> LogicalNode option) decoder" where
  "dec_event tc =
     dec_struct [(''Type'', field fst apfst dec_string), (''Node'', field snd apsnd (dec_ptr zero_node (dec_node tc)))]"

definition event_ok :: "TextCodec \<Rightarrow> NodeEvent \<Rightarrow> bool" where
  "event_ok tc e \<longleftrightarrow> ascii (ne_Type e) \<and> node_ok tc (ne_Node e)"

lemma event_codec:
  assumes "event_ok tc e"
  shows "\<exists>ms. enc_event tc e = Some (JObj ms) \<and>
    dec_event tc (JObj ms) ('''', None) = ((ne_Type e, Some (canon_node (ne_Node e))), Decoded) \<and> json_ok 4 (JObj ms)"
proof -
  obtain ms where "enc_node tc (ne_Node e) = Some (JObj ms)"
    "dec_node tc (JObj ms) zero_node = (canon_node (ne_Node e), Decoded)" "json_ok 3 (JObj ms)"
    using node_codec assms unfolding event_ok_def by blast
  then show ?thesis by (simp add: enc_event_def dec_event_def struct_simps)
qed

interpretation event_codec: object_codec "enc_event tc" "dec_event tc" "('''', None)" "event_ok tc"
  "\<lambda>e. (ne_Type e, Some (canon_node (ne_Node e)))" 4 for tc
  by standard (simp_all add: maxNestingDepth_def event_codec del: json_ok.simps)

section \<open>Clients\<close>

text \<open>\<open>omitempty\<close> has no effect on a struct.\<close>

definition omit_string :: "string \<Rightarrow> json option option" where
  "omit_string s = (if s = '''' then None else Some (enc_string s))"

definition enc_ClientInfo :: "ClientInfoType encoder" where
  "enc_ClientInfo c = enc_struct [(''client_name'', omit_string (ClientName c)), (''client_region'', omit_string (ci_Region c))]"

definition dec_ClientInfo :: "ClientInfoType decoder" where
  "dec_ClientInfo =
     dec_struct [(''client_name'', field ClientName ClientName_update dec_string),
       (''client_region'', field ci_Region ci_Region_update dec_string)]"

definition zero_ClientInfo :: ClientInfoType where
  "zero_ClientInfo = \<lparr>ClientName = '''', ci_Region = ''''\<rparr>"

definition enc_PerRegion :: "ResourcePerRegion encoder" where
  "enc_PerRegion r =
     enc_struct [(''region_name'', Some (enc_string (RegionName r))),
       (''request_machines'', omit_empty enc_counts (Machines r)),
       (''request_special_hardware_machines'', omit_empty enc_counts (SpecialHardwareMachines r))]"

definition dec_PerRegion :: "ResourcePerRegion decoder" where
  "dec_PerRegion =
     dec_struct [(''region_name'', field RegionName RegionName_update dec_string),
       (''request_machines'', field Machines Machines_update dec_counts),
       (''request_special_hardware_machines'', field SpecialHardwareMachines SpecialHardwareMachines_update dec_counts)]"

definition zero_PerRegion :: ResourcePerRegion where
  "zero_PerRegion = \<lparr>RegionName = '''', Machines = [], SpecialHardwareMachines = []\<rparr>"

definition enc_ResourceRequest :: "ResourceRequest encoder" where
  "enc_ResourceRequest r =
     enc_struct [(''total_machines'', Some (enc_int (TotalMachines r))),
       (''resource_request'', if RequestInRegions r = [] then None else Some (enc_slice enc_PerRegion (RequestInRegions r)))]"

definition dec_ResourceRequest :: "ResourceRequest decoder" where
  "dec_ResourceRequest =
     dec_struct [(''total_machines'', field TotalMachines TotalMachines_update dec_int),
       (''resource_request'', field RequestInRegions RequestInRegions_update (dec_slice zero_PerRegion dec_PerRegion))]"

definition zero_ResourceRequest :: ResourceRequest where
  "zero_ResourceRequest = \<lparr>TotalMachines = 0, RequestInRegions = []\<rparr>"

definition enc_Client :: "Client encoder" where
  "enc_Client c =
     enc_struct [(''client_id'', Some (enc_string (ClientId c))), (''client_info'', Some (enc_ClientInfo (ClientInfo c))),
       (''client_granted_resource'', Some (enc_ResourceRequest (Resource c)))]"

definition dec_Client :: "Client decoder" where
  "dec_Client =
     dec_struct [(''client_id'', field ClientId ClientId_update dec_string),
       (''client_info'', field ClientInfo ClientInfo_update dec_ClientInfo),
       (''client_granted_resource'', field Resource Resource_update dec_ResourceRequest)]"

definition zero_Client :: Client where
  "zero_Client = \<lparr>ClientId = '''', ClientInfo = zero_ClientInfo, Resource = zero_ResourceRequest\<rparr>"

definition ClientInfo_ok :: "ClientInfoType \<Rightarrow> bool" where
  "ClientInfo_ok c \<longleftrightarrow> ascii (ClientName c) \<and> ascii (ci_Region c)"

definition PerRegion_ok :: "ResourcePerRegion \<Rightarrow> bool" where
  "PerRegion_ok r \<longleftrightarrow> ascii (RegionName r) \<and> counts_ok (Machines r) \<and> counts_ok (SpecialHardwareMachines r)"

definition ResourceRequest_ok :: "ResourceRequest \<Rightarrow> bool" where
  "ResourceRequest_ok r \<longleftrightarrow> int64 (TotalMachines r) \<and> (\<forall>p\<in>set (RequestInRegions r). PerRegion_ok p)"

definition Client_ok :: "Client \<Rightarrow> bool" where
  "Client_ok c \<longleftrightarrow> ascii (ClientId c) \<and> ClientInfo_ok (ClientInfo c) \<and> ResourceRequest_ok (Resource c)"

definition canon_PerRegion :: "ResourcePerRegion \<Rightarrow> ResourcePerRegion" where
  "canon_PerRegion r =
     r\<lparr>Machines := canon_counts (Machines r), SpecialHardwareMachines := canon_counts (SpecialHardwareMachines r)\<rparr>"

definition canon_ResourceRequest :: "ResourceRequest \<Rightarrow> ResourceRequest" where
  "canon_ResourceRequest r = r\<lparr>RequestInRegions := map canon_PerRegion (RequestInRegions r)\<rparr>"

definition canon_Client :: "Client \<Rightarrow> Client" where
  "canon_Client c = c\<lparr>Resource := canon_ResourceRequest (Resource c)\<rparr>"

lemma ClientInfo_codec:
  "\<exists>ms. enc_ClientInfo c = Some (JObj ms) \<and> dec_ClientInfo (JObj ms) zero_ClientInfo = (c, Decoded) \<and> json_ok 1 (JObj ms)"
  by (auto simp: enc_ClientInfo_def dec_ClientInfo_def zero_ClientInfo_def omit_string_def struct_simps)

lemma PerRegion_codec:
  assumes "PerRegion_ok r"
  shows "\<exists>j. enc_PerRegion r = Some j \<and> dec_PerRegion j zero_PerRegion = (canon_PerRegion r, Decoded) \<and> json_ok 2 j"
proof -
  obtain j1 j2 where j: "enc_counts (Machines r) = Some j1" "dec_counts j1 [] = (canon_counts (Machines r), Decoded)"
    "json_ok 1 j1" "enc_counts (SpecialHardwareMachines r) = Some j2"
    "dec_counts j2 [] = (canon_counts (SpecialHardwareMachines r), Decoded)" "json_ok 1 j2"
    using counts_codec [of "Machines r"] counts_codec [of "SpecialHardwareMachines r"] assms
    by (fastforce simp: PerRegion_ok_def)
  then show ?thesis
    by (auto simp: enc_PerRegion_def dec_PerRegion_def zero_PerRegion_def canon_PerRegion_def omit_empty_def
        canon_counts_def struct_simps)
qed

lemma ResourceRequest_codec:
  assumes "ResourceRequest_ok r"
  shows "\<exists>ms. enc_ResourceRequest r = Some (JObj ms) \<and>
    dec_ResourceRequest (JObj ms) zero_ResourceRequest = (canon_ResourceRequest r, Decoded) \<and> json_ok 4 (JObj ms)"
proof -
  obtain js where "enc_slice enc_PerRegion (RequestInRegions r) = Some (JArr js)"
    "dec_slice zero_PerRegion dec_PerRegion (JArr js) [] = (map canon_PerRegion (RequestInRegions r), Decoded)"
    "json_ok (Suc 2) (JArr js)"
    using slice_codec [of "RequestInRegions r" enc_PerRegion dec_PerRegion zero_PerRegion canon_PerRegion 2]
      PerRegion_codec assms by (auto simp: ResourceRequest_ok_def)
  then show ?thesis
    using assms by (auto simp: enc_ResourceRequest_def dec_ResourceRequest_def zero_ResourceRequest_def
        canon_ResourceRequest_def ResourceRequest_ok_def struct_simps)
qed

lemma Client_codec:
  assumes "Client_ok c"
  shows "\<exists>ms. enc_Client c = Some (JObj ms) \<and> dec_Client (JObj ms) zero_Client = (canon_Client c, Decoded) \<and>
    json_ok 5 (JObj ms)"
proof -
  obtain ci where ci: "enc_ClientInfo (ClientInfo c) = Some (JObj ci)"
    "dec_ClientInfo (JObj ci) zero_ClientInfo = (ClientInfo c, Decoded)" "json_ok 1 (JObj ci)"
    using ClientInfo_codec by blast
  obtain r where r: "enc_ResourceRequest (Resource c) = Some (JObj r)"
    "dec_ResourceRequest (JObj r) zero_ResourceRequest = (canon_ResourceRequest (Resource c), Decoded)" "json_ok 4 (JObj r)"
    using ResourceRequest_codec assms unfolding Client_ok_def by blast
  have "json_ok 4 (JObj ci)" by (rule json_ok_mono [OF ci(3)]) simp
  then show ?thesis
    using ci(1,2) r by (simp add: enc_Client_def dec_Client_def zero_Client_def canon_Client_def struct_simps)
qed

interpretation client_codec: object_codec enc_Client dec_Client zero_Client Client_ok canon_Client 5
  by standard (simp_all add: maxNestingDepth_def Client_codec del: json_ok.simps)

section \<open>Requests and responses of the service\<close>

definition enc_RegistrationRequest :: "ClientRegistrationRequest encoder" where
  "enc_RegistrationRequest r =
     enc_struct [(''client_info'', Some (enc_ClientInfo (crr_ClientInfo r))),
       (''init_resource_request'', Some (enc_ResourceRequest (InitialRequestedResource r)))]"

definition dec_RegistrationRequest :: "ClientRegistrationRequest decoder" where
  "dec_RegistrationRequest =
     dec_struct [(''client_info'', field crr_ClientInfo crr_ClientInfo_update dec_ClientInfo),
       (''init_resource_request'', field InitialRequestedResource InitialRequestedResource_update dec_ResourceRequest)]"

definition zero_RegistrationRequest :: ClientRegistrationRequest where
  "zero_RegistrationRequest = \<lparr>crr_ClientInfo = zero_ClientInfo, InitialRequestedResource = zero_ResourceRequest\<rparr>"

definition RegistrationRequest_ok :: "ClientRegistrationRequest \<Rightarrow> bool" where
  "RegistrationRequest_ok r \<longleftrightarrow> ClientInfo_ok (crr_ClientInfo r) \<and> ResourceRequest_ok (InitialRequestedResource r)"

definition canon_RegistrationRequest :: "ClientRegistrationRequest \<Rightarrow> ClientRegistrationRequest" where
  "canon_RegistrationRequest r = r\<lparr>InitialRequestedResource := canon_ResourceRequest (InitialRequestedResource r)\<rparr>"

lemma RegistrationRequest_codec:
  assumes "RegistrationRequest_ok q"
  shows "\<exists>ms. enc_RegistrationRequest q = Some (JObj ms) \<and>
    dec_RegistrationRequest (JObj ms) zero_RegistrationRequest = (canon_RegistrationRequest q, Decoded) \<and> json_ok 5 (JObj ms)"
proof -
  obtain ci where ci: "enc_ClientInfo (crr_ClientInfo q) = Some (JObj ci)"
    "dec_ClientInfo (JObj ci) zero_ClientInfo = (crr_ClientInfo q, Decoded)" "json_ok 1 (JObj ci)"
    using ClientInfo_codec by blast
  obtain r where r: "enc_ResourceRequest (InitialRequestedResource q) = Some (JObj r)"
    "dec_ResourceRequest (JObj r) zero_ResourceRequest = (canon_ResourceRequest (InitialRequestedResource q), Decoded)"
    "json_ok 4 (JObj r)"
    using ResourceRequest_codec assms unfolding RegistrationRequest_ok_def by blast
  have "json_ok 4 (JObj ci)" by (rule json_ok_mono [OF ci(3)]) simp
  then show ?thesis
    using ci(1,2) r by (simp add: enc_RegistrationRequest_def dec_RegistrationRequest_def zero_RegistrationRequest_def
        canon_RegistrationRequest_def struct_simps)
qed

interpretation registration_codec: object_codec enc_RegistrationRequest dec_RegistrationRequest zero_RegistrationRequest
  RegistrationRequest_ok canon_RegistrationRequest 5
  by standard (simp_all add: maxNestingDepth_def RegistrationRequest_codec del: json_ok.simps)

definition enc_RegistrationResponse :: "ClientRegistrationResponse encoder" where
  "enc_RegistrationResponse r =
     enc_struct [(''client_id'', Some (enc_string (crs_ClientId r))),
       (''granted_resource'', Some (enc_ResourceRequest (GrantedResource r)))]"

definition dec_RegistrationResponse :: "ClientRegistrationResponse decoder" where
  "dec_RegistrationResponse =
     dec_struct [(''client_id'', field crs_ClientId crs_ClientId_update dec_string),
       (''granted_resource'', field GrantedResource GrantedResource_update dec_ResourceRequest)]"

definition zero_RegistrationResponse :: ClientRegistrationResponse where
  "zero_RegistrationResponse = \<lparr>crs_ClientId = '''', GrantedResource = zero_ResourceRequest\<rparr>"

definition RegistrationResponse_ok :: "ClientRegistrationResponse \<Rightarrow> bool" where
  "RegistrationResponse_ok r \<longleftrightarrow> ascii (crs_ClientId r) \<and> ResourceRequest_ok (GrantedResource r)"

definition canon_RegistrationResponse :: "ClientRegistrationResponse \<Rightarrow> ClientRegistrationResponse" where
  "canon_RegistrationResponse r = r\<lparr>GrantedResource := canon_ResourceRequest (GrantedResource r)\<rparr>"

lemma RegistrationResponse_codec:
  assumes "RegistrationResponse_ok q"
  shows "\<exists>ms. enc_RegistrationResponse q = Some (JObj ms) \<and>
    dec_RegistrationResponse (JObj ms) zero_RegistrationResponse = (canon_RegistrationResponse q, Decoded) \<and> json_ok 5 (JObj ms)"
proof -
  obtain r where r: "enc_ResourceRequest (GrantedResource q) = Some (JObj r)"
    "dec_ResourceRequest (JObj r) zero_ResourceRequest = (canon_ResourceRequest (GrantedResource q), Decoded)"
    "json_ok 4 (JObj r)"
    using ResourceRequest_codec assms unfolding RegistrationResponse_ok_def by blast
  then show ?thesis
    by (simp add: enc_RegistrationResponse_def dec_RegistrationResponse_def zero_RegistrationResponse_def
        canon_RegistrationResponse_def struct_simps)
qed

interpretation registered_codec: object_codec enc_RegistrationResponse dec_RegistrationResponse zero_RegistrationResponse
  RegistrationResponse_ok canon_RegistrationResponse 5
  by standard (simp_all add: maxNestingDepth_def RegistrationResponse_codec del: json_ok.simps)

text \<open>The quotes of the tag of \<open>NodeList\<close> end before its option, so only the name of it counts.\<close>

definition enc_ListNodeResponse :: "TextCodec \<Rightarrow> ListNodeResponse encoder" where
  "enc_ListNodeResponse tc r =
     enc_struct [(''node_list'', Some (enc_slice (enc_node tc) (NodeList r))),
       (''resource_version_map'', omit_empty enc_rvs (lr_ResourceVersions r))]"

text \<open>The list holds pointers; a null in it, which the service never writes, would be a nil pointer.\<close>

definition dec_ListNodeResponse :: "TextCodec \<Rightarrow> ListNodeResponse decoder" where
  "dec_ListNodeResponse tc =
     dec_struct [(''node_list'', field NodeList NodeList_update (dec_slice zero_node (dec_node tc))),
       (''resource_version_map'', field lr_ResourceVersions lr_ResourceVersions_update dec_rvs)]"

definition zero_ListNodeResponse :: ListNodeResponse where
  "zero_ListNodeResponse = \<lparr>NodeList = [], lr_ResourceVersions = []\<rparr>"

definition ListNodeResponse_ok :: "TextCodec \<Rightarrow> ListNodeResponse \<Rightarrow> bool" where
  "ListNodeResponse_ok tc r \<longleftrightarrow> (\<forall>n\<in>set (NodeList r). node_ok tc n) \<and> rvs_ok (lr_ResourceVersions r)"

definition canon_ListNodeResponse :: "ListNodeResponse \<Rightarrow> ListNodeResponse" where
  "canon_ListNodeResponse r =
     \<lparr>NodeList = map canon_node (NodeList r), lr_ResourceVersions = canon_rvs (lr_ResourceVersions r)\<rparr>"

lemma ListNodeResponse_codec:
  assumes "ListNodeResponse_ok tc q"
  shows "\<exists>ms. enc_ListNodeResponse tc q = Some (JObj ms) \<and>
    dec_ListNodeResponse tc (JObj ms) zero_ListNodeResponse = (canon_ListNodeResponse q, Decoded) \<and> json_ok 5 (JObj ms)"
proof -
  have "\<exists>j. enc_node tc n = Some j \<and> dec_node tc j zero_node = (canon_node n, Decoded) \<and> json_ok 3 j"
    if "n \<in> set (NodeList q)" for n using node_codec [of tc n] that assms unfolding ListNodeResponse_ok_def by blast
  then obtain js where js: "enc_slice (enc_node tc) (NodeList q) = Some (JArr js)"
    "dec_slice zero_node (dec_node tc) (JArr js) [] = (map canon_node (NodeList q), Decoded)" "json_ok (Suc 3) (JArr js)"
    using slice_codec [of "NodeList q" "enc_node tc" "dec_node tc" zero_node canon_node 3] by blast
  obtain m where m: "enc_rvs (lr_ResourceVersions q) = Some m"
    "dec_rvs m [] = (canon_rvs (lr_ResourceVersions q), Decoded)" "json_ok 1 m"
    using rvs_codec assms unfolding ListNodeResponse_ok_def by blast
  have "json_ok (Suc 3) m" by (rule json_ok_mono [OF m(3)]) simp
  moreover have "canon_rvs [] = []" by (simp add: canon_rvs_def)
  ultimately show ?thesis
    using js m(1,2)
    by (auto simp: enc_ListNodeResponse_def dec_ListNodeResponse_def zero_ListNodeResponse_def canon_ListNodeResponse_def
        omit_empty_def struct_simps)
qed

interpretation list_codec: object_codec "enc_ListNodeResponse tc" "dec_ListNodeResponse tc" zero_ListNodeResponse
  "ListNodeResponse_ok tc" canon_ListNodeResponse 5 for tc
  by standard (simp_all add: maxNestingDepth_def ListNodeResponse_codec del: json_ok.simps)

text \<open>A nil map is null, and null leaves the map nil.\<close>

definition enc_WatchRequest :: "WatchRequest encoder" where
  "enc_WatchRequest r = enc_struct [(''resource_versions'', Some (enc_nil_map enc_rvs (wr_ResourceVersions r)))]"

definition dec_WatchRequest :: "WatchRequest decoder" where
  "dec_WatchRequest =
     dec_struct [(''resource_versions'', field wr_ResourceVersions wr_ResourceVersions_update (dec_nil_map dec_rvs))]"

definition zero_WatchRequest :: WatchRequest where
  "zero_WatchRequest = \<lparr>wr_ResourceVersions = None\<rparr>"

definition WatchRequest_ok :: "WatchRequest \<Rightarrow> bool" where
  "WatchRequest_ok r \<longleftrightarrow> (case wr_ResourceVersions r of None \<Rightarrow> True | Some m \<Rightarrow> rvs_ok m)"

definition canon_WatchRequest :: "WatchRequest \<Rightarrow> WatchRequest" where
  "canon_WatchRequest r = \<lparr>wr_ResourceVersions = map_option canon_rvs (wr_ResourceVersions r)\<rparr>"

lemma enc_rvs_object: "m \<noteq> [] \<Longrightarrow> enc_rvs m = Some j \<Longrightarrow> \<exists>ms. j = JObj ms"
  by (auto simp: enc_rvs_def enc_map_def bind_eq_Some_conv)

lemma WatchRequest_codec:
  assumes "WatchRequest_ok q"
  shows "\<exists>ms. enc_WatchRequest q = Some (JObj ms) \<and>
    dec_WatchRequest (JObj ms) zero_WatchRequest = (canon_WatchRequest q, Decoded) \<and> json_ok 2 (JObj ms)"
proof (cases "wr_ResourceVersions q")
  case None
  then show ?thesis
    by (simp add: enc_WatchRequest_def dec_WatchRequest_def zero_WatchRequest_def canon_WatchRequest_def
        enc_nil_map_def dec_nil_map_def struct_simps)
next
  case (Some m)
  have ok: "rvs_ok m" using assms Some by (simp add: WatchRequest_ok_def)
  obtain ms where "enc_nil_map enc_rvs (Some m) = Some (JObj ms)" "dec_rvs (JObj ms) [] = (canon_rvs m, Decoded)"
    "json_ok 1 (JObj ms)"
  proof (cases "m = []")
    case True
    then show thesis by (intro that [of "[]"]) (simp_all add: enc_nil_map_def dec_rvs_def dec_map_def canon_rvs_def)
  next
    case False
    obtain j where j: "enc_rvs m = Some j" "dec_rvs j [] = (canon_rvs m, Decoded)" "json_ok 1 j"
      using rvs_codec [OF ok] by blast
    then obtain ms where "j = JObj ms" using enc_rvs_object [OF False] by blast
    then show thesis using j False by (intro that [of ms]) (simp_all add: enc_nil_map_def)
  qed
  then show ?thesis
    by (simp add: enc_WatchRequest_def dec_WatchRequest_def zero_WatchRequest_def canon_WatchRequest_def Some
        dec_nil_map_def struct_simps)
qed

interpretation watch_codec: object_codec enc_WatchRequest dec_WatchRequest zero_WatchRequest WatchRequest_ok
  canon_WatchRequest 2
  by standard (simp_all add: maxNestingDepth_def WatchRequest_codec del: json_ok.simps)

definition enc_NodeResponse :: "TextCodec \<Rightarrow> LogicalNode encoder" where
  "enc_NodeResponse tc n = enc_struct [(''node'', Some (enc_node tc n))]"

section \<open>What is persisted\<close>

text \<open>
  Counts that the model keeps as naturals are Go ints: a negative number in a text, which is never
  written, would be read as 0.
\<close>

definition dec_nat :: "nat decoder" where
  "dec_nat j old = (let (i, e) = dec_int j (int old) in (nat i, e))"

definition enc_NodeStoreStatus :: "NodeStoreStatus encoder" where
  "enc_NodeStoreStatus s =
     enc_struct [(''RegionNum'', Some (enc_int (int (ss_RegionNum s)))),
       (''PartitionMaxNum'', Some (enc_int (int (ss_PartitionMaxNum s)))),
       (''VirtualNodeNumPerRP'', Some (enc_int (int (ss_VirtualNodeNumPerRP s)))),
       (''CurrentResourceVerions'', Some (enc_nil_map enc_rvs (Some (ss_CurrentResourceVerions s))))]"

definition dec_NodeStoreStatus :: "NodeStoreStatus decoder" where
  "dec_NodeStoreStatus =
     dec_struct [(''RegionNum'', field ss_RegionNum ss_RegionNum_update dec_nat),
       (''PartitionMaxNum'', field ss_PartitionMaxNum ss_PartitionMaxNum_update dec_nat),
       (''VirtualNodeNumPerRP'', field ss_VirtualNodeNumPerRP ss_VirtualNodeNumPerRP_update dec_nat),
       (''CurrentResourceVerions'', field ss_CurrentResourceVerions ss_CurrentResourceVerions_update dec_rvs)]"

definition zero_NodeStoreStatus :: NodeStoreStatus where
  "zero_NodeStoreStatus =
     \<lparr>ss_RegionNum = 0, ss_PartitionMaxNum = 0, ss_VirtualNodeNumPerRP = 0, ss_CurrentResourceVerions = []\<rparr>"

definition NodeStoreStatus_ok :: "NodeStoreStatus \<Rightarrow> bool" where
  "NodeStoreStatus_ok s \<longleftrightarrow> int64 (int (ss_RegionNum s)) \<and> int64 (int (ss_PartitionMaxNum s)) \<and>
     int64 (int (ss_VirtualNodeNumPerRP s)) \<and> rvs_ok (ss_CurrentResourceVerions s)"

definition canon_NodeStoreStatus :: "NodeStoreStatus \<Rightarrow> NodeStoreStatus" where
  "canon_NodeStoreStatus s = s\<lparr>ss_CurrentResourceVerions := canon_rvs (ss_CurrentResourceVerions s)\<rparr>"

lemma dec_nat_enc: "int64 (int n) \<Longrightarrow> dec_nat (JNum (Itoa (int n))) old = (n, Decoded)"
  by (simp add: dec_nat_def dec_enc)

lemma NodeStoreStatus_codec:
  assumes "NodeStoreStatus_ok s"
  shows "\<exists>ms. enc_NodeStoreStatus s = Some (JObj ms) \<and>
    dec_NodeStoreStatus (JObj ms) zero_NodeStoreStatus = (canon_NodeStoreStatus s, Decoded) \<and> json_ok 2 (JObj ms)"
proof -
  have ok: "rvs_ok (ss_CurrentResourceVerions s)" using assms by (simp add: NodeStoreStatus_ok_def)
  obtain j where "enc_nil_map enc_rvs (Some (ss_CurrentResourceVerions s)) = Some j"
    "dec_rvs j [] = (canon_rvs (ss_CurrentResourceVerions s), Decoded)" "json_ok 1 j"
  proof (cases "ss_CurrentResourceVerions s = []")
    case True
    then show thesis
      by (intro that [of "JObj []"]) (simp_all add: enc_nil_map_def dec_rvs_def dec_map_def canon_rvs_def)
  next
    case False
    then show thesis using rvs_codec [OF ok] that by (auto simp: enc_nil_map_def)
  qed
  then show ?thesis
    using assms by (simp add: enc_NodeStoreStatus_def dec_NodeStoreStatus_def zero_NodeStoreStatus_def
        canon_NodeStoreStatus_def NodeStoreStatus_ok_def dec_nat_enc struct_simps)
qed

interpretation status_codec: object_codec enc_NodeStoreStatus dec_NodeStoreStatus zero_NodeStoreStatus
  NodeStoreStatus_ok canon_NodeStoreStatus 2
  by standard (simp_all add: maxNestingDepth_def NodeStoreStatus_codec del: json_ok.simps)

text \<open>\<open>location.Location\<close> has no exported fields: its text is the empty object, and decoding leaves it alone.\<close>

definition enc_Location :: "Location encoder" where
  "enc_Location l = enc_struct []"

definition dec_Location :: "Location decoder" where
  "dec_Location = dec_struct []"

definition zero_Location :: Location where
  "zero_Location = \<lparr>loc_region = 0, loc_partition = 0\<rparr>"

definition enc_float :: "TextCodec \<Rightarrow> f64 encoder" where
  "enc_float tc x = map_option JNum (tc_float tc x)"

definition dec_float :: "TextCodec \<Rightarrow> f64 decoder" where
  "dec_float tc = dec_number (tc_parse_float tc)"

definition enc_VirtualNodeConfig :: "TextCodec \<Rightarrow> VirtualNodeConfig encoder" where
  "enc_VirtualNodeConfig tc c =
     enc_struct [(''Lowerbound'', Some (enc_float tc (vc_Lowerbound c))), (''Upperbound'', Some (enc_float tc (vc_Upperbound c))),
       (''Location'', Some (enc_Location (vc_Location c)))]"

definition dec_VirtualNodeConfig :: "TextCodec \<Rightarrow> VirtualNodeConfig decoder" where
  "dec_VirtualNodeConfig tc =
     dec_struct [(''Lowerbound'', field vc_Lowerbound vc_Lowerbound_update (dec_float tc)),
       (''Upperbound'', field vc_Upperbound vc_Upperbound_update (dec_float tc)),
       (''Location'', field vc_Location vc_Location_update dec_Location)]"

definition zero_VirtualNodeConfig :: VirtualNodeConfig where
  "zero_VirtualNodeConfig = \<lparr>vc_Lowerbound = 0, vc_Upperbound = 0, vc_Location = zero_Location\<rparr>"

definition enc_VirtualNodeAssignment :: "TextCodec \<Rightarrow> VirtualNodeAssignment encoder" where
  "enc_VirtualNodeAssignment tc a =
     enc_struct [(''ClientId'', Some (enc_string (va_ClientId a))),
       (''VirtualNodes'', Some (enc_slice (enc_VirtualNodeConfig tc) (va_VirtualNodes a)))]"

definition dec_VirtualNodeAssignment :: "TextCodec \<Rightarrow> VirtualNodeAssignment decoder" where
  "dec_VirtualNodeAssignment tc =
     dec_struct [(''ClientId'', field va_ClientId va_ClientId_update dec_string),
       (''VirtualNodes'', field va_VirtualNodes va_VirtualNodes_update (dec_slice zero_VirtualNodeConfig (dec_VirtualNodeConfig tc)))]"

definition zero_VirtualNodeAssignment :: VirtualNodeAssignment where
  "zero_VirtualNodeAssignment = \<lparr>va_ClientId = '''', va_VirtualNodes = []\<rparr>"

definition VirtualNodeAssignment_ok :: "TextCodec \<Rightarrow> VirtualNodeAssignment \<Rightarrow> bool" where
  "VirtualNodeAssignment_ok tc a \<longleftrightarrow> text_laws tc \<and> ascii (va_ClientId a) \<and>
     (\<forall>c\<in>set (va_VirtualNodes a). tc_float tc (vc_Lowerbound c) \<noteq> None \<and> tc_float tc (vc_Upperbound c) \<noteq> None)"

text \<open>What is left of an assignment in its text: the locations of its stores are lost.\<close>

definition without_locations :: "VirtualNodeAssignment \<Rightarrow> VirtualNodeAssignment" where
  "without_locations a = a\<lparr>va_VirtualNodes := map (\<lambda>c. c\<lparr>vc_Location := zero_Location\<rparr>) (va_VirtualNodes a)\<rparr>"

lemma VirtualNodeConfig_codec:
  assumes "text_laws tc" "tc_float tc (vc_Lowerbound c) \<noteq> None" "tc_float tc (vc_Upperbound c) \<noteq> None"
  shows "\<exists>j. enc_VirtualNodeConfig tc c = Some j \<and>
    dec_VirtualNodeConfig tc j zero_VirtualNodeConfig = (c\<lparr>vc_Location := zero_Location\<rparr>, Decoded) \<and> json_ok 2 j"
proof -
  obtain lo up where "tc_float tc (vc_Lowerbound c) = Some lo" "tc_float tc (vc_Upperbound c) = Some up"
    using assms(2,3) by auto
  moreover have "valid_number lo" "tc_parse_float tc lo = Some (vc_Lowerbound c)"
    "valid_number up" "tc_parse_float tc up = Some (vc_Upperbound c)"
    using calculation assms(1) by (auto simp: text_laws_def)
  ultimately show ?thesis
    by (simp add: enc_VirtualNodeConfig_def dec_VirtualNodeConfig_def enc_float_def dec_float_def dec_number_def
        enc_Location_def dec_Location_def zero_VirtualNodeConfig_def struct_simps)
qed

lemma VirtualNodeAssignment_codec:
  assumes "VirtualNodeAssignment_ok tc a"
  shows "\<exists>ms. enc_VirtualNodeAssignment tc a = Some (JObj ms) \<and>
    dec_VirtualNodeAssignment tc (JObj ms) zero_VirtualNodeAssignment = (without_locations a, Decoded) \<and> json_ok 4 (JObj ms)"
proof -
  have "\<exists>j. enc_VirtualNodeConfig tc c = Some j \<and>
      dec_VirtualNodeConfig tc j zero_VirtualNodeConfig = (c\<lparr>vc_Location := zero_Location\<rparr>, Decoded) \<and> json_ok 2 j"
    if "c \<in> set (va_VirtualNodes a)" for c
    using VirtualNodeConfig_codec [of tc c] that assms unfolding VirtualNodeAssignment_ok_def by blast
  then obtain js where "enc_slice (enc_VirtualNodeConfig tc) (va_VirtualNodes a) = Some (JArr js)"
    "dec_slice zero_VirtualNodeConfig (dec_VirtualNodeConfig tc) (JArr js) [] =
      (map (\<lambda>c. c\<lparr>vc_Location := zero_Location\<rparr>) (va_VirtualNodes a), Decoded)" "json_ok (Suc 2) (JArr js)"
    using slice_codec [of "va_VirtualNodes a" "enc_VirtualNodeConfig tc" "dec_VirtualNodeConfig tc"
        zero_VirtualNodeConfig "\<lambda>c. c\<lparr>vc_Location := zero_Location\<rparr>" 2] by blast
  then show ?thesis
    by (simp add: enc_VirtualNodeAssignment_def dec_VirtualNodeAssignment_def zero_VirtualNodeAssignment_def
        without_locations_def struct_simps)
qed

interpretation assignment_codec: object_codec "enc_VirtualNodeAssignment tc" "dec_VirtualNodeAssignment tc"
  zero_VirtualNodeAssignment "VirtualNodeAssignment_ok tc" without_locations 4 for tc
  by standard (simp_all add: maxNestingDepth_def VirtualNodeAssignment_codec del: json_ok.simps)

end
