(* ===== verification/GRS_Redis.thy ===== *)
theory GRS_Redis
  imports GRS_Persist GRS_Codec
begin

text \<open>
  The Redis storage (store/redis/redis.go) over a go-redis client. The client is not part of the
  repository: its calls are the fields of \<open>RedisClient\<close>, and what the code relies on (a value set is
  the value got, other keys are not touched) is the predicate \<open>redis_laws\<close>. The texts are those of
  \<open>GRS_Codec\<close>. Bytes are strings. \<open>GetNodes\<close> decodes every value through one pointer variable, so its
  objects live in an explicit store and its result is a list of addresses into it.
\<close>

section \<open>The client and the texts\<close>

record 's RedisClient =
  rc_Set :: "string \<Rightarrow> string \<Rightarrow> 's \<Rightarrow> GoError option \<times> 's"
  rc_Get :: "string \<Rightarrow> 's \<Rightarrow> string result"
  rc_Keys :: "string \<Rightarrow> 's \<Rightarrow> string list"
  rc_FlushAll :: "'s \<Rightarrow> GoError option \<times> 's"

definition json_error :: GoError where
  "json_error = ErrorText ''json''"

definition marshal_result :: "'a encoder \<Rightarrow> 'a \<Rightarrow> string result" where
  "marshal_result enc x = (case Marshal enc x of Some t \<Rightarrow> Inr t | None \<Rightarrow> Inl json_error)"

definition unmarshal_result :: "'a decoder \<Rightarrow> string \<Rightarrow> 'a \<Rightarrow> 'a result" where
  "unmarshal_result d t old = (let (x, failed) = Unmarshal d t old in if failed then Inl json_error else Inr x)"

text \<open>\<open>jd_node tc text old\<close> decodes into a pointer that holds \<open>old\<close> (or nil); the text null makes it nil.\<close>

definition js_node :: "TextCodec \<Rightarrow> LogicalNode \<Rightarrow> string result" where
  "js_node tc = marshal_result (enc_node tc)"

definition jd_node :: "TextCodec \<Rightarrow> string \<Rightarrow> LogicalNode option \<Rightarrow> LogicalNode option result" where
  "jd_node tc = unmarshal_result (dec_ptr zero_node (dec_node tc))"

definition js_status :: "NodeStoreStatus \<Rightarrow> string result" where
  "js_status = marshal_result enc_NodeStoreStatus"

definition jd_status :: "string \<Rightarrow> NodeStoreStatus option result" where
  "jd_status t = unmarshal_result (dec_ptr zero_NodeStoreStatus dec_NodeStoreStatus) t None"

definition js_assignment :: "TextCodec \<Rightarrow> VirtualNodeAssignment \<Rightarrow> string result" where
  "js_assignment tc = marshal_result (enc_VirtualNodeAssignment tc)"

definition jd_assignment :: "TextCodec \<Rightarrow> string \<Rightarrow> VirtualNodeAssignment option result" where
  "jd_assignment tc t = unmarshal_result (dec_ptr zero_VirtualNodeAssignment (dec_VirtualNodeAssignment tc)) t None"

definition js_client :: "Client \<Rightarrow> string result" where
  "js_client = marshal_result enc_Client"

definition jd_client :: "string \<Rightarrow> Client result" where
  "jd_client t = unmarshal_result dec_Client t zero_Client"

definition redis_laws :: "'s RedisClient \<Rightarrow> bool" where
  "redis_laws rc \<longleftrightarrow>
     (\<forall>k v s s'. rc_Set rc k v s = (None, s') \<longrightarrow> rc_Get rc k s' = Inr v) \<and>
     (\<forall>k v s err s'. rc_Set rc k v s = (Some err, s') \<longrightarrow> rc_Get rc k s' \<in> {rc_Get rc k s, Inr v}) \<and>
     (\<forall>k k' v s r s'. rc_Set rc k v s = (r, s') \<longrightarrow> k' \<noteq> k \<longrightarrow> rc_Get rc k' s' = rc_Get rc k' s)"

section \<open>Operations\<close>

text \<open>\<open>NewRedisClient\<close> ends the process when the store cannot be flushed.\<close>

definition NewRedisClient :: "'s RedisClient \<Rightarrow> 's \<Rightarrow> 's option" where
  "NewRedisClient rc s = (case rc_FlushAll rc s of (Some err, s') \<Rightarrow> None | (None, s') \<Rightarrow> Some s')"

definition redis_setString :: "'s RedisClient \<Rightarrow> string \<Rightarrow> string \<Rightarrow> 's \<Rightarrow> bool \<times> 's" where
  "redis_setString rc myKey myValue s =
     (if length myKey = 0 \<or> length myValue = 0 then (False, s)
      else case rc_Set rc myKey myValue s of (Some err, s') \<Rightarrow> (False, s') | (None, s') \<Rightarrow> (True, s'))"

definition redis_getString :: "'s RedisClient \<Rightarrow> string \<Rightarrow> 's \<Rightarrow> string" where
  "redis_getString rc myKey s =
     (if length myKey = 0 then ''''
      else case rc_Get rc myKey s of Inl err \<Rightarrow> '''' | Inr value \<Rightarrow> value)"

fun redis_persist_loop :: "'s RedisClient \<Rightarrow> TextCodec \<Rightarrow> LogicalNode list \<Rightarrow> 's \<Rightarrow> bool \<times> 's" where
  "redis_persist_loop rc tc [] s = (True, s)"
| "redis_persist_loop rc tc (n # ns) s =
     (case js_node tc n of
        Inl err \<Rightarrow> (False, s)
      | Inr bytes \<Rightarrow>
          (case rc_Set rc (LogicalNode_GetKey (Some n)) bytes s of
             (Some err, s') \<Rightarrow> (False, s')
           | (None, s') \<Rightarrow> redis_persist_loop rc tc ns s'))"

definition redis_PersistNodes ::
  "'s RedisClient \<Rightarrow> TextCodec \<Rightarrow> LogicalNode list option \<Rightarrow> 's \<Rightarrow> (bool \<times> 's) result" where
  "redis_PersistNodes rc tc logicalNodes s =
     (case logicalNodes of
        None \<Rightarrow> Inr (False, s)
      | Some ns \<Rightarrow> Inr (redis_persist_loop rc tc ns s))"

definition redis_PersistNodeStoreStatus ::
  "'s RedisClient \<Rightarrow> NodeStoreStatus \<Rightarrow> 's \<Rightarrow> bool \<times> 's" where
  "redis_PersistNodeStoreStatus rc nodeStoreStatus s =
     (case js_status nodeStoreStatus of
        Inl err \<Rightarrow> (False, s)
      | Inr bytes \<Rightarrow>
          (case rc_Set rc NodeStoreStatus_GetKey bytes s of (Some err, s') \<Rightarrow> (False, s') | (None, s') \<Rightarrow> (True, s')))"

definition redis_PersistVirtualNodesAssignments ::
  "'s RedisClient \<Rightarrow> TextCodec \<Rightarrow> VirtualNodeAssignment \<Rightarrow> 's \<Rightarrow> bool \<times> 's" where
  "redis_PersistVirtualNodesAssignments rc tc virtualNodeAssignment s =
     (case js_assignment tc virtualNodeAssignment of
        Inl err \<Rightarrow> (False, s)
      | Inr bytes \<Rightarrow>
          (case rc_Set rc VirtualNodeAssignment_GetKey bytes s of (Some err, s') \<Rightarrow> (False, s') | (None, s') \<Rightarrow> (True, s')))"

text \<open>One step of the loop of \<open>GetNodes\<close>: the pointer variable, the objects and the result so far.\<close>

fun redis_nodes_loop ::
  "'s RedisClient \<Rightarrow> TextCodec \<Rightarrow> 's \<Rightarrow> string list \<Rightarrow> nat option \<Rightarrow> LogicalNode list \<Rightarrow> nat option list \<Rightarrow>
     (nat option list \<times> LogicalNode list) option" where
  "redis_nodes_loop rc tc s [] ptr objs acc = Some (acc, objs)"
| "redis_nodes_loop rc tc s (k # ks) ptr objs acc =
     (case rc_Get rc k s of
        Inl err \<Rightarrow> None
      | Inr value \<Rightarrow>
          (case jd_node tc value (map_option (\<lambda>p. objs ! p) ptr) of
             Inl err \<Rightarrow> None
           | Inr None \<Rightarrow> redis_nodes_loop rc tc s ks None objs (acc @ [None])
           | Inr (Some n) \<Rightarrow>
               (case ptr of
                  Some p \<Rightarrow> redis_nodes_loop rc tc s ks (Some p) (objs[p := n]) (acc @ [Some p])
                | None \<Rightarrow> redis_nodes_loop rc tc s ks (Some (length objs)) (objs @ [n]) (acc @ [Some (length objs)]))))"

definition redis_GetNodes :: "'s RedisClient \<Rightarrow> TextCodec \<Rightarrow> 's \<Rightarrow> LogicalNode option list option" where
  "redis_GetNodes rc tc s =
     map_option (\<lambda>(ptrs, objs). map (map_option (\<lambda>p. objs ! p)) ptrs)
       (redis_nodes_loop rc tc s (rc_Keys rc (PreserveNode_KeyPrefix @ ''*'') s) None [] [])"

definition redis_GetNodeStoreStatus :: "'s RedisClient \<Rightarrow> 's \<Rightarrow> NodeStoreStatus option" where
  "redis_GetNodeStoreStatus rc s =
     (case rc_Get rc NodeStoreStatus_GetKey s of
        Inl err \<Rightarrow> None
      | Inr value \<Rightarrow> (case jd_status value of Inl err \<Rightarrow> None | Inr st \<Rightarrow> st))"

definition redis_GetVirtualNodesAssignments ::
  "'s RedisClient \<Rightarrow> TextCodec \<Rightarrow> 's \<Rightarrow> VirtualNodeAssignment option" where
  "redis_GetVirtualNodesAssignments rc tc s =
     (case rc_Get rc VirtualNodeAssignment_GetKey s of
        Inl err \<Rightarrow> None
      | Inr value \<Rightarrow> (case jd_assignment tc value of Inl err \<Rightarrow> None | Inr a \<Rightarrow> a))"

definition redis_PersistClient ::
  "'s RedisClient \<Rightarrow> string \<Rightarrow> Client \<Rightarrow> 's \<Rightarrow> GoError option \<times> 's" where
  "redis_PersistClient rc clientId client s =
     (case js_client client of
        Inl err \<Rightarrow> (Some err, s)
      | Inr ci \<Rightarrow> rc_Set rc clientId ci s)"

definition redis_GetClient :: "'s RedisClient \<Rightarrow> string \<Rightarrow> 's \<Rightarrow> Client result" where
  "redis_GetClient rc clientId s =
     (case rc_Get rc clientId s of
        Inl err \<Rightarrow> Inl err
      | Inr value \<Rightarrow> jd_client value)"

definition redis_UpdateClient :: "string \<Rightarrow> Client \<Rightarrow> 's \<Rightarrow> GoError option \<times> 's" where
  "redis_UpdateClient clientId client s = (Some (ErrorText ''not implemented''), s)"

definition redis_GetClients :: "'s \<Rightarrow> Client list result" where
  "redis_GetClients s = Inl (ErrorText ''not implemented'')"

definition redis_InitNodeIdCache :: "'s \<Rightarrow> 's" where
  "redis_InitNodeIdCache s = s"

definition redis_GetNodeIdCount :: "'s \<Rightarrow> int" where
  "redis_GetNodeIdCount s = -1"

definition redis_SetTestNodeIdMatch :: "bool \<Rightarrow> 's \<Rightarrow> 's" where
  "redis_SetTestNodeIdMatch isMatch s = s"

definition goredis :: "'s RedisClient \<Rightarrow> TextCodec \<Rightarrow> 's StoreInterface" where
  "goredis rc tc =
     \<lparr>si_PersistNodes = redis_PersistNodes rc tc,
      si_PersistNodeStoreStatus = redis_PersistNodeStoreStatus rc,
      si_PersistVirtualNodesAssignments = redis_PersistVirtualNodesAssignments rc tc,
      si_PersistClient = redis_PersistClient rc, si_GetClient = redis_GetClient rc,
      si_GetClients = redis_GetClients, si_UpdateClient = redis_UpdateClient,
      si_InitNodeIdCache = redis_InitNodeIdCache, si_GetNodeIdCount = redis_GetNodeIdCount,
      si_SetTestNodeIdMatch = redis_SetTestNodeIdMatch\<rparr>"

section \<open>What is stored\<close>

lemma redis_set_get:
  assumes "redis_laws rc" "rc_Set rc k v s = (None, s')"
  shows "rc_Get rc k' s' = (if k' = k then Inr v else rc_Get rc k' s)"
  using assms unfolding redis_laws_def by auto

lemma redis_set_keeps:
  assumes "redis_laws rc" "rc_Set rc k v s = (r, s')" "\<exists>w. rc_Get rc k' s = Inr w"
  shows "\<exists>w. rc_Get rc k' s' = Inr w"
proof (cases "k' = k")
  case True
  then have "rc_Get rc k' s' \<in> {rc_Get rc k' s, Inr v}"
    using assms(1,2) unfolding redis_laws_def by (cases r) auto
  then show ?thesis using assms(3) by auto
next
  case False
  then show ?thesis using assms unfolding redis_laws_def by metis
qed

definition redis_saved :: "'s RedisClient \<Rightarrow> 's \<Rightarrow> LogicalNode \<Rightarrow> bool" where
  "redis_saved rc s n \<longleftrightarrow> (\<exists>v. rc_Get rc (LogicalNode_GetKey (Some n)) s = Inr v)"

lemma persist_loop_keeps:
  "redis_laws rc \<Longrightarrow> redis_saved rc s n \<Longrightarrow> redis_persist_loop rc tc ns s = (ok, s') \<Longrightarrow> redis_saved rc s' n"
proof (induction ns arbitrary: s)
  case (Cons m ns)
  show ?case
  proof (cases "js_node tc m")
    case (Inr t)
    obtain r s1 where s1: "rc_Set rc (LogicalNode_GetKey (Some m)) t s = (r, s1)" by fastforce
    then have "redis_saved rc s1 n"
      using redis_set_keeps [OF Cons.prems(1) s1] Cons.prems(2) by (simp add: redis_saved_def)
    then show ?thesis using Cons.IH [OF Cons.prems(1)] Cons.prems(3) Inr s1 by (cases r) auto
  qed (use Cons.prems in simp)
qed simp

lemma persist_loop_saves:
  "redis_laws rc \<Longrightarrow> redis_persist_loop rc tc ns s = (True, s') \<Longrightarrow> n \<in> set ns \<Longrightarrow> redis_saved rc s' n"
proof (induction ns arbitrary: s)
  case (Cons m ns)
  obtain t s1 where t: "js_node tc m = Inr t" "rc_Set rc (LogicalNode_GetKey (Some m)) t s = (None, s1)"
    "redis_persist_loop rc tc ns s1 = (True, s')"
    using Cons.prems(2) by (auto split: sum.splits prod.splits option.splits)
  have "redis_saved rc s1 m" using redis_set_get [OF Cons.prems(1) t(2)] by (simp add: redis_saved_def)
  then show ?case
    using Cons.IH [OF Cons.prems(1) t(3)] persist_loop_keeps [OF Cons.prems(1) _ t(3)] Cons.prems(3) by auto
qed simp

text \<open>The last node of a batch with a given key is the one that is read back.\<close>

lemma persist_loop_reads:
  "redis_laws rc \<Longrightarrow> redis_persist_loop rc tc ns s = (True, s') \<Longrightarrow>
    rc_Get rc k s' = (case find (\<lambda>n. LogicalNode_GetKey (Some n) = k) (rev ns) of
      None \<Rightarrow> rc_Get rc k s | Some n \<Rightarrow> js_node tc n)"
proof (induction ns arbitrary: s)
  case (Cons m ns)
  obtain t s1 where t: "js_node tc m = Inr t" "rc_Set rc (LogicalNode_GetKey (Some m)) t s = (None, s1)"
    "redis_persist_loop rc tc ns s1 = (True, s')"
    using Cons.prems(2) by (auto split: sum.splits prod.splits option.splits)
  have f: "find P (xs @ [x]) = (case find P xs of Some y \<Rightarrow> Some y | None \<Rightarrow> if P x then Some x else None)"
    for P and xs and x :: LogicalNode by (induction xs) auto
  show ?case
    using Cons.IH [OF Cons.prems(1) t(3)] redis_set_get [OF Cons.prems(1) t(2), of k] t(1)
    by (auto simp: f split: option.splits)
qed simp

text \<open>The Redis storage meets the contract of the persistence helper: its calls never panic, a saved node
  stays saved, and a call that reports success has saved its nodes.\<close>

lemma goredis_store_provider:
  assumes "redis_laws rc"
  shows "store_provider (goredis rc tc) (\<lambda>s. True) (redis_saved rc)"
proof
  show "\<exists>ok s'. si_PersistNodes (goredis rc tc) (Some ns) s = Inr (ok, s')" for ns s
    by (simp add: goredis_def redis_PersistNodes_def)
  show "redis_saved rc s' n"
    if "si_PersistNodes (goredis rc tc) (Some ns) s = Inr (ok, s')" "redis_saved rc s n" for ns s ok s' n
    using persist_loop_keeps [OF assms that(2)] that(1) by (simp add: goredis_def redis_PersistNodes_def)
  show "redis_saved rc s' n"
    if "si_PersistNodes (goredis rc tc) (Some ns) s = Inr (True, s')" "n \<in> set ns" for ns s s' n
    using persist_loop_saves [OF assms _ that(2)] that(1) by (simp add: goredis_def redis_PersistNodes_def)
qed simp_all

section \<open>Round trips\<close>

context object_codec
begin

lemma result_roundtrip:
  assumes "ok x" "marshal_result enc x = Inr t"
  shows "unmarshal_result d t zero = Inr (canon x)"
  using unmarshal_marshal [OF assms(1)] assms(2) by (auto simp: marshal_result_def unmarshal_result_def)

lemma ptr_roundtrip:
  assumes "ok x" "marshal_result enc x = Inr t"
  shows "unmarshal_result (dec_ptr zero d) t None = Inr (Some (canon x))"
proof -
  obtain ms where "t = json_text (JObj ms)" "d (JObj ms) zero = (canon x, Decoded)" "json_ok maxNestingDepth (JObj ms)"
    using assms by (auto simp: marshal_result_def elim!: object_text)
  then show ?thesis by (simp add: unmarshal_result_def Unmarshal_def parse_json_text dec_ptr_def)
qed

end

lemma redis_client_roundtrip:
  assumes "redis_laws rc" "Client_ok c" "redis_PersistClient rc i c s = (None, s')"
  shows "redis_GetClient rc i s' = Inr (canon_Client c)"
  using assms(3) redis_set_get [OF assms(1)] client_codec.result_roundtrip [OF assms(2)]
  by (auto simp: redis_PersistClient_def redis_GetClient_def js_client_def jd_client_def split: sum.splits)

lemma redis_status_roundtrip:
  assumes "redis_laws rc" "NodeStoreStatus_ok st" "redis_PersistNodeStoreStatus rc st s = (True, s')"
  shows "redis_GetNodeStoreStatus rc s' = Some (canon_NodeStoreStatus st)"
  using assms(3) redis_set_get [OF assms(1)] status_codec.ptr_roundtrip [OF assms(2)]
  by (auto simp: redis_PersistNodeStoreStatus_def redis_GetNodeStoreStatus_def js_status_def jd_status_def
      split: sum.splits prod.splits option.splits)

lemma redis_assignment_roundtrip:
  assumes "redis_laws rc" "VirtualNodeAssignment_ok tc a" "redis_PersistVirtualNodesAssignments rc tc a s = (True, s')"
  shows "redis_GetVirtualNodesAssignments rc tc s' = Some (without_locations a)"
  using assms(3) redis_set_get [OF assms(1)] assignment_codec.ptr_roundtrip [OF assms(2)]
  by (auto simp: redis_PersistVirtualNodesAssignments_def redis_GetVirtualNodesAssignments_def js_assignment_def
      jd_assignment_def split: sum.splits prod.splits option.splits)

lemma find_key_unique:
  "distinct (map f xs) \<Longrightarrow> n \<in> set xs \<Longrightarrow> find (\<lambda>x. f x = f n) xs = Some n"
  by (induction xs) (auto simp: image_iff)

lemma persist_loop_encodes:
  "redis_persist_loop rc tc ns s = (True, s') \<Longrightarrow> n \<in> set ns \<Longrightarrow> \<exists>t. js_node tc n = Inr t"
  by (induction ns arbitrary: s) (auto split: sum.splits prod.splits option.splits)

lemma redis_nodes_roundtrip:
  assumes "redis_laws rc" "redis_PersistNodes rc tc (Some ns) s = Inr (True, s')"
    and "distinct (map (\<lambda>n. LogicalNode_GetKey (Some n)) ns)" "n \<in> set ns" "node_ok tc n"
  shows "\<exists>t. rc_Get rc (LogicalNode_GetKey (Some n)) s' = Inr t \<and> jd_node tc t None = Inr (Some (canon_node n))"
proof -
  have l: "redis_persist_loop rc tc ns s = (True, s')" using assms(2) by (simp add: redis_PersistNodes_def)
  obtain t where t: "js_node tc n = Inr t" using persist_loop_encodes [OF l assms(4)] ..
  have "find (\<lambda>x. LogicalNode_GetKey (Some x) = LogicalNode_GetKey (Some n)) (rev ns) = Some n"
    using find_key_unique [of "\<lambda>n. LogicalNode_GetKey (Some n)" "rev ns" n] assms(3,4) by (simp add: rev_map [symmetric])
  then show ?thesis
    using persist_loop_reads [OF assms(1) l, of "LogicalNode_GetKey (Some n)"] t node_codec.ptr_roundtrip [OF assms(5)]
    by (simp add: js_node_def jd_node_def)
qed

section \<open>What GetNodes returns\<close>

lemma jd_node_over:
  assumes "node_ok tc n" "js_node tc n = Inr t"
  shows "jd_node tc t old = Inr (Some (merge_node n (case old of None \<Rightarrow> zero_node | Some o' \<Rightarrow> o')))"
proof -
  obtain ms where ms: "enc_node tc n = Some (JObj ms)"
    "dec_node tc (JObj ms) (case old of None \<Rightarrow> zero_node | Some o' \<Rightarrow> o') =
      (merge_node n (case old of None \<Rightarrow> zero_node | Some o' \<Rightarrow> o'), Decoded)" "json_ok 3 (JObj ms)"
    using node_merge_codec [OF assms(1)] by blast
  have "t = json_text (JObj ms)" using assms(2) ms(1) by (simp add: js_node_def marshal_result_def Marshal_def)
  moreover have "json_ok maxNestingDepth (JObj ms)" by (rule json_ok_mono [OF ms(3)]) (simp add: maxNestingDepth_def)
  ultimately show ?thesis
    using ms(2) by (simp add: jd_node_def unmarshal_result_def Unmarshal_def parse_json_text dec_ptr_def del: json_ok.simps)
qed

lemma nodes_loop_merge:
  "list_all2 (\<lambda>k n. \<exists>t. rc_Get rc k s = Inr t \<and> js_node tc n = Inr t \<and> node_ok tc n) ks ns \<Longrightarrow>
    ptr = None \<and> objs = [] \<or> ptr = Some 0 \<and> objs = [o'] \<Longrightarrow>
    \<exists>objs'. redis_nodes_loop rc tc s ks ptr objs acc = Some (acc @ replicate (length ks) (Some 0), objs') \<and>
      (ns \<noteq> [] \<longrightarrow> objs' = [fold merge_node ns (if ptr = None then zero_node else o')])"
proof (induction ks ns arbitrary: ptr objs acc o' rule: list_all2_induct)
  case (Cons k ks n ns)
  obtain t where t: "rc_Get rc k s = Inr t" "js_node tc n = Inr t" "node_ok tc n" using Cons.hyps(1) by blast
  let ?n = "merge_node n (if ptr = None then zero_node else o')"
  have d: "jd_node tc t (map_option (\<lambda>p. objs ! p) ptr) = Inr (Some ?n)"
    using jd_node_over [OF t(3,2)] Cons.prems by auto
  have "redis_nodes_loop rc tc s (k # ks) ptr objs acc = redis_nodes_loop rc tc s ks (Some 0) [?n] (acc @ [Some 0])"
    using t(1) d Cons.prems by auto
  moreover obtain objs' where
    "redis_nodes_loop rc tc s ks (Some 0) [?n] (acc @ [Some 0]) = Some ((acc @ [Some 0]) @ replicate (length ks) (Some 0), objs')"
    "ns \<noteq> [] \<longrightarrow> objs' = [fold merge_node ns ?n]"
    using Cons.IH [of "Some 0" "[?n]" ?n "acc @ [Some 0]"] by auto
  moreover have "ns = [] \<Longrightarrow> ks = []" using Cons.hyps(2) by simp
  ultimately show ?case by (cases ns) (auto simp: replicate_append_same)
qed auto

text \<open>
  \<open>GetNodes\<close> over stored texts of nodes \<open>ns\<close>, in the order in which the server lists their keys: every
  entry is the one object into which all of them were decoded, one over the other.
\<close>

lemma GetNodes_merge:
  assumes "list_all2 (\<lambda>k n. \<exists>t. rc_Get rc k s = Inr t \<and> js_node tc n = Inr t \<and> node_ok tc n)
      (rc_Keys rc (PreserveNode_KeyPrefix @ ''*'') s) ns"
  shows "redis_GetNodes rc tc s = Some (replicate (length ns) (Some (fold merge_node ns zero_node)))"
proof -
  let ?ks = "rc_Keys rc (PreserveNode_KeyPrefix @ ''*'') s"
  obtain objs where l: "redis_nodes_loop rc tc s ?ks None [] [] = Some (replicate (length ?ks) (Some 0), objs)"
    "ns \<noteq> [] \<longrightarrow> objs = [fold merge_node ns zero_node]"
    using nodes_loop_merge [OF assms, of None "[]" zero_node "[]"] by auto
  have "length ?ks = length ns" using list_all2_lengthD [OF assms] .
  then show ?thesis using l by (cases "ns = []") (auto simp: redis_GetNodes_def)
qed

end
