(* ===== verification/GRS_NetUtil.thy ===== *)
theory GRS_NetUtil
  imports Go_Net
begin

text \<open>
  The client's utilities on network errors and subnets (util/net/util.go) and its rate limiters
  (util/flowcontrol/throttle.go). A Go error that a connection returns is a value of \<open>net_error\<close>,
  with the wrappers of the packages net, net/url and os as constructors. The token bucket itself is
  golang.org/x/time/rate, outside the repository: its calls are the fields of \<open>TokenBucket\<close>.
\<close>

section \<open>Network errors\<close>

text \<open>
  A wrapper carries the text it puts before the error it wraps; \<open>Errno\<close> has its number and text,
  \<open>TimeoutErr\<close> stands for any other type with a \<open>Timeout\<close> method, \<open>PlainErr\<close> for one without.
\<close>

datatype net_error =
    UrlError string net_error
  | OpError string net_error
  | SyscallError string net_error
  | Errno nat string
  | IoEOF
  | IoUnexpectedEOF
  | TimeoutErr string bool
  | PlainErr string

fun error_text :: "net_error \<Rightarrow> string" where
  "error_text (UrlError p e) = p @ '': '' @ error_text e"
| "error_text (OpError p e) = p @ '': '' @ error_text e"
| "error_text (SyscallError p e) = p @ '': '' @ error_text e"
| "error_text (Errno n t) = t"
| "error_text IoEOF = ''EOF''"
| "error_text IoUnexpectedEOF = ''unexpected EOF''"
| "error_text (TimeoutErr t b) = t"
| "error_text (PlainErr t) = t"

definition ECONNRESET :: nat where "ECONNRESET = 104"
definition ECONNREFUSED :: nat where "ECONNREFUSED = 111"

text \<open>The three type tests in turn: each unwraps at most one layer, in the order url, op, syscall.\<close>

fun unwrap_url :: "net_error \<Rightarrow> net_error" where
  "unwrap_url (UrlError p e) = e"
| "unwrap_url e = e"

fun unwrap_op :: "net_error \<Rightarrow> net_error" where
  "unwrap_op (OpError p e) = e"
| "unwrap_op e = e"

fun unwrap_syscall :: "net_error \<Rightarrow> net_error" where
  "unwrap_syscall (SyscallError p e) = e"
| "unwrap_syscall e = e"

definition IsConnectionReset :: "net_error \<Rightarrow> bool" where
  "IsConnectionReset err =
     (case unwrap_syscall (unwrap_op (unwrap_url err)) of Errno n t \<Rightarrow> n = ECONNRESET | _ \<Rightarrow> False)"

definition IsConnectionRefused :: "net_error \<Rightarrow> bool" where
  "IsConnectionRefused err =
     (case unwrap_syscall (unwrap_op (unwrap_url err)) of Errno n t \<Rightarrow> n = ECONNREFUSED | _ \<Rightarrow> False)"

text \<open>
  \<open>Timeout\<close> of the library: the wrappers ask what they wrap; of the errnos EAGAIN and ETIMEDOUT are
  timeouts. A bare \<open>os.SyscallError\<close> has no \<open>Temporary\<close> method, so it is not a \<open>net.Error\<close>.
\<close>

fun has_timeout :: "net_error \<Rightarrow> bool" where
  "has_timeout (UrlError p e) = has_timeout e"
| "has_timeout (OpError p e) = has_timeout e"
| "has_timeout (SyscallError p e) = has_timeout e"
| "has_timeout (Errno n t) = (n = 11 \<or> n = 110)"
| "has_timeout (TimeoutErr t b) = b"
| "has_timeout _ = False"

definition IsTimeout :: "net_error \<Rightarrow> bool" where
  "IsTimeout err = (case err of SyscallError p e \<Rightarrow> False | _ \<Rightarrow> has_timeout err)"

text \<open>\<open>apostrophe\<close> is the character that a string literal here cannot hold.\<close>

definition apostrophe :: string where
  "apostrophe = [char_of (39 :: nat)]"

definition IsProbableEOF :: "net_error option \<Rightarrow> bool" where
  "IsProbableEOF err =
     (case err of
        None \<Rightarrow> False
      | Some e0 \<Rightarrow>
          (let e = unwrap_url e0; msg = error_text e in
           if e = IoEOF then True
           else if msg = ''http: can'' @ apostrophe @ ''t write HTTP request on broken connection'' then True
           else if str_contains msg ''http2: server sent GOAWAY and closed the connection'' then True
           else if str_contains msg ''connection reset by peer'' then True
           else str_contains (to_lower msg) ''use of closed network connection''))"

text \<open>The classification of an error does not depend on the operation that its wrappers name.\<close>

lemma IsConnectionReset_wrapped:
  "IsConnectionReset (UrlError p (OpError q (SyscallError r (Errno n t)))) \<longleftrightarrow> n = ECONNRESET"
  by (simp add: IsConnectionReset_def)

lemma reset_not_refused: "IsConnectionReset e \<Longrightarrow> \<not> IsConnectionRefused e"
  by (auto simp: IsConnectionReset_def IsConnectionRefused_def ECONNRESET_def ECONNREFUSED_def
      split: net_error.splits)

lemma reset_not_timeout: "IsConnectionReset e \<Longrightarrow> \<not> IsTimeout e"
  by (cases e rule: unwrap_url.cases; cases "unwrap_url e" rule: unwrap_op.cases;
      cases "unwrap_op (unwrap_url e)" rule: unwrap_syscall.cases)
    (auto simp: IsConnectionReset_def IsTimeout_def ECONNRESET_def split: net_error.splits)

section \<open>Rate limiters\<close>

text \<open>
  A context is the list of the time limits put on the background context. An \<open>Accept\<close> that never
  returns is \<open>None\<close>. All calls act on the world \<open>'w\<close>, which holds the bucket and the clock.
\<close>

type_synonym go_context = "int list"

record 'w RateLimiter =
  rl_TryAccept :: "'w \<Rightarrow> bool \<times> 'w"
  rl_Accept :: "'w \<Rightarrow> 'w option"
  rl_Stop :: "'w \<Rightarrow> 'w"
  rl_Wait :: "go_context \<Rightarrow> 'w \<Rightarrow> string option \<times> 'w"

record 'w TokenBucket =
  tb_AllowN :: "int \<Rightarrow> nat \<Rightarrow> 'w \<Rightarrow> bool \<times> 'w"
  tb_ReserveN :: "int \<Rightarrow> nat \<Rightarrow> 'w \<Rightarrow> int \<times> 'w"
  tb_Wait :: "go_context \<Rightarrow> 'w \<Rightarrow> string option \<times> 'w"

record 'w go_clock =
  gc_Now :: "'w \<Rightarrow> int"
  gc_Sleep :: "int \<Rightarrow> 'w \<Rightarrow> 'w"

definition tb_TryAccept :: "'w TokenBucket \<Rightarrow> 'w go_clock \<Rightarrow> 'w \<Rightarrow> bool \<times> 'w" where
  "tb_TryAccept lm clk w = tb_AllowN lm (gc_Now clk w) 1 w"

text \<open>\<open>tb_ReserveN\<close> gives the reservation's delay from the time it was made at.\<close>

definition tb_Accept :: "'w TokenBucket \<Rightarrow> 'w go_clock \<Rightarrow> 'w \<Rightarrow> 'w option" where
  "tb_Accept lm clk w = (let (delay, w') = tb_ReserveN lm (gc_Now clk w) 1 w in Some (gc_Sleep clk delay w'))"

definition tokenBucketRateLimiter :: "'w TokenBucket \<Rightarrow> 'w go_clock \<Rightarrow> 'w RateLimiter" where
  "tokenBucketRateLimiter lm clk =
     \<lparr>rl_TryAccept = tb_TryAccept lm clk, rl_Accept = tb_Accept lm clk, rl_Stop = (\<lambda>w. w),
      rl_Wait = tb_Wait lm\<rparr>"

definition NewFakeAlwaysRateLimiter :: "'w RateLimiter" where
  "NewFakeAlwaysRateLimiter =
     \<lparr>rl_TryAccept = (\<lambda>w. (True, w)), rl_Accept = Some, rl_Stop = (\<lambda>w. w), rl_Wait = (\<lambda>ctx w. (None, w))\<rparr>"

text \<open>
  The limiter that never accepts: an \<open>Accept\<close> waits until \<open>Stop\<close> has been called. \<open>stopped\<close> says whether
  it has; a second \<open>Stop\<close> would panic.
\<close>

definition NewFakeNeverRateLimiter :: "('w \<Rightarrow> bool) \<Rightarrow> ('w \<Rightarrow> 'w) \<Rightarrow> 'w RateLimiter" where
  "NewFakeNeverRateLimiter stopped done_wait =
     \<lparr>rl_TryAccept = (\<lambda>w. (False, w)), rl_Accept = (\<lambda>w. if stopped w then Some w else None), rl_Stop = done_wait,
      rl_Wait = (\<lambda>ctx w. (Some ''can not be accept'', w))\<rparr>"

section \<open>Subnets\<close>

unbundle bit_operations_syntax

text \<open>
  \<open>net.IP\<close> and \<open>net.IPMask\<close> are byte slices; a nil mask and an empty one differ under \<open>DeepEqual\<close>.
  \<open>Contains\<close> compares the address with the network number under the mask, IPv4 addresses in their
  four bytes even if they are written in sixteen.
\<close>

type_synonym IP = "8 word list"

record IPNet =
  net_IP :: IP
  net_Mask :: "8 word list option"

definition IP_To4 :: "IP \<Rightarrow> IP option" where
  "IP_To4 p =
     (if length p = 4 then Some p
      else if length p = 16 \<and> take 10 p = replicate 10 0 \<and> p ! 10 = 255 \<and> p ! 11 = 255 then Some (drop 12 p)
      else None)"

definition networkNumberAndMask :: "IPNet \<Rightarrow> (IP \<times> 8 word list) option" where
  "networkNumberAndMask n =
     (let m = (case net_Mask n of None \<Rightarrow> [] | Some m \<Rightarrow> m);
          masked = (\<lambda>p. if length m = 4 then (if length p = 4 then Some (p, m) else None)
                        else if length m = 16 then Some (p, if length p = 4 then drop 12 m else m)
                        else None)
      in case IP_To4 (net_IP n) of
           Some p \<Rightarrow> masked p
         | None \<Rightarrow> if length (net_IP n) = 16 then masked (net_IP n) else None)"

definition under_mask :: "8 word list \<Rightarrow> IP \<Rightarrow> 8 word list" where
  "under_mask m p = map2 (AND) p m"

definition IPNet_Contains :: "IPNet \<Rightarrow> IP \<Rightarrow> bool" where
  "IPNet_Contains n p =
     (let q = (case IP_To4 p of Some x \<Rightarrow> x | None \<Rightarrow> p) in
      case networkNumberAndMask n of
        None \<Rightarrow> q = []
      | Some (number, m) \<Rightarrow> length q = length number \<and> under_mask m number = under_mask m q)"

definition IPNetEqual :: "IPNet option \<Rightarrow> IPNet option \<Rightarrow> bool" where
  "IPNetEqual ipnet1 ipnet2 =
     (case (ipnet1, ipnet2) of
        (Some n1, Some n2) \<Rightarrow>
          net_Mask n1 = net_Mask n2 \<and> IPNet_Contains n1 (net_IP n2) \<and> IPNet_Contains n2 (net_IP n1)
      | _ \<Rightarrow> False)"

text \<open>The comment's example: 10.0.0.1/24 is the subnet 10.0.0.0/24, and not 10.0.0.0/25.\<close>

lemma IPNetEqual_examples:
  "IPNetEqual (Some \<lparr>net_IP = [10, 0, 0, 1], net_Mask = Some [255, 255, 255, 0]\<rparr>)
     (Some \<lparr>net_IP = [10, 0, 0, 0], net_Mask = Some [255, 255, 255, 0]\<rparr>)"
  "\<not> IPNetEqual (Some \<lparr>net_IP = [10, 0, 0, 1], net_Mask = Some [255, 255, 255, 0]\<rparr>)
     (Some \<lparr>net_IP = [10, 0, 0, 0], net_Mask = Some [255, 255, 255, 128]\<rparr>)"
  by code_simp+

text \<open>Two IPv4 subnets are equal exactly when their masks and their network numbers agree.\<close>

lemma IPNetEqual_v4:
  assumes "length p = 4" "length q = 4" "length m = 4" "length m' = 4"
  shows "IPNetEqual (Some \<lparr>net_IP = p, net_Mask = Some m\<rparr>) (Some \<lparr>net_IP = q, net_Mask = Some m'\<rparr>) \<longleftrightarrow>
    m = m' \<and> under_mask m p = under_mask m' q"
  using assms by (auto simp: IPNetEqual_def IPNet_Contains_def networkNumberAndMask_def IP_To4_def Let_def)

lemma IPNetEqual_sym: "IPNetEqual a b = IPNetEqual b a"
  by (auto simp: IPNetEqual_def split: option.splits)

end
