(* ===== verification/GRS_Rest.thy ===== *)
theory GRS_Rest
  imports GRS_NetUtil
begin

text \<open>
  The REST client of the SDK (rest/client.go, rest/request.go): building a request by chained
  setters, the retry loop, and what a response becomes. The HTTP transport, the construction of a
  request by net/http and the file system are the fields of \<open>HttpEnv\<close>, acting on a world \<open>'w\<close>.
  Errors are constructors with the values that their texts are made of. Logging is left out.
\<close>

section \<open>Requests, responses and the environment\<close>

record URL =
  url_Scheme :: string
  url_User :: string
  url_Host :: string
  url_Path :: string
  url_RawPath :: string
  url_RawQuery :: string
  url_Fragment :: string

record HttpRequest =
  hq_Method :: string
  hq_URL :: URL
  hq_Header :: "http_header option"
  hq_Body :: "string option"
  hq_Context :: "go_context option"

text \<open>Reading a body to its end gives the bytes and the error that ended it, if any.\<close>

record HttpResponse =
  hr_StatusCode :: int
  hr_Header :: http_header
  hr_Body :: "string \<times> net_error option"

record HttpClient =
  hc_Timeout :: int

datatype rest_error =
    ResourceAlreadySet string string
  | InvalidResource string "string list"
  | EmptyResourceName
  | NameAlreadySet string string
  | InvalidName string "string list"
  | ReadFileError string
  | UnknownBodyType
  | ThrottleError string
  | NewRequestError string
  | TransportError net_error
  | ResponseReadError net_error
  | UnexpectedReadError net_error
  | GotStatus URL int
  | StatusWhileAccessing int URL string
  | ZeroLengthResponse int string
  | JsonSyntaxError string
  | InvalidUnmarshal
  | BaseNilDereference

text \<open>
  \<open>he_NewRequest\<close> gives the error of \<open>http.NewRequest\<close>, if any, for a method and a URL. \<open>he_Do\<close> also
  says up to which position the body was read. A nil client is \<open>http.DefaultClient\<close>, whose timeout
  is zero.
\<close>

record 'w HttpEnv =
  he_NewRequest :: "string \<Rightarrow> URL \<Rightarrow> string option"
  he_Do :: "HttpClient \<Rightarrow> HttpRequest \<Rightarrow> 'w \<Rightarrow> ((net_error + HttpResponse) \<times> nat) \<times> 'w"
  he_ReadFile :: "string \<Rightarrow> 'w \<Rightarrow> string + string"

datatype seek_kind = SeekOk | SeekFails | NoSeeker

text \<open>A body reader: its bytes, the read position, and what its \<open>Seek\<close> does, if it has one.\<close>

record ReqBody =
  rb_data :: string
  rb_pos :: nat
  rb_seek :: seek_kind

definition NewReader :: "string \<Rightarrow> ReqBody" where
  "NewReader bs = \<lparr>rb_data = bs, rb_pos = 0, rb_seek = SeekOk\<rparr>"

datatype body_arg = FileArg string | BytesArg string | ReaderArg ReqBody | OtherArg

record ClientContentConfig =
  AcceptContentTypes :: string
  ContentType :: string

record 'w RESTClient =
  rest_base :: "URL option"
  rest_content :: ClientContentConfig
  rest_rateLimiter :: "'w RateLimiter option"
  rest_Client :: "HttpClient option"

record 'w RestRequest =
  rr_c :: "'w RESTClient"
  rr_rateLimiter :: "'w RateLimiter option"
  rr_timeout :: int
  rr_verb :: string
  rr_pathPrefix :: string
  rr_subpath :: string
  rr_params :: "url_values option"
  rr_headers :: "http_header option"
  rr_resource :: string
  rr_resourceName :: string
  rr_err :: "rest_error option"
  rr_body :: "ReqBody option"
  rr_ctx :: "go_context option"

section \<open>The client\<close>

definition NewRESTClient ::
  "URL \<Rightarrow> ClientContentConfig \<Rightarrow> 'w RateLimiter option \<Rightarrow> HttpClient option \<Rightarrow> 'w RESTClient" where
  "NewRESTClient baseURL config limiter client =
     (let config' = (if length (ContentType config) = 0 then config\<lparr>ContentType := ''application/json''\<rparr> else config);
          base = (if has_suffix (url_Path baseURL) ''/'' then baseURL
                  else baseURL\<lparr>url_Path := url_Path baseURL @ ''/''\<rparr>)
      in \<lparr>rest_base = Some (base\<lparr>url_RawQuery := '''', url_Fragment := ''''\<rparr>), rest_content = config',
          rest_rateLimiter = limiter, rest_Client = client\<rparr>)"

definition SetHeader :: "string \<Rightarrow> string list \<Rightarrow> 'w RestRequest \<Rightarrow> 'w RestRequest" where
  "SetHeader key vs r =
     (let h = (case rr_headers r of None \<Rightarrow> gm_empty | Some h \<Rightarrow> h) in
      r\<lparr>rr_headers := Some (fold (header_Add key) vs (header_Del key h))\<rparr>)"

definition NewRequest :: "'w RESTClient \<Rightarrow> 'w RestRequest" where
  "NewRequest c =
     (let pathPrefix = (case rest_base c of Some b \<Rightarrow> path_Join [''/'', url_Path b] | None \<Rightarrow> path_Join [''/'']);
          timeout = (case rest_Client c of Some hc \<Rightarrow> hc_Timeout hc | None \<Rightarrow> 0);
          r = \<lparr>rr_c = c, rr_rateLimiter = rest_rateLimiter c, rr_timeout = timeout, rr_verb = '''',
               rr_pathPrefix = pathPrefix, rr_subpath = '''', rr_params = None, rr_headers = None,
               rr_resource = '''', rr_resourceName = '''', rr_err = None, rr_body = None, rr_ctx = None\<rparr>
      in if length (AcceptContentTypes (rest_content c)) > 0
         then SetHeader ''Accept'' [AcceptContentTypes (rest_content c)] r
         else if length (ContentType (rest_content c)) > 0
         then SetHeader ''Accept'' [ContentType (rest_content c) @ '', */*''] r
         else r)"

definition Request_Verb :: "string \<Rightarrow> 'w RestRequest \<Rightarrow> 'w RestRequest" where
  "Request_Verb verb r = r\<lparr>rr_verb := verb\<rparr>"

definition rest_Verb :: "string \<Rightarrow> 'w RESTClient \<Rightarrow> 'w RestRequest" where
  "rest_Verb verb c = Request_Verb verb (NewRequest c)"

definition rest_Post :: "'w RESTClient \<Rightarrow> 'w RestRequest" where "rest_Post c = rest_Verb ''POST'' c"
definition rest_Put :: "'w RESTClient \<Rightarrow> 'w RestRequest" where "rest_Put c = rest_Verb ''PUT'' c"
definition rest_Get :: "'w RESTClient \<Rightarrow> 'w RestRequest" where "rest_Get c = rest_Verb ''GET'' c"
definition rest_Delete :: "'w RESTClient \<Rightarrow> 'w RestRequest" where "rest_Delete c = rest_Verb ''DELETE'' c"

section \<open>Names that are path segments\<close>

definition NameMayNotBe :: "string list" where
  "NameMayNotBe = [''.'', ''..'']"

definition NameMayNotContain :: "string list" where
  "NameMayNotContain = [''/'', ''%'']"

definition IsValidPathSegmentPrefix :: "string \<Rightarrow> string list" where
  "IsValidPathSegmentPrefix name =
     map (\<lambda>c. ''may not contain '' @ apostrophe @ c @ apostrophe) (filter (str_contains name) NameMayNotContain)"

definition IsValidPathSegmentName :: "string \<Rightarrow> string list" where
  "IsValidPathSegmentName name =
     (case find (\<lambda>b. name = b) NameMayNotBe of
        Some b \<Rightarrow> [''may not be '' @ apostrophe @ b @ apostrophe]
      | None \<Rightarrow> map (\<lambda>c. ''may not contain '' @ apostrophe @ c @ apostrophe)
                  (filter (str_contains name) NameMayNotContain))"

definition ValidatePathSegmentName :: "string \<Rightarrow> bool \<Rightarrow> string list" where
  "ValidatePathSegmentName name prefix =
     (if prefix then IsValidPathSegmentPrefix name else IsValidPathSegmentName name)"

section \<open>Setters\<close>

definition Request_Prefix :: "string list \<Rightarrow> 'w RestRequest \<Rightarrow> 'w RestRequest" where
  "Request_Prefix segments r =
     (if rr_err r \<noteq> None then r
      else r\<lparr>rr_pathPrefix := path_Join [rr_pathPrefix r, path_Join segments]\<rparr>)"

definition Request_Suffix :: "string list \<Rightarrow> 'w RestRequest \<Rightarrow> 'w RestRequest" where
  "Request_Suffix segments r =
     (if rr_err r \<noteq> None then r
      else r\<lparr>rr_subpath := path_Join [rr_subpath r, path_Join segments]\<rparr>)"

definition Request_Resource :: "string \<Rightarrow> 'w RestRequest \<Rightarrow> 'w RestRequest" where
  "Request_Resource resource r =
     (if rr_err r \<noteq> None then r
      else if length (rr_resource r) \<noteq> 0 then r\<lparr>rr_err := Some (ResourceAlreadySet (rr_resource r) resource)\<rparr>
      else let msgs = IsValidPathSegmentName resource in
           if length msgs \<noteq> 0 then r\<lparr>rr_err := Some (InvalidResource resource msgs)\<rparr>
           else r\<lparr>rr_resource := resource\<rparr>)"

definition Request_Throttle :: "'w RateLimiter option \<Rightarrow> 'w RestRequest \<Rightarrow> 'w RestRequest" where
  "Request_Throttle limiter r = r\<lparr>rr_rateLimiter := limiter\<rparr>"

definition Request_Name :: "string \<Rightarrow> 'w RestRequest \<Rightarrow> 'w RestRequest" where
  "Request_Name resourceName r =
     (if rr_err r \<noteq> None then r
      else if length resourceName = 0 then r\<lparr>rr_err := Some EmptyResourceName\<rparr>
      else if length (rr_resourceName r) \<noteq> 0
      then r\<lparr>rr_err := Some (NameAlreadySet (rr_resourceName r) resourceName)\<rparr>
      else let msgs = IsValidPathSegmentName resourceName in
           if length msgs \<noteq> 0 then r\<lparr>rr_err := Some (InvalidName resourceName msgs)\<rparr>
           else r\<lparr>rr_resourceName := resourceName\<rparr>)"

text \<open>\<open>AbsPath\<close> dereferences the base of the client.\<close>

definition Request_AbsPath :: "string list \<Rightarrow> 'w RestRequest \<Rightarrow> rest_error + 'w RestRequest" where
  "Request_AbsPath segments r =
     (if rr_err r \<noteq> None then Inr r
      else case rest_base (rr_c r) of
        None \<Rightarrow> Inl BaseNilDereference
      | Some b \<Rightarrow>
          (let p = path_Join [url_Path b, path_Join segments] in
           if length segments = 1 \<and> (length (url_Path b) > 1 \<or> length (segments ! 0) > 1) \<and>
              has_suffix (segments ! 0) ''/''
           then Inr (r\<lparr>rr_pathPrefix := p @ ''/''\<rparr>)
           else Inr (r\<lparr>rr_pathPrefix := p\<rparr>)))"

definition setParam :: "string \<Rightarrow> string \<Rightarrow> 'w RestRequest \<Rightarrow> 'w RestRequest" where
  "setParam paramName v r =
     r\<lparr>rr_params := Some (values_Add paramName v (case rr_params r of None \<Rightarrow> gm_empty | Some m \<Rightarrow> m))\<rparr>"

definition Request_Param :: "string \<Rightarrow> string \<Rightarrow> 'w RestRequest \<Rightarrow> 'w RestRequest" where
  "Request_Param paramName s r = (if rr_err r \<noteq> None then r else setParam paramName s r)"

definition Request_Timeout :: "int \<Rightarrow> 'w RestRequest \<Rightarrow> 'w RestRequest" where
  "Request_Timeout d r = (if rr_err r \<noteq> None then r else r\<lparr>rr_timeout := d\<rparr>)"

definition Request_Body :: "'w HttpEnv \<Rightarrow> body_arg \<Rightarrow> 'w \<Rightarrow> 'w RestRequest \<Rightarrow> 'w RestRequest" where
  "Request_Body env obj w r =
     (if rr_err r \<noteq> None then r
      else case obj of
        FileArg f \<Rightarrow>
          (case he_ReadFile env f w of
             Inl err \<Rightarrow> r\<lparr>rr_err := Some (ReadFileError err)\<rparr>
           | Inr bytes \<Rightarrow> r\<lparr>rr_body := Some (NewReader bytes)\<rparr>)
      | BytesArg bytes \<Rightarrow> r\<lparr>rr_body := Some (NewReader bytes)\<rparr>
      | ReaderArg rd \<Rightarrow> r\<lparr>rr_body := Some rd\<rparr>
      | OtherArg \<Rightarrow> r\<lparr>rr_err := Some UnknownBodyType\<rparr>)"

definition Request_Context :: "go_context option \<Rightarrow> 'w RestRequest \<Rightarrow> 'w RestRequest" where
  "Request_Context ctx r = r\<lparr>rr_ctx := ctx\<rparr>"

section \<open>The URL of a request\<close>

definition request_path :: "'w RestRequest \<Rightarrow> string" where
  "request_path r =
     (let p1 = (if length (rr_resource r) \<noteq> 0 then path_Join [rr_pathPrefix r, to_lower (rr_resource r)]
                else rr_pathPrefix r)
      in if length (rr_resourceName r) \<noteq> 0 then path_Join [p1, rr_resourceName r] else p1)"

definition request_query :: "'w RestRequest \<Rightarrow> url_values" where
  "request_query r =
     (let params = (case rr_params r of None \<Rightarrow> gm_empty | Some m \<Rightarrow> m);
          query = fold (\<lambda>(key, vs). fold (values_Add key) vs) params gm_empty
      in if rr_timeout r \<noteq> 0 then values_Set ''timeout'' (Duration_String (rr_timeout r)) query else query)"

definition zero_URL :: URL where
  "zero_URL = \<lparr>url_Scheme = '''', url_User = '''', url_Host = '''', url_Path = '''', url_RawPath = '''',
     url_RawQuery = '''', url_Fragment = ''''\<rparr>"

definition Request_URL :: "'w RestRequest \<Rightarrow> URL" where
  "Request_URL r =
     (let finalURL = (case rest_base (rr_c r) of Some b \<Rightarrow> b | None \<Rightarrow> zero_URL) in
      finalURL\<lparr>url_Path := request_path r, url_RawQuery := values_Encode (request_query r)\<rparr>)"

section \<open>Retries\<close>

text \<open>The result of \<open>tryThrottle\<close> is \<open>None\<close> when \<open>Accept\<close> never returns.\<close>

definition tryThrottle :: "'w RestRequest \<Rightarrow> 'w \<Rightarrow> (rest_error option \<times> 'w) option" where
  "tryThrottle r w =
     (case rr_rateLimiter r of
        None \<Rightarrow> Some (None, w)
      | Some rl \<Rightarrow>
          (case rr_ctx r of
             Some ctx \<Rightarrow> (let (err, w') = rl_Wait rl ctx w in Some (map_option ThrottleError err, w'))
           | None \<Rightarrow> map_option (\<lambda>w'. (None, w')) (rl_Accept rl w)))"

definition retryAfterSeconds :: "HttpResponse \<Rightarrow> int \<times> bool" where
  "retryAfterSeconds resp =
     (let h = header_Get ''Retry-After'' (hr_Header resp) in
      if length h > 0 then (case Atoi h of Some i \<Rightarrow> (i, True) | None \<Rightarrow> (0, False)) else (0, False))"

definition checkWait :: "HttpResponse \<Rightarrow> int \<times> bool" where
  "checkWait resp =
     (if hr_StatusCode resp = 429 \<or> hr_StatusCode resp \<ge> 500 then retryAfterSeconds resp else (0, False))"

definition maxRetries :: nat where
  "maxRetries = 10"

definition retry_response :: HttpResponse where
  "retry_response = \<lparr>hr_StatusCode = 500, hr_Header = [(''Retry-After'', [''1''])], hr_Body = ('''', None)\<rparr>"

definition with_timeout :: "'w RestRequest \<Rightarrow> 'w RestRequest" where
  "with_timeout r =
     (if rr_timeout r > 0
      then r\<lparr>rr_ctx := Some ((case rr_ctx r of None \<Rightarrow> [] | Some ctx \<Rightarrow> ctx) @ [rr_timeout r])\<rparr>
      else r)"

definition http_client :: "'w RestRequest \<Rightarrow> HttpClient" where
  "http_client r = (case rest_Client (rr_c r) of Some hc \<Rightarrow> hc | None \<Rightarrow> \<lparr>hc_Timeout = 0\<rparr>)"

definition http_request :: "'w RestRequest \<Rightarrow> ReqBody option \<Rightarrow> HttpRequest" where
  "http_request r b =
     \<lparr>hq_Method = rr_verb r, hq_URL = Request_URL r, hq_Header = rr_headers r,
      hq_Body = map_option (\<lambda>b. drop (rb_pos b) (rb_data b)) b, hq_Context = rr_ctx r\<rparr>"

definition advance_body :: "nat \<Rightarrow> 'w RestRequest \<Rightarrow> 'w RestRequest" where
  "advance_body pos r = r\<lparr>rr_body := map_option (\<lambda>b. b\<lparr>rb_pos := pos\<rparr>) (rr_body r)\<rparr>"

text \<open>The body before the next attempt; \<open>None\<close> when it cannot be rewound.\<close>

definition rewind :: "ReqBody option \<Rightarrow> ReqBody option option" where
  "rewind b =
     (case b of
        None \<Rightarrow> Some None
      | Some rd \<Rightarrow>
          (case rb_seek rd of
             SeekOk \<Rightarrow> Some (Some (rd\<lparr>rb_pos := 0\<rparr>))
           | SeekFails \<Rightarrow> None
           | NoSeeker \<Rightarrow> Some (Some rd)))"

text \<open>A reset connection counts, for a GET, as a response that asks for a retry.\<close>

definition response_or_error :: "string \<Rightarrow> net_error + HttpResponse \<Rightarrow> rest_error + HttpResponse" where
  "response_or_error verb out =
     (case out of
        Inr resp \<Rightarrow> Inr resp
      | Inl err \<Rightarrow>
          if \<not> IsConnectionReset err \<or> verb \<noteq> ''GET'' then Inl (TransportError err) else Inr retry_response)"

text \<open>
  One turn of the loop of \<open>doRequest\<close> up to the response: the request as it is left and the world;
  \<open>None\<close> when the rate limiter blocks forever.
\<close>

definition do_attempt ::
  "'w HttpEnv \<Rightarrow> nat \<Rightarrow> 'w RestRequest \<Rightarrow> 'w \<Rightarrow> ((rest_error + HttpResponse) \<times> 'w RestRequest \<times> 'w) option" where
  "do_attempt env retries r w =
     (case he_NewRequest env (rr_verb r) (Request_URL r) of
        Some err \<Rightarrow> Some (Inl (NewRequestError err), r, w)
      | None \<Rightarrow>
          (let r1 = with_timeout r in
           case (if retries > 0 then tryThrottle r1 w else Some (None, w)) of
             None \<Rightarrow> None
           | Some (Some err, w1) \<Rightarrow> Some (Inl err, r1, w1)
           | Some (None, w1) \<Rightarrow>
               (let ((out, pos), w2) = he_Do env (http_client r1) (http_request r1 (rr_body r1)) w1
                in Some (response_or_error (rr_verb r1) out, advance_body pos r1, w2))))"

text \<open>The loop: it returns the response that it hands to \<open>fn\<close>, or the error it ends with.\<close>

function doRequest_loop ::
  "'w HttpEnv \<Rightarrow> nat \<Rightarrow> 'w RestRequest \<Rightarrow> 'w \<Rightarrow> ((rest_error + HttpResponse) \<times> 'w RestRequest \<times> 'w) option" where
  "doRequest_loop env retries r w =
     (case do_attempt env retries r w of
        None \<Rightarrow> None
      | Some (Inl err, r', w') \<Rightarrow> Some (Inl err, r', w')
      | Some (Inr resp, r', w') \<Rightarrow>
          if snd (checkWait resp) \<and> Suc retries < maxRetries
          then (case rewind (rr_body r') of
                  None \<Rightarrow> Some (Inr resp, r', w')
                | Some b \<Rightarrow> doRequest_loop env (Suc retries) (r'\<lparr>rr_body := b\<rparr>) w')
          else Some (Inr resp, r', w'))"
  by pat_completeness auto
termination
  by (relation "measure (\<lambda>(env, retries, r, w). maxRetries - retries)") auto

declare doRequest_loop.simps [simp del]

definition doRequest ::
  "'w HttpEnv \<Rightarrow> 'w RestRequest \<Rightarrow> 'w \<Rightarrow> ((rest_error + HttpResponse) \<times> 'w RestRequest \<times> 'w) option" where
  "doRequest env r w = doRequest_loop env 0 r w"

section \<open>Results\<close>

record Result =
  res_body :: string
  res_contentType :: string
  res_err :: "rest_error option"
  res_statusCode :: int

definition DoRaw ::
  "'w HttpEnv \<Rightarrow> 'w RestRequest \<Rightarrow> 'w \<Rightarrow> ((string \<times> rest_error option) \<times> 'w RestRequest \<times> 'w) option" where
  "DoRaw env r w =
     (case tryThrottle r w of
        None \<Rightarrow> None
      | Some (Some err, w1) \<Rightarrow> Some (('''', Some err), r, w1)
      | Some (None, w1) \<Rightarrow>
          (case doRequest env r w1 of
             None \<Rightarrow> None
           | Some (Inl err, r', w') \<Rightarrow> Some (('''', Some err), r', w')
           | Some (Inr resp, r', w') \<Rightarrow>
               Some ((fst (hr_Body resp), map_option ResponseReadError (snd (hr_Body resp))), r', w')))"

text \<open>The decoder of a result reads from a body that is used up and nothing reads from it: left out.\<close>

definition transformResponse :: "'w RestRequest \<Rightarrow> HttpResponse \<Rightarrow> Result" where
  "transformResponse r resp =
     (case hr_Body resp of
        (data, Some err) \<Rightarrow>
          \<lparr>res_body = '''', res_contentType = '''', res_err = Some (UnexpectedReadError err), res_statusCode = 0\<rparr>
      | (data, None) \<Rightarrow>
          (let ct = header_Get ''Content-Type'' (hr_Header resp);
               contentType = (if length ct = 0 then ContentType (rest_content (rr_c r)) else ct)
           in \<lparr>res_body = data, res_contentType = contentType, res_err = None,
               res_statusCode = hr_StatusCode resp\<rparr>))"

definition truncateBody :: "string \<Rightarrow> string" where
  "truncateBody body =
     (if length body \<le> 1024 then body
      else take 1024 body @ '' [truncated '' @ decimal (length body - 1024) @ '' chars]'')"

definition Result_Raw :: "Result \<Rightarrow> string \<times> rest_error option" where
  "Result_Raw r = (res_body r, res_err r)"

definition Result_Error :: "Result \<Rightarrow> rest_error option" where
  "Result_Error r = res_err r"

text \<open>
  \<open>json.Unmarshal\<close> first checks the syntax of the text, whose verdict is \<open>check_valid\<close>, and then
  refuses its target when that is a nil interface, as \<open>out\<close> is in both callers.
\<close>

definition unmarshal_nil :: "(string \<Rightarrow> string option) \<Rightarrow> string \<Rightarrow> rest_error option" where
  "unmarshal_nil check_valid data =
     (case check_valid data of Some err \<Rightarrow> Some (JsonSyntaxError err) | None \<Rightarrow> Some InvalidUnmarshal)"

definition Result_Get :: "(string \<Rightarrow> string option) \<Rightarrow> Result \<Rightarrow> rest_error option" where
  "Result_Get check_valid r =
     (if res_err r \<noteq> None then Result_Error r else unmarshal_nil check_valid (res_body r))"

definition Result_Into :: "(string \<Rightarrow> string option) \<Rightarrow> Result \<Rightarrow> rest_error option" where
  "Result_Into check_valid r =
     (if res_err r \<noteq> None then Result_Error r
      else if length (res_body r) = 0 then Some (ZeroLengthResponse (res_statusCode r) (res_contentType r))
      else unmarshal_nil check_valid (res_body r))"

definition Result_StatusCode :: "Result \<Rightarrow> int" where
  "Result_StatusCode r = res_statusCode r"

definition Result_WasCreated :: "Result \<Rightarrow> bool" where
  "Result_WasCreated r \<longleftrightarrow> res_statusCode r = 201"

section \<open>Streams and watches\<close>

definition Request_Stream ::
  "'w HttpEnv \<Rightarrow> 'w RestRequest \<Rightarrow> 'w \<Rightarrow> ((rest_error + HttpResponse) \<times> 'w) option" where
  "Request_Stream env r w =
     (case rr_err r of
        Some err \<Rightarrow> Some (Inl err, w)
      | None \<Rightarrow>
          (case tryThrottle r w of
             None \<Rightarrow> None
           | Some (Some err, w1) \<Rightarrow> Some (Inl err, w1)
           | Some (None, w1) \<Rightarrow>
               (case he_NewRequest env (rr_verb r) (Request_URL r) of
                  Some err \<Rightarrow> Some (Inl (NewRequestError err), w1)
                | None \<Rightarrow>
                    (let ((out, pos), w2) = he_Do env (http_client r) (http_request r None) w1 in
                     case out of
                       Inl err \<Rightarrow> Some (Inl (TransportError err), w2)
                     | Inr resp \<Rightarrow>
                         if hr_StatusCode resp \<ge> 200 \<and> hr_StatusCode resp < 300 then Some (Inr resp, w2)
                         else
                           (let result = transformResponse r resp in
                            case Result_Error result of
                              None \<Rightarrow> Some (Inl (StatusWhileAccessing (res_statusCode result) (Request_URL r) (res_body result)), w2)
                            | Some err \<Rightarrow> Some (Inl err, w2))))))"

text \<open>A watch: the closed empty channel, or a stream over the body of the response.\<close>

datatype WatchInterface = EmptyWatch | StreamWatch HttpResponse

definition Request_Watch ::
  "'w HttpEnv \<Rightarrow> 'w RestRequest \<Rightarrow> 'w \<Rightarrow> (rest_error + WatchInterface) \<times> 'w" where
  "Request_Watch env r w =
     (case rr_err r of
        Some err \<Rightarrow> (Inl err, w)
      | None \<Rightarrow>
          (case he_NewRequest env (rr_verb r) (Request_URL r) of
             Some err \<Rightarrow> (Inl (NewRequestError err), w)
           | None \<Rightarrow>
               (let ((out, pos), w1) = he_Do env (http_client r) (http_request r (rr_body r)) w in
                case out of
                  Inl err \<Rightarrow>
                    if IsProbableEOF (Some err) \<or> IsTimeout err then (Inr EmptyWatch, w1)
                    else (Inl (TransportError err), w1)
                | Inr resp \<Rightarrow>
                    if hr_StatusCode resp \<noteq> 200
                    then (case res_err (transformResponse r resp) of
                            Some err \<Rightarrow> (Inl err, w1)
                          | None \<Rightarrow> (Inl (GotStatus (Request_URL r) (hr_StatusCode resp)), w1))
                    else (Inr (StreamWatch resp), w1))))"

section \<open>The path of a request\<close>

lemma str_contains_char: "str_contains s [c] \<longleftrightarrow> c \<in> set s"
  by (induction s) auto

lemma IsValidPathSegmentName_segment:
  "IsValidPathSegmentName s = [] \<Longrightarrow> s \<noteq> '''' \<Longrightarrow> segment s"
  by (auto simp: IsValidPathSegmentName_def NameMayNotBe_def NameMayNotContain_def segment_def plain_part_def
      str_contains_char split: if_splits)

lemma SetHeader_frame [simp]:
  "rr_c (SetHeader k vs r) = rr_c r" "rr_pathPrefix (SetHeader k vs r) = rr_pathPrefix r"
  "rr_resource (SetHeader k vs r) = rr_resource r" "rr_resourceName (SetHeader k vs r) = rr_resourceName r"
  "rr_err (SetHeader k vs r) = rr_err r" "rr_rateLimiter (SetHeader k vs r) = rr_rateLimiter r"
  "rr_params (SetHeader k vs r) = rr_params r" "rr_timeout (SetHeader k vs r) = rr_timeout r"
  "rr_verb (SetHeader k vs r) = rr_verb r" "rr_body (SetHeader k vs r) = rr_body r"
  "rr_ctx (SetHeader k vs r) = rr_ctx r"
  by (simp_all add: SetHeader_def Let_def)

definition base_segments :: "string \<Rightarrow> string list" where
  "base_segments p = clean_parts True (Split p ''/'')"

lemma base_segments_segment: "\<forall>s\<in>set (base_segments p). segment s"
  unfolding base_segments_def by (rule clean_parts_segments)

lemma base_segments_slash: "base_segments (p @ ''/'') = base_segments p"
  using Split_append [of p "CHR ''/''" "''''"]
  by (simp add: base_segments_def Split_none clean_parts_def clean_step_def)

lemma NewRequest_frame [simp]:
  "rr_c (NewRequest c) = c" "rr_err (NewRequest c) = None" "rr_resource (NewRequest c) = ''''"
  "rr_resourceName (NewRequest c) = ''''" "rr_rateLimiter (NewRequest c) = rest_rateLimiter c"
  "rr_params (NewRequest c) = None" "rr_body (NewRequest c) = None" "rr_ctx (NewRequest c) = None"
  by (simp_all add: NewRequest_def Let_def)

lemma NewRequest_prefix:
  "rr_pathPrefix (NewRequest (NewRESTClient url cfg lim hc)) = rooted_path (base_segments (url_Path url))"
proof -
  have "rr_pathPrefix (NewRequest (NewRESTClient url cfg lim hc)) =
      rooted_path (base_segments (if has_suffix (url_Path url) ''/'' then url_Path url else url_Path url @ ''/''))"
    by (simp add: NewRequest_def Let_def NewRESTClient_def path_Join_root base_segments_def)
  then show ?thesis by (simp add: base_segments_slash split: if_splits)
qed

lemma request_path_prefix:
  assumes "\<forall>s\<in>set ps. segment s" "rr_pathPrefix r = rooted_path ps"
    and "rr_resource r = '''' \<or> segment (rr_resource r)" "rr_resourceName r = '''' \<or> segment (rr_resourceName r)"
  shows "request_path r =
    rooted_path (ps @ filter (\<lambda>s. s \<noteq> '''') [to_lower (rr_resource r), rr_resourceName r])"
proof -
  define qs where "qs = ps @ filter (\<lambda>s. s \<noteq> '''') [to_lower (rr_resource r)]"
  have qs: "\<forall>s\<in>set qs. segment s"
    using assms(1,3) to_lower_segment [of "rr_resource r"] by (auto simp: qs_def to_lower_def)
  have "(if length (rr_resource r) \<noteq> 0 then path_Join [rr_pathPrefix r, to_lower (rr_resource r)] else rr_pathPrefix r)
      = rooted_path qs"
    using assms(2,3) path_Join_segment [OF assms(1) to_lower_segment [of "rr_resource r"]]
    by (auto simp: qs_def to_lower_def)
  then show ?thesis
    unfolding request_path_def Let_def using assms(4) path_Join_segment [OF qs, of "rr_resourceName r"]
    by (auto simp: qs_def)
qed

lemma Request_Resource_cases:
  assumes "rr_err (Request_Resource s r) = None" "rr_resource r = ''''"
  shows "Request_Resource s r = r\<lparr>rr_resource := s\<rparr>" "rr_err r = None" "IsValidPathSegmentName s = []"
  using assms by (auto simp: Request_Resource_def Let_def split: if_splits)

lemma Request_Name_cases:
  assumes "rr_err (Request_Name s r) = None" "rr_resourceName r = ''''"
  shows "Request_Name s r = r\<lparr>rr_resourceName := s\<rparr>" "rr_err r = None" "IsValidPathSegmentName s = []" "s \<noteq> ''''"
  using assms by (auto simp: Request_Name_def Let_def split: if_splits)

text \<open>The path of an accepted request is the base's segments, then the resource and the name.\<close>

lemma built_request_path:
  fixes url cfg lim hc verb rs nm
  defines "r \<equiv> Request_Name nm (Request_Resource rs (rest_Verb verb (NewRESTClient url cfg lim hc)))"
  assumes "rr_err r = None"
  shows "url_Path (Request_URL r) =
      rooted_path (base_segments (url_Path url) @ filter (\<lambda>s. s \<noteq> '''') [to_lower rs, nm]) \<and> segment nm"
proof -
  let ?r0 = "rest_Verb verb (NewRESTClient url cfg lim hc)"
  have r0: "rr_resource ?r0 = ''''" "rr_resourceName ?r0 = ''''"
      "rr_pathPrefix ?r0 = rooted_path (base_segments (url_Path url))"
    by (simp_all add: rest_Verb_def Request_Verb_def NewRequest_prefix)
  have "rr_resourceName (Request_Resource rs ?r0) = ''''"
    using r0 by (simp add: Request_Resource_def Let_def)
  note n = Request_Name_cases [OF assms(2) [unfolded r_def] this]
  note s = Request_Resource_cases [OF n(2) r0(1)]
  have r: "r = ?r0\<lparr>rr_resource := rs, rr_resourceName := nm\<rparr>" using n(1) s(1) by (simp add: r_def)
  have seg: "rs = '''' \<or> segment rs" "segment nm"
    using IsValidPathSegmentName_segment s(3) n(3,4) by auto
  have "request_path r = rooted_path (base_segments (url_Path url) @ filter (\<lambda>s. s \<noteq> '''') [to_lower rs, nm])"
    using request_path_prefix [OF base_segments_segment, of r "url_Path url"] seg r0(3) by (simp add: r)
  then show ?thesis using seg by (simp add: Request_URL_def)
qed

section \<open>The attempts of a request\<close>

text \<open>What an attempt leaves as it is.\<close>

lemma with_timeout_frame [simp]:
  "rr_c (with_timeout r) = rr_c r" "rr_verb (with_timeout r) = rr_verb r" "rr_headers (with_timeout r) = rr_headers r"
  "rr_body (with_timeout r) = rr_body r" "rr_rateLimiter (with_timeout r) = rr_rateLimiter r"
  "Request_URL (with_timeout r) = Request_URL r" "http_client (with_timeout r) = http_client r"
  by (simp_all add: with_timeout_def Request_URL_def request_path_def request_query_def Let_def http_client_def)

lemma advance_body_frame [simp]:
  "rr_c (advance_body p r) = rr_c r" "rr_verb (advance_body p r) = rr_verb r" "rr_headers (advance_body p r) = rr_headers r"
  "rr_rateLimiter (advance_body p r) = rr_rateLimiter r" "Request_URL (advance_body p r) = Request_URL r"
  by (simp_all add: advance_body_def Request_URL_def request_path_def request_query_def Let_def)

lemma set_body_URL [simp]: "Request_URL (r\<lparr>rr_body := b\<rparr>) = Request_URL r"
  by (simp add: Request_URL_def request_path_def request_query_def Let_def)

text \<open>A body that starts at its beginning and can be rewound, or none.\<close>

definition whole_body :: "'w RestRequest \<Rightarrow> string option" where
  "whole_body r = map_option rb_data (rr_body r)"

definition rewindable :: "'w RestRequest \<Rightarrow> bool" where
  "rewindable r \<longleftrightarrow> (\<forall>b. rr_body r = Some b \<longrightarrow> rb_seek b = SeekOk)"

definition at_start :: "'w RestRequest \<Rightarrow> bool" where
  "at_start r \<longleftrightarrow> (\<forall>b. rr_body r = Some b \<longrightarrow> rb_pos b = 0)"

definition same_request :: "'w RestRequest \<Rightarrow> HttpRequest \<Rightarrow> bool" where
  "same_request r q \<longleftrightarrow> hq_Method q = rr_verb r \<and> hq_URL q = Request_URL r \<and> hq_Header q = rr_headers r \<and>
     hq_Body q = whole_body r"

definition logs_requests :: "'w HttpEnv \<Rightarrow> ('w \<Rightarrow> HttpRequest list) \<Rightarrow> bool" where
  "logs_requests env sent \<longleftrightarrow> (\<forall>c q w. sent (snd (he_Do env c q w)) = sent w @ [q])"

lemma do_attempt_spec:
  assumes "logs_requests env sent" "rr_rateLimiter r = None" "he_NewRequest env (rr_verb r) (Request_URL r) = None"
    and "at_start r"
  obtains out pos q w' where
    "do_attempt env retries r w = Some (response_or_error (rr_verb r) out, advance_body pos (with_timeout r), w')"
    "sent w' = sent w @ [q]" "same_request r q" "((out, pos), w') = he_Do env (http_client r) q w"
proof -
  let ?q = "http_request (with_timeout r) (rr_body r)"
  obtain out pos w' where d: "he_Do env (http_client r) ?q w = ((out, pos), w')"
    by (metis surj_pair)
  then have l: "sent w' = sent w @ [?q]"
    using assms(1) unfolding logs_requests_def by (metis snd_conv)
  have "same_request r ?q"
    using assms(4) by (auto simp: same_request_def http_request_def whole_body_def at_start_def option.map_comp
        split: option.splits intro!: option.map_cong)
  moreover have "do_attempt env retries r w =
      Some (response_or_error (rr_verb r) out, advance_body pos (with_timeout r), w')"
    using assms(2,3) d by (simp add: do_attempt_def Let_def tryThrottle_def)
  ultimately show thesis using that l d by simp
qed

text \<open>
  The run of the loop against a world that logs the requests it gets: every attempt sends the same
  request with the whole body, and a response that still asks for a retry is only given out when
  the attempts are used up.
\<close>

lemma same_request_next:
  assumes "rewind (rr_body (advance_body pos (with_timeout r))) = Some b" "rewindable r" "at_start r"
  defines "r2 \<equiv> (advance_body pos (with_timeout r))\<lparr>rr_body := b\<rparr>"
  shows "rewindable r2" "at_start r2" "same_request r2 = same_request r" "rr_rateLimiter r2 = rr_rateLimiter r"
    "rr_verb r2 = rr_verb r" "Request_URL r2 = Request_URL r"
proof -
  have b: "(case rr_body r of None \<Rightarrow> b = None | Some rd \<Rightarrow> b = Some (rd\<lparr>rb_pos := 0\<rparr>))"
    using assms(1,2) by (auto simp: rewind_def advance_body_def rewindable_def split: option.splits)
  show "rewindable r2" "at_start r2"
    using b assms(2) by (auto simp: r2_def rewindable_def at_start_def split: option.splits)
  show "rr_rateLimiter r2 = rr_rateLimiter r" "rr_verb r2 = rr_verb r" "Request_URL r2 = Request_URL r"
    by (simp_all add: r2_def)
  have "whole_body r2 = whole_body r"
    using b by (auto simp: r2_def whole_body_def split: option.splits)
  then show "same_request r2 = same_request r"
    by (simp add: same_request_def fun_eq_iff r2_def)
qed

lemma rewind_rewindable: "rewindable r \<Longrightarrow> rewind (rr_body (advance_body pos (with_timeout r))) \<noteq> None"
  by (auto simp: rewind_def advance_body_def rewindable_def split: option.splits)

definition loop_run :: "'w HttpEnv \<Rightarrow> ('w \<Rightarrow> HttpRequest list) \<Rightarrow> nat \<Rightarrow> 'w RestRequest \<Rightarrow> 'w \<Rightarrow> bool" where
  "loop_run env sent k r w \<longleftrightarrow> (\<exists>res r' w' qs. doRequest_loop env k r w = Some (res, r', w') \<and> sent w' = sent w @ qs \<and> qs \<noteq> [] \<and>
       k + length qs \<le> maxRetries \<and> (\<forall>q\<in>set qs. same_request r q) \<and>
       (case res of Inl err \<Rightarrow> \<exists>e. err = TransportError e \<and> (rr_verb r = ''GET'' \<longrightarrow> \<not> IsConnectionReset e)
        | Inr resp \<Rightarrow> snd (checkWait resp) \<longrightarrow> k + length qs = maxRetries))"

lemma doRequest_loop_run:
  assumes "logs_requests env sent" "rr_rateLimiter r = None" "he_NewRequest env (rr_verb r) (Request_URL r) = None"
    and "at_start r" "rewindable r" "k < maxRetries"
  shows "loop_run env sent k r w"
  using assms
proof (induction env k r w rule: doRequest_loop.induct)
  case (1 env k r w)
  obtain out pos q w1 where a:
    "do_attempt env k r w = Some (response_or_error (rr_verb r) out, advance_body pos (with_timeout r), w1)"
    "sent w1 = sent w @ [q]" "same_request r q"
    using do_attempt_spec [OF "1.prems"(1-4)] by metis
  let ?r1 = "advance_body pos (with_timeout r)"
  show ?case
  proof (cases "response_or_error (rr_verb r) out")
    case (Inl err)
    then have "doRequest_loop env k r w = Some (Inl err, ?r1, w1)"
      by (subst doRequest_loop.simps) (simp add: a)
    moreover have "\<exists>e. err = TransportError e \<and> (rr_verb r = ''GET'' \<longrightarrow> \<not> IsConnectionReset e)"
      using Inl by (auto simp: response_or_error_def split: sum.splits if_splits)
    ultimately show ?thesis
      unfolding loop_run_def
      using a(2,3) "1.prems"(6) by (intro exI [of _ "Inl err"] exI [of _ ?r1] exI [of _ w1] exI [of _ "[q]"]) simp
  next
    case (Inr resp)
    show ?thesis
    proof (cases "snd (checkWait resp) \<and> Suc k < maxRetries")
      case True
      obtain b where b: "rewind (rr_body ?r1) = Some b" using rewind_rewindable [OF "1.prems"(5)] by fast
      let ?r2 = "?r1\<lparr>rr_body := b\<rparr>"
      note nx = same_request_next [OF b "1.prems"(5,4)]
      have e: "doRequest_loop env k r w = doRequest_loop env (Suc k) ?r2 w1"
        using True b by (subst doRequest_loop.simps) (simp add: a Inr)
      have "loop_run env sent (Suc k) ?r2 w1"
        by (rule "1.IH" [OF a(1) [unfolded Inr] refl refl refl True b])
          (use "1.prems" True nx in simp_all)
      then obtain res r' w' qs where ih: "doRequest_loop env (Suc k) ?r2 w1 = Some (res, r', w')" "sent w' = sent w1 @ qs"
        "Suc k + length qs \<le> maxRetries" "\<forall>q\<in>set qs. same_request r q"
        "case res of Inl err \<Rightarrow> \<exists>e. err = TransportError e \<and> (rr_verb r = ''GET'' \<longrightarrow> \<not> IsConnectionReset e)
         | Inr resp \<Rightarrow> snd (checkWait resp) \<longrightarrow> Suc k + length qs = maxRetries"
        unfolding loop_run_def nx by blast
      have "sent w' = sent w @ (q # qs)" "\<forall>q'\<in>set (q # qs). same_request r q'"
        using a(2,3) ih(2,4) by simp_all
      then show ?thesis
        unfolding loop_run_def e using ih(1,3,5)
        by (intro exI [of _ res] exI [of _ r'] exI [of _ w'] exI [of _ "q # qs"]) (simp split: sum.splits)
    next
      case False
      then have "doRequest_loop env k r w = Some (Inr resp, ?r1, w1)"
        by (subst doRequest_loop.simps) (auto simp: a Inr)
      then show ?thesis
        unfolding loop_run_def using a(2,3) "1.prems"(6) False
        by (intro exI [of _ "Inr resp"] exI [of _ ?r1] exI [of _ w1] exI [of _ "[q]"]) auto
    qed
  qed
qed

end
