(* ===== verification/GRS_RmsClient.thy ===== *)
theory GRS_RmsClient
  imports GRS_Rest GRS_Codec
begin

text \<open>
  The SDK's client of the service (rmsclient/rmsClient.go) over the REST client, and its watch
  streams (rest/watch/decoder.go, watch/watch.go, watch/streamwatcher.go). The JSON is that of
  \<open>GRS_Codec\<close>, \<open>url.Parse\<close> is the argument \<open>parse\<close>.
\<close>

section \<open>The server's URL\<close>

datatype url_error = NoHost | ParseError string | HostHasPath string

definition DefaultServerURL :: "(string \<Rightarrow> string + URL) \<Rightarrow> string \<Rightarrow> string \<Rightarrow> bool \<Rightarrow> url_error + URL" where
  "DefaultServerURL parse host apiPath defaultTLS =
     (if host = '''' then Inl NoHost
      else
        let retry =
          (case parse ((if defaultTLS then ''https://'' else ''http://'') @ host) of
             Inl err \<Rightarrow> Inl (ParseError err)
           | Inr u \<Rightarrow> if url_Path u \<noteq> '''' \<and> url_Path u \<noteq> ''/'' then Inl (HostHasPath host) else Inr u)
        in case parse host of
             Inl err \<Rightarrow> retry
           | Inr u \<Rightarrow> if url_Scheme u = '''' \<or> url_Host u = '''' then retry else Inr u)"

section \<open>The client\<close>

record Config =
  ServiceUrl :: string
  RequestTimeout :: int
  ClientFriendlyName :: string
  ClientRegion :: string
  InitialRequestTotalMachines :: int
  InitialRequestRegions :: "string list"

record ListOptions =
  Limit :: int

record 'w rmsClient =
  rms_config :: Config
  rms_restClient :: "'w RESTClient"
  rms_Id :: string

datatype client_error = RestErr rest_error | JsonErr

text \<open>\<open>None\<close> is the nil client of a service URL that is refused.\<close>

definition NewRmsClient :: "(string \<Rightarrow> string + URL) \<Rightarrow> Config \<Rightarrow> 'w rmsClient option" where
  "NewRmsClient parse cfg =
     (case DefaultServerURL parse (ServiceUrl cfg) '''' False of
        Inl err \<Rightarrow> None
      | Inr url \<Rightarrow>
          Some \<lparr>rms_config = cfg,
                rms_restClient = NewRESTClient url \<lparr>AcceptContentTypes = '''', ContentType = ''''\<rparr> None
                  (Some \<lparr>hc_Timeout = RequestTimeout cfg\<rparr>),
                rms_Id = ''''\<rparr>)"

definition registration_request :: "Config \<Rightarrow> ClientRegistrationRequest" where
  "registration_request cfg =
     \<lparr>crr_ClientInfo = \<lparr>ClientName = ClientFriendlyName cfg, ci_Region = ClientRegion cfg\<rparr>,
      InitialRequestedResource = \<lparr>TotalMachines = InitialRequestTotalMachines cfg, RequestInRegions = []\<rparr>\<rparr>"

definition rms_Register ::
  "'w HttpEnv \<Rightarrow> 'w rmsClient \<Rightarrow> 'w \<Rightarrow> ((client_error + ClientRegistrationResponse) \<times> 'w) option" where
  "rms_Register env c w =
     (let req = rest_Post (rms_restClient c) in
      case Marshal enc_RegistrationRequest (registration_request (rms_config c)) of
        None \<Rightarrow> Some (Inl JsonErr, w)
      | Some body \<Rightarrow>
          (let req1 = Request_Body env (BytesArg body) w req;
               req2 = Request_Resource ''clients'' req1;
               req3 = Request_Timeout (RequestTimeout (rms_config c)) req2
           in case DoRaw env req3 w of
                None \<Rightarrow> None
              | Some ((resp, Some err), r, w') \<Rightarrow> Some (Inl (RestErr err), w')
              | Some ((resp, None), r, w') \<Rightarrow>
                  (let (ret, failed) = Unmarshal dec_RegistrationResponse resp zero_RegistrationResponse
                   in if failed then Some (Inl JsonErr, w') else Some (Inr ret, w'))))"

definition list_request :: "'w rmsClient \<Rightarrow> ListOptions \<Rightarrow> 'w RestRequest" where
  "list_request c opts =
     (let req = rest_Get (rms_restClient c);
          req1 = Request_Resource ''resource'' req;
          req2 = Request_Name (rms_Id c) req1;
          req3 = Request_Timeout (RequestTimeout (rms_config c)) req2
      in Request_Param ''limit'' (Itoa (Limit opts)) req3)"

definition rms_List ::
  "'w HttpEnv \<Rightarrow> TextCodec \<Rightarrow> 'w rmsClient \<Rightarrow> string \<Rightarrow> ListOptions \<Rightarrow> 'w \<Rightarrow>
     ((client_error + LogicalNode list \<times> TransitResourceVersionMap) \<times> 'w) option" where
  "rms_List env tc c clientId opts w =
     (case DoRaw env (list_request c opts) w of
        None \<Rightarrow> None
      | Some ((respRet, Some err), r, w') \<Rightarrow> Some (Inl (RestErr err), w')
      | Some ((respRet, None), r, w') \<Rightarrow>
          (let (resp, failed) = Unmarshal (dec_ListNodeResponse tc) respRet zero_ListNodeResponse
           in Some (Inr (NodeList resp, lr_ResourceVersions resp), w')))"

definition rms_Watch ::
  "'w HttpEnv \<Rightarrow> 'w rmsClient \<Rightarrow> string \<Rightarrow> TransitResourceVersionMap option \<Rightarrow> 'w \<Rightarrow>
     (client_error + WatchInterface) \<times> 'w" where
  "rms_Watch env c clientId versionMap w =
     (let req = rest_Post (rms_restClient c);
          req1 = Request_Resource ''resource'' req;
          req2 = Request_Name (rms_Id c) req1;
          req3 = Request_Timeout (RequestTimeout (rms_config c)) req2;
          req4 = Request_Param ''watch'' ''true'' req3
      in case Marshal enc_WatchRequest \<lparr>wr_ResourceVersions = versionMap\<rparr> of
           None \<Rightarrow> (Inl JsonErr, w)
         | Some body \<Rightarrow>
             (case Request_Watch env (Request_Body env (BytesArg body) w req4) w of
                (Inl err, w') \<Rightarrow> (Inl (RestErr err), w')
              | (Inr watcher, w') \<Rightarrow> (Inr watcher, w')))"

section \<open>Watch streams\<close>

text \<open>What decoding the next value of a stream gives, and what the decoder makes of it.\<close>

datatype decode_error = StreamError net_error | InvalidEventType string

definition Decode :: "net_error + EventType \<times> LogicalNode option \<Rightarrow> decode_error + EventType \<times> LogicalNode option" where
  "Decode got =
     (case got of
        Inl err \<Rightarrow> Inl (StreamError err)
      | Inr (t, node) \<Rightarrow>
          if t \<in> {Added, Modified, Deleted, EventError, Bookmark} then Inr (t, node) else Inl (InvalidEventType t))"

text \<open>The error object of a stream is the empty node, whatever the error.\<close>

definition AsObject :: "decode_error \<Rightarrow> LogicalNode" where
  "AsObject err = zero_node"

text \<open>Errors that end the stream without an event.\<close>

definition expected_end :: "decode_error \<Rightarrow> bool" where
  "expected_end err =
     (case err of
        StreamError IoEOF \<Rightarrow> True
      | StreamError IoUnexpectedEOF \<Rightarrow> True
      | StreamError e \<Rightarrow> IsProbableEOF (Some e) \<or> IsTimeout e
      | InvalidEventType t \<Rightarrow> IsProbableEOF (Some (PlainErr (''got invalid watch event type: '' @ t))))"

text \<open>
  The goroutine \<open>receive\<close> and its consumer. \<open>sw_source\<close> is what the connection still delivers;
  \<open>Sending e final\<close>: blocked in the send of \<open>e\<close> on the unbuffered channel, \<open>final\<close> if it returns after
  it. \<open>Stop\<close> closes the decoder, whose \<open>Close\<close> does nothing.
\<close>

datatype sw_phase = Decoding | Sending "EventType \<times> LogicalNode option" bool | Closed

record StreamWatcher =
  sw_source :: "(net_error + EventType \<times> LogicalNode option) list"
  sw_stopped :: bool
  sw_phase_of :: sw_phase
  sw_received :: "(EventType \<times> LogicalNode option) list"

definition NewStreamWatcher :: "(net_error + EventType \<times> LogicalNode option) list \<Rightarrow> StreamWatcher" where
  "NewStreamWatcher src = \<lparr>sw_source = src, sw_stopped = False, sw_phase_of = Decoding, sw_received = []\<rparr>"

definition sw_Stop :: "StreamWatcher \<Rightarrow> StreamWatcher" where
  "sw_Stop sw = (if sw_stopped sw then sw else sw\<lparr>sw_stopped := True\<rparr>)"

definition after_decode :: "StreamWatcher \<Rightarrow> decode_error + EventType \<times> LogicalNode option \<Rightarrow> StreamWatcher" where
  "after_decode sw r =
     (case r of
        Inr e \<Rightarrow> sw\<lparr>sw_phase_of := Sending e False\<rparr>
      | Inl err \<Rightarrow>
          if sw_stopped sw then sw\<lparr>sw_phase_of := Closed\<rparr>
          else if expected_end err then (sw_Stop sw)\<lparr>sw_phase_of := Closed\<rparr>
          else sw\<lparr>sw_phase_of := Sending (EventError, Some (AsObject err)) True\<rparr>)"

inductive sw_step :: "StreamWatcher \<Rightarrow> StreamWatcher \<Rightarrow> bool" where
  decode:
    "sw_phase_of sw = Decoding \<Longrightarrow> sw_source sw = got # rest \<Longrightarrow>
     sw_step sw (after_decode (sw\<lparr>sw_source := rest\<rparr>) (Decode got))"
| consume:
    "sw_phase_of sw = Sending e final \<Longrightarrow>
     sw_step sw ((if final then sw_Stop sw else sw)\<lparr>sw_phase_of := (if final then Closed else Decoding),
       sw_received := sw_received sw @ [e]\<rparr>)"
| stop: "sw_step sw (sw_Stop sw)"

inductive_cases sw_stepE: "sw_step sw sw'"

abbreviation sw_reach :: "StreamWatcher \<Rightarrow> StreamWatcher \<Rightarrow> bool" where
  "sw_reach \<equiv> sw_step\<^sup>*\<^sup>*"

text \<open>
  What the consumer has received and is being sent is, in order, what was decoded, at most followed
  by one error event; the channel closes only at a decoding error.
\<close>

definition decoded :: "(net_error + EventType \<times> LogicalNode option) list \<Rightarrow> (EventType \<times> LogicalNode option) list" where
  "decoded src = [e. Inr e \<leftarrow> map Decode src]"

definition stream_ok ::
  "(net_error + EventType \<times> LogicalNode option) list \<Rightarrow> StreamWatcher \<Rightarrow> bool" where
  "stream_ok used sw \<longleftrightarrow>
     (case sw_phase_of sw of
        Decoding \<Rightarrow> sw_received sw = decoded used \<and> (\<forall>g\<in>set used. \<exists>e. Decode g = Inr e)
      | Sending e final \<Rightarrow>
          (if final
           then sw_received sw = decoded used \<and> e = (EventError, Some zero_node) \<and>
             (used \<noteq> [] \<and> (\<exists>err. Decode (last used) = Inl err))
           else sw_received sw @ [e] = decoded used \<and> (\<forall>g\<in>set used. \<exists>e. Decode g = Inr e))
      | Closed \<Rightarrow> sw_received sw \<in> {decoded used, decoded used @ [(EventError, Some zero_node)]} \<and>
          sw_stopped sw \<and> (used \<noteq> [] \<and> (\<exists>err. Decode (last used) = Inl err)))"

definition stream_inv ::
  "(net_error + EventType \<times> LogicalNode option) list \<Rightarrow> StreamWatcher \<Rightarrow> bool" where
  "stream_inv src sw \<longleftrightarrow> (\<exists>used. src = used @ sw_source sw \<and> stream_ok used sw)"

lemma stream_inv_start: "stream_inv src (NewStreamWatcher src)"
  by (simp add: stream_inv_def stream_ok_def NewStreamWatcher_def decoded_def)

lemma decoded_snoc [simp]:
  "decoded (used @ [g]) = decoded used @ (case Decode g of Inr e \<Rightarrow> [e] | Inl err \<Rightarrow> [])"
  by (simp add: decoded_def split: sum.splits)

lemma sw_Stop_frame [simp]:
  "sw_source (sw_Stop sw) = sw_source sw" "sw_phase_of (sw_Stop sw) = sw_phase_of sw"
  "sw_received (sw_Stop sw) = sw_received sw" "sw_stopped (sw_Stop sw)"
  by (simp_all add: sw_Stop_def)

lemma stream_inv_decode:
  assumes "stream_inv src sw" "sw_phase_of sw = Decoding" "sw_source sw = got # rest"
  shows "stream_inv src (after_decode (sw\<lparr>sw_source := rest\<rparr>) (Decode got))"
proof -
  obtain used where u: "src = (used @ [got]) @ rest" "sw_received sw = decoded used"
      "\<forall>g\<in>set used. \<exists>e. Decode g = Inr e"
    using assms by (auto simp: stream_inv_def stream_ok_def)
  then show ?thesis
    unfolding stream_inv_def
    by (intro exI [of _ "used @ [got]"]) (auto simp: after_decode_def AsObject_def stream_ok_def split: sum.splits)
qed

lemma stream_inv_consume:
  assumes "stream_inv src sw" "sw_phase_of sw = Sending e final"
  shows "stream_inv src ((if final then sw_Stop sw else sw)\<lparr>sw_phase_of := (if final then Closed else Decoding),
    sw_received := sw_received sw @ [e]\<rparr>)"
  using assms by (cases final) (auto simp: stream_inv_def stream_ok_def)

lemma stream_ok_stop: "stream_ok used sw \<Longrightarrow> stream_ok used (sw_Stop sw)"
  unfolding stream_ok_def by (cases "sw_phase_of sw") (auto split: if_splits)

lemma stream_inv_stop: "stream_inv src sw \<Longrightarrow> stream_inv src (sw_Stop sw)"
  unfolding stream_inv_def using stream_ok_stop by fastforce

lemma stream_inv_step: "sw_step sw sw' \<Longrightarrow> stream_inv src sw \<Longrightarrow> stream_inv src sw'"
  by (induction rule: sw_step.induct) (rule stream_inv_decode stream_inv_consume stream_inv_stop; assumption)+

lemma stream_inv_reach: "sw_reach (NewStreamWatcher src) sw \<Longrightarrow> stream_inv src sw"
  by (induction rule: rtranclp_induct) (auto intro: stream_inv_start stream_inv_step)

text \<open>
  \<open>Stop\<close> does not end the goroutine: without a further value or error on the connection the watcher
  stays in \<open>Decode\<close> and the channel is not closed, whatever the consumer does.
\<close>

lemma stop_waits_for_source:
  "sw_reach sw sw' \<Longrightarrow> sw_source sw = [] \<Longrightarrow> sw_phase_of sw = Decoding \<Longrightarrow>
    sw_source sw' = [] \<and> sw_phase_of sw' = Decoding"
  by (induction rule: rtranclp_induct) (auto elim!: sw_stepE)

section \<open>What List asks for\<close>

lemma DoRaw_run:
  assumes "rr_rateLimiter r = None" "loop_run env sent 0 r w"
  shows "\<exists>body err r' w' qs. DoRaw env r w = Some ((body, err), r', w') \<and> sent w' = sent w @ qs \<and> qs \<noteq> [] \<and>
    length qs \<le> maxRetries \<and> (\<forall>q\<in>set qs. same_request r q) \<and>
    (\<forall>e. err = Some e \<longrightarrow> (\<exists>n. e = TransportError n \<or> e = ResponseReadError n))"
proof -
  obtain res r' w' qs where l: "doRequest env r w = Some (res, r', w')" "sent w' = sent w @ qs" "qs \<noteq> []"
      "length qs \<le> maxRetries" "\<forall>q\<in>set qs. same_request r q"
      "case res of Inl err \<Rightarrow> \<exists>e. err = TransportError e \<and> (rr_verb r = ''GET'' \<longrightarrow> \<not> IsConnectionReset e)
       | Inr resp \<Rightarrow> snd (checkWait resp) \<longrightarrow> 0 + length qs = maxRetries"
    using assms(2) unfolding loop_run_def doRequest_def by auto
  have "\<exists>body err. DoRaw env r w = Some ((body, err), r', w') \<and>
      (\<forall>e. err = Some e \<longrightarrow> (\<exists>n. e = TransportError n \<or> e = ResponseReadError n))"
    using l(1,6) assms(1) by (cases res) (auto simp: DoRaw_def tryThrottle_def)
  then show ?thesis using l by blast
qed

lemma setters_frame [simp]:
  "rr_rateLimiter (Request_Param k v r) = rr_rateLimiter r" "rr_rateLimiter (Request_Timeout d r) = rr_rateLimiter r"
  "rr_rateLimiter (Request_Name s r) = rr_rateLimiter r" "rr_rateLimiter (Request_Resource s r) = rr_rateLimiter r"
  "rr_body (Request_Param k v r) = rr_body r" "rr_body (Request_Timeout d r) = rr_body r"
  "rr_body (Request_Name s r) = rr_body r" "rr_body (Request_Resource s r) = rr_body r"
  "rr_verb (Request_Param k v r) = rr_verb r" "rr_verb (Request_Timeout d r) = rr_verb r"
  "rr_verb (Request_Name s r) = rr_verb r" "rr_verb (Request_Resource s r) = rr_verb r"
  by (simp_all add: Request_Param_def setParam_def Request_Timeout_def Request_Name_def Request_Resource_def Let_def)

text \<open>The id is usable as a path segment.\<close>

definition usable_id :: "string \<Rightarrow> bool" where
  "usable_id s \<longleftrightarrow> s \<noteq> '''' \<and> IsValidPathSegmentName s = []"

lemma resource_segment: "IsValidPathSegmentName ''resource'' = []" "segment ''resource''" "to_lower ''resource'' = ''resource''"
  by (simp_all add: IsValidPathSegmentName_def NameMayNotBe_def NameMayNotContain_def str_contains_char
      segment_def plain_part_def to_lower_def lower_char_def byte_of_def)

text \<open>A request for the resource of the client's own id with one parameter: List and Watch send such a one.\<close>

definition named_request :: "'w rmsClient \<Rightarrow> string \<Rightarrow> string \<Rightarrow> string \<Rightarrow> 'w RestRequest" where
  "named_request c verb k v =
     Request_Param k v
       (Request_Timeout (RequestTimeout (rms_config c))
         (Request_Name (rms_Id c) (Request_Resource ''resource'' (rest_Verb verb (rms_restClient c)))))"

definition named_query :: "string \<Rightarrow> string \<Rightarrow> string \<Rightarrow> int \<Rightarrow> url_values" where
  "named_query ident k v timeout =
     (let q = (if usable_id ident then values_Add k v gm_empty else gm_empty)
      in if timeout \<noteq> 0 then values_Set ''timeout'' (Duration_String timeout) q else q)"

lemma named_request_url:
  fixes ident k v verb
  assumes "DefaultServerURL parse (ServiceUrl cfg) '''' False = Inr url" "NewRmsClient parse cfg = Some c0"
  defines "r \<equiv> named_request (c0\<lparr>rms_Id := ident\<rparr>) verb k v"
  shows "url_Path (Request_URL r) =
      rooted_path (base_segments (url_Path url) @ ''resource'' # (if usable_id ident then [ident] else []))"
    and "request_query r = named_query ident k v (RequestTimeout cfg)"
    and "rr_verb r = verb" "rr_rateLimiter r = None" "rr_body r = None"
    and "rr_err r = None \<longleftrightarrow> usable_id ident"
proof -
  define cl where "cl = rms_restClient c0"
  let ?g = "rest_Verb verb cl"
  let ?r0 = "?g\<lparr>rr_resource := ''resource''\<rparr>"
  let ?ps = "Some (values_Add k v gm_empty)"
  have cl: "cl = NewRESTClient url \<lparr>AcceptContentTypes = '''', ContentType = ''''\<rparr> None
      (Some \<lparr>hc_Timeout = RequestTimeout cfg\<rparr>)" "rms_config c0 = cfg"
    using assms(1,2) by (auto simp: NewRmsClient_def cl_def)
  have g: "rr_err ?g = None" "rr_resource ?g = ''''" "rr_resourceName ?g = ''''" "rr_params ?g = None" "rr_verb ?g = verb"
      "rr_rateLimiter ?g = None" "rr_body ?g = None" "rr_pathPrefix ?g = rooted_path (base_segments (url_Path url))"
    by (simp_all add: rest_Verb_def Request_Verb_def cl NewRequest_prefix) (simp add: NewRESTClient_def)
  have t: "rr_timeout ?g = RequestTimeout cfg"
    by (simp add: rest_Verb_def Request_Verb_def cl NewRESTClient_def NewRequest_def Let_def)
  have r1: "Request_Resource ''resource'' ?g = ?r0"
    using g resource_segment(1) by (simp add: Request_Resource_def Let_def)
  have r: "r = (if usable_id ident
      then ?r0\<lparr>rr_resourceName := ident, rr_timeout := RequestTimeout cfg, rr_params := ?ps\<rparr>
      else ?r0\<lparr>rr_err := rr_err r\<rparr>)" "rr_err r = None \<longleftrightarrow> usable_id ident"
  proof -
    have e: "r = Request_Param k v (Request_Timeout (RequestTimeout cfg) (Request_Name ident ?r0))"
      using r1 cl(2) by (simp add: r_def named_request_def cl_def)
    have n: "Request_Name ident ?r0 = (if usable_id ident then ?r0\<lparr>rr_resourceName := ident\<rparr>
        else ?r0\<lparr>rr_err := Some (if ident = '''' then EmptyResourceName
          else InvalidName ident (IsValidPathSegmentName ident))\<rparr>)"
      using g by (simp add: Request_Name_def usable_id_def Let_def)
    show "r = (if usable_id ident
      then ?r0\<lparr>rr_resourceName := ident, rr_timeout := RequestTimeout cfg, rr_params := ?ps\<rparr>
      else ?r0\<lparr>rr_err := rr_err r\<rparr>)" "rr_err r = None \<longleftrightarrow> usable_id ident"
      unfolding e n using g by (simp_all add: Request_Timeout_def Request_Param_def setParam_def)
  qed
  show "rr_err r = None \<longleftrightarrow> usable_id ident" by (fact r(2))
  show "rr_verb r = verb" "rr_rateLimiter r = None" "rr_body r = None"
    using g by (subst r(1), simp)+
  have p: "rr_pathPrefix r = rooted_path (base_segments (url_Path url))" "rr_resource r = ''resource''"
      "rr_resourceName r = (if usable_id ident then ident else '''')"
    using g by (subst r(1), simp)+
  have "request_path r = rooted_path (base_segments (url_Path url) @
      filter (\<lambda>s. s \<noteq> '''') [to_lower (rr_resource r), rr_resourceName r])"
    by (rule request_path_prefix [OF base_segments_segment])
      (use p resource_segment IsValidPathSegmentName_segment in \<open>auto simp: usable_id_def\<close>)
  then show "url_Path (Request_URL r) =
      rooted_path (base_segments (url_Path url) @ ''resource'' # (if usable_id ident then [ident] else []))"
    using p resource_segment(3) by (simp add: Request_URL_def usable_id_def)
  have "rr_timeout r = RequestTimeout cfg" "rr_params r = (if usable_id ident then ?ps else None)"
    using g t by (subst r(1), simp)+
  then show "request_query r = named_query ident k v (RequestTimeout cfg)"
    by (auto simp: request_query_def named_query_def Let_def values_Add_def gm_empty_def)
qed

definition list_query :: "string \<Rightarrow> int \<Rightarrow> ListOptions \<Rightarrow> url_values" where
  "list_query ident timeout opts = named_query ident ''limit'' (Itoa (Limit opts)) timeout"

lemma list_request_url:
  fixes ident opts
  assumes "DefaultServerURL parse (ServiceUrl cfg) '''' False = Inr url" "NewRmsClient parse cfg = Some c0"
  defines "r \<equiv> list_request (c0\<lparr>rms_Id := ident\<rparr>) opts"
  shows "url_Path (Request_URL r) =
      rooted_path (base_segments (url_Path url) @ ''resource'' # (if usable_id ident then [ident] else []))"
    and "request_query r = list_query ident (RequestTimeout cfg) opts"
    and "rr_verb r = ''GET''" "rr_rateLimiter r = None" "rr_body r = None"
    and "rr_err r = None \<longleftrightarrow> usable_id ident"
proof -
  have "r = named_request (c0\<lparr>rms_Id := ident\<rparr>) ''GET'' ''limit'' (Itoa (Limit opts))"
    by (simp add: r_def list_request_def named_request_def rest_Get_def Let_def)
  then show "url_Path (Request_URL r) =
      rooted_path (base_segments (url_Path url) @ ''resource'' # (if usable_id ident then [ident] else []))"
    "request_query r = list_query ident (RequestTimeout cfg) opts" "rr_verb r = ''GET''" "rr_rateLimiter r = None"
    "rr_body r = None" "rr_err r = None \<longleftrightarrow> usable_id ident"
    using named_request_url [OF assms(1,2), of ident "''GET''" "''limit''" "Itoa (Limit opts)"] by (simp_all add: list_query_def)
qed

lemma rms_List_run:
  fixes ident opts
  assumes "DefaultServerURL parse (ServiceUrl cfg) '''' False = Inr url" "NewRmsClient parse cfg = Some c0"
    and "logs_requests env sent" "\<forall>verb u. he_NewRequest env verb u = None"
  shows "\<exists>res w' qs. rms_List env tc (c0\<lparr>rms_Id := ident\<rparr>) clientId opts w = Some (res, w') \<and>
    sent w' = sent w @ qs \<and> qs \<noteq> [] \<and> length qs \<le> maxRetries \<and>
    (\<forall>q\<in>set qs. hq_Method q = ''GET'' \<and>
      url_Path (hq_URL q) = rooted_path (base_segments (url_Path url) @ ''resource'' # (if usable_id ident then [ident] else [])) \<and>
      url_RawQuery (hq_URL q) = values_Encode (list_query ident (RequestTimeout cfg) opts)) \<and>
    (\<forall>e. res = Inl (RestErr e) \<longrightarrow> (\<exists>n. e = TransportError n \<or> e = ResponseReadError n))"
proof -
  let ?r = "list_request (c0\<lparr>rms_Id := ident\<rparr>) opts"
  note u = list_request_url [OF assms(1,2), of ident opts]
  have "loop_run env sent 0 ?r w"
    by (rule doRequest_loop_run [OF assms(3) u(4)])
      (use assms(4) u(5) in \<open>simp_all add: at_start_def rewindable_def maxRetries_def\<close>)
  then obtain body err r' w' qs where d: "DoRaw env ?r w = Some ((body, err), r', w')" "sent w' = sent w @ qs"
      "qs \<noteq> []" "length qs \<le> maxRetries" "\<forall>q\<in>set qs. same_request ?r q"
      "\<forall>e. err = Some e \<longrightarrow> (\<exists>n. e = TransportError n \<or> e = ResponseReadError n)"
    using DoRaw_run [OF u(4)] by blast
  have q: "hq_Method q = ''GET''" "url_Path (hq_URL q) =
      rooted_path (base_segments (url_Path url) @ ''resource'' # (if usable_id ident then [ident] else []))"
      "url_RawQuery (hq_URL q) = values_Encode (list_query ident (RequestTimeout cfg) opts)" if "q \<in> set qs" for q
    using d(5) that u(1-3) by (auto simp: same_request_def Request_URL_def)
  have "\<exists>res. rms_List env tc (c0\<lparr>rms_Id := ident\<rparr>) clientId opts w = Some (res, w') \<and>
      (\<forall>e. res = Inl (RestErr e) \<longrightarrow> (\<exists>n. e = TransportError n \<or> e = ResponseReadError n))"
    using d(1,6) by (cases err) (auto simp: rms_List_def split: prod.splits)
  then show ?thesis using d(2-4) q by blast
qed

end
