(* ===== verification/Go_Query.thy ===== *)
theory Go_Query
  imports Go_Json
begin

text \<open>
  \<open>url.ParseQuery\<close>, which the server applies to the query that the client writes with
  \<open>url.Values.Encode\<close>. Pairs that cannot be unescaped or contain a semicolon are skipped, as
  \<open>URL.Query\<close> does. Parsing an encoded query gives the same first value for every key.
\<close>

fun QueryUnescape :: "string \<Rightarrow> string option" where
  "QueryUnescape [] = Some []"
| "QueryUnescape (c # cs) =
     (if c = CHR ''%'' then
        (case cs of
           a # b # r \<Rightarrow>
             (case (hex_val a, hex_val b) of
                (Some x, Some y) \<Rightarrow> map_option (\<lambda>t. char_of (16 * x + y) # t) (QueryUnescape r)
              | _ \<Rightarrow> None)
         | _ \<Rightarrow> None)
      else map_option (\<lambda>t. (if c = CHR ''+'' then CHR '' '' else c) # t) (QueryUnescape cs))"

definition parse_pair :: "string \<Rightarrow> (string \<times> string) option" where
  "parse_pair s =
     (if s = '''' \<or> CHR '';'' \<in> set s then None
      else
        let k = takeWhile (\<lambda>c. c \<noteq> CHR ''='') s;
            v = drop (Suc (length k)) s
        in case (QueryUnescape k, QueryUnescape v) of
             (Some k', Some v') \<Rightarrow> Some (k', v')
           | _ \<Rightarrow> None)"

definition ParseQuery :: "string \<Rightarrow> url_values" where
  "ParseQuery s =
     fold (\<lambda>p m. case parse_pair p of Some (k, v) \<Rightarrow> values_Add k v m | None \<Rightarrow> m) (Split s ''&'') gm_empty"

definition values_Get :: "url_values \<Rightarrow> string \<Rightarrow> string" where
  "values_Get m k = (case gm_get m k of Some (v # _) \<Rightarrow> v | _ \<Rightarrow> '''')"

section \<open>Escapes\<close>

lemma hex_val_hex_digit [simp]: "n < 16 \<Longrightarrow> hex_val (hex_digit n) = Some n"
  by (simp add: hex_val_def hex_digit_def byte_of_char_of)

lemma unreserved_plain: "unreserved c \<Longrightarrow> c \<noteq> CHR ''%'' \<and> c \<noteq> CHR ''+'' \<and> c \<noteq> CHR ''&'' \<and> c \<noteq> CHR ''='' \<and> c \<noteq> CHR '';''"
  by (auto simp: unreserved_def byte_of_def)

lemma byte_div_16 [simp]: "byte_of c div 16 < 16"
  using byte_of_less [of c] by linarith

lemma unescape_escape_char: "QueryUnescape (escape_char c @ t) = map_option (\<lambda>t. c # t) (QueryUnescape t)"
proof -
  have "char_of (16 * (byte_of c div 16) + byte_of c mod 16) = c" by simp
  then show ?thesis using unreserved_plain [of c] by (auto simp: escape_char_def)
qed

lemma unescape_escape: "QueryUnescape (QueryEscape s) = Some s"
  by (induction s) (simp_all add: QueryEscape_def unescape_escape_char)

lemma hex_digit_plain: "n < 16 \<Longrightarrow> hex_digit n \<notin> set ''&=;''"
proof -
  assume "n < 16"
  then have "byte_of (hex_digit n) \<in> {48..57} \<union> {65..70}" by (auto simp: hex_digit_def byte_of_char_of)
  then show ?thesis by (auto simp: byte_of_def)
qed

lemma escape_char_plain: "d \<in> set (escape_char c) \<Longrightarrow> d \<notin> set ''&=;''"
  using unreserved_plain [of c] hex_digit_plain [of "byte_of c div 16"] hex_digit_plain [of "byte_of c mod 16"]
  by (auto simp: escape_char_def split: if_splits)

lemma QueryEscape_plain: "d \<in> set (QueryEscape s) \<Longrightarrow> d \<notin> set ''&=;''"
  using escape_char_plain unfolding QueryEscape_def by fastforce

section \<open>Queries are read back\<close>

definition encode_pair :: "string \<times> string \<Rightarrow> string" where
  "encode_pair p = QueryEscape (fst p) @ ''='' @ QueryEscape (snd p)"

lemma encode_pair_plain: "CHR ''&'' \<notin> set (encode_pair p)" "CHR '';'' \<notin> set (encode_pair p)"
  using QueryEscape_plain [of "CHR ''&''"] QueryEscape_plain [of "CHR '';''"] by (auto simp: encode_pair_def)

lemma parse_encode_pair: "parse_pair (encode_pair (k, v)) = Some (k, v)"
proof -
  have "CHR ''='' \<notin> set (QueryEscape k)" using QueryEscape_plain [of "CHR ''=''" k] by auto
  then have "takeWhile (\<lambda>c. c \<noteq> CHR ''='') (encode_pair (k, v)) = QueryEscape k"
    unfolding encode_pair_def fst_conv snd_conv by (subst takeWhile_append2) auto
  moreover have "drop (Suc (length (QueryEscape k))) (encode_pair (k, v)) = QueryEscape v"
    by (simp add: encode_pair_def)
  moreover have "encode_pair (k, v) \<noteq> ''''" by (simp add: encode_pair_def)
  ultimately show ?thesis
    using encode_pair_plain(2) [of "(k, v)"] by (simp add: parse_pair_def Let_def unescape_escape)
qed

definition query_pairs :: "url_values \<Rightarrow> (string \<times> string) list" where
  "query_pairs m =
     concat (map (\<lambda>k. map (\<lambda>v. (k, v)) (case gm_get m k of None \<Rightarrow> [] | Some vs \<Rightarrow> vs)) (fold insert_key (gm_keys m) []))"

lemma values_Encode_pairs: "values_Encode m = join_with ''&'' (map encode_pair (query_pairs m))"
  by (simp add: values_Encode_def query_pairs_def map_concat comp_def encode_pair_def)

lemma ParseQuery_pairs: "ParseQuery (values_Encode m) = fold (\<lambda>(k, v). values_Add k v) (query_pairs m) gm_empty"
proof -
  have f: "fold (\<lambda>p m. case parse_pair p of Some (k, v) \<Rightarrow> values_Add k v m | None \<Rightarrow> m) (map encode_pair ps) m =
      fold (\<lambda>(k, v). values_Add k v) ps m" for ps and m :: url_values
    by (induction ps arbitrary: m) (auto simp: parse_encode_pair)
  have "Split (values_Encode m) ''&'' = (if query_pairs m = [] then [''''] else map encode_pair (query_pairs m))"
    unfolding values_Encode_pairs by (subst Split_join_with) (simp_all add: encode_pair_plain)
  then show ?thesis by (simp add: ParseQuery_def f) (simp add: parse_pair_def)
qed

lemma values_Add_get:
  "gm_get (values_Add k v m) k' = (if k' = k then Some ((case gm_get m k of None \<Rightarrow> [] | Some vs \<Rightarrow> vs) @ [v]) else gm_get m k')"
  by (simp add: values_Add_def gomap_simps)

definition values_of :: "string \<Rightarrow> (string \<times> string) list \<Rightarrow> string list" where
  "values_of k ps = map snd (filter (\<lambda>p. fst p = k) ps)"

lemma values_of_simps [simp]:
  "values_of k [] = []" "values_of k ((k', v) # ps) = (if k' = k then [v] else []) @ values_of k ps"
  "values_of k (ps @ qs) = values_of k ps @ values_of k qs"
  by (simp_all add: values_of_def)

lemma fold_values_Add:
  "gm_get (fold (\<lambda>(k, v). values_Add k v) ps m) k =
    (if values_of k ps = [] then gm_get m k
     else Some ((case gm_get m k of None \<Rightarrow> [] | Some ws \<Rightarrow> ws) @ values_of k ps))"
proof (induction ps arbitrary: m)
  case (Cons p ps)
  obtain k' v where p: "p = (k', v)" by (cases p)
  show ?case
    using Cons.IH [of "values_Add k' v m"] by (cases "k' = k") (auto simp: p values_Add_get)
qed simp

lemma insert_key_mset: "mset (insert_key k ks) = add_mset k (mset ks)"
  by (induction ks) auto

lemma fold_insert_key_mset: "mset (fold insert_key ks acc) = mset ks + mset acc"
  by (induction ks arbitrary: acc) (simp_all add: insert_key_mset)

lemma pairs_of_key:
  "distinct ks \<Longrightarrow> values_of k (concat (map (\<lambda>k. map (\<lambda>v. (k, v)) (f k)) ks)) = (if k \<in> set ks then f k else [])"
proof (induction ks)
  case (Cons x ks)
  have own: "values_of k (map (\<lambda>v. (x, v)) vs) = (if x = k then vs else [])" for vs
    by (induction vs) auto
  show ?case using Cons by (auto simp: own)
qed simp

lemma query_roundtrip:
  assumes "gm_wf m"
  shows "values_Get (ParseQuery (values_Encode m)) k = values_Get m k"
proof -
  let ?f = "\<lambda>k. case gm_get m k of None \<Rightarrow> [] | Some vs \<Rightarrow> vs"
  let ?ks = "fold insert_key (gm_keys m) []"
  have ks: "mset ?ks = mset (gm_keys m)" by (simp add: fold_insert_key_mset)
  have d: "distinct ?ks" using mset_eq_imp_distinct_iff [OF ks] assms by (simp add: gm_wf_def gm_keys_def)
  have s: "k \<in> set ?ks \<longleftrightarrow> gm_get m k \<noteq> None"
    using gm_keys_set [of m] mset_eq_setD [OF ks] by simp
  have "values_of k (query_pairs m) = ?f k"
    unfolding query_pairs_def using pairs_of_key [OF d, of k ?f] s by (auto split: option.splits)
  then show ?thesis
    by (simp add: ParseQuery_pairs fold_values_Add Let_def values_Get_def split: option.splits list.splits)
qed

end
