(* ===== verification/GRS_Server.thy ===== *)
theory GRS_Server
  imports GRS_RmsClient Go_Query
begin

text \<open>
  The process \<open>cmds/service-api\<close>: its flags, the routes that \<open>Run\<close> registers, and what a request
  becomes on its way through net/http, the router and the handlers of \<open>GRS_ServiceApi\<close>. The router
  (gorilla/mux) is a parameter with its documented matching of templates. The service is then a
  transport for the REST client, so that the SDK runs against it; watches, whose answer is a stream,
  are left to the theory of streams.
\<close>

section \<open>Flags\<close>

record ServerConfig =
  ResourceUrls :: "string list"
  MasterIp :: string
  MasterPort :: string
  EventMetricsDumpFrequency :: int

definition TrimLeft_comma :: "string \<Rightarrow> string" where
  "TrimLeft_comma s = dropWhile (\<lambda>c. c = CHR '','') s"

definition TrimRight_comma :: "string \<Rightarrow> string" where
  "TrimRight_comma s = rev (dropWhile (\<lambda>c. c = CHR '','') (rev s))"

text \<open>\<open>None\<close>: the process exits with status 1. The flag for the metrics is set with the configuration.\<close>

definition main_config :: "string \<Rightarrow> string \<Rightarrow> string \<Rightarrow> int \<Rightarrow> bool \<Rightarrow> (ServerConfig \<times> bool) option" where
  "main_config master_ip master_port urls frequency metricsEnabled =
     (if urls = '''' then None
      else
        let us = Split (TrimRight_comma (TrimLeft_comma urls)) '',''
        in if '''' \<in> set us then None
           else Some (\<lparr>ResourceUrls = us, MasterIp = master_ip, MasterPort = master_port,
             EventMetricsDumpFrequency = frequency\<rparr>, metricsEnabled))"

definition server_address :: "ServerConfig \<Rightarrow> string" where
  "server_address c = MasterIp c @ '':'' @ MasterPort c"

section \<open>Routes\<close>

definition ClientAdminitrationPath :: string where "ClientAdminitrationPath = ''/clients''"
definition RegionlessResourcePath :: string where "RegionlessResourcePath = ''/resource''"
definition NodeStatusPath :: string where "NodeStatusPath = ''/nodes?''"
definition ListWatchResourcePath :: string where "ListWatchResourcePath = RegionlessResourcePath @ ''/{clientid}''"
definition UpdateResourcePath :: string where "UpdateResourcePath = RegionlessResourcePath @ ''/{clientid}'' @ ''/addResource''"
definition ReduceResourcePath :: string where "ReduceResourcePath = RegionlessResourcePath @ ''/{clientid}'' @ ''/reduceResource''"

datatype route_handler = PprofHandler string | HandleNode | HandleResource | HandleClient

definition routes :: "(string \<times> route_handler) list" where
  "routes =
     [(''/debug/pprof/'', PprofHandler ''Index''),
      (''/debug/pprof/cmdline'', PprofHandler ''Cmdline''),
      (''/debug/pprof/profile'', PprofHandler ''Profile''),
      (''/debug/pprof/symbol'', PprofHandler ''Symbol''),
      (''/debug/pprof/trace'', PprofHandler ''Trace''),
      (NodeStatusPath, HandleNode),
      (ListWatchResourcePath, HandleResource),
      (UpdateResourcePath, HandleResource),
      (ReduceResourcePath, HandleResource),
      (ClientAdminitrationPath, HandleClient),
      (ClientAdminitrationPath @ ''/{clientId}'', HandleClient)]"

lemmas route_paths = NodeStatusPath_def ListWatchResourcePath_def UpdateResourcePath_def ReduceResourcePath_def
  ClientAdminitrationPath_def RegionlessResourcePath_def

subsection \<open>The router\<close>

text \<open>A variable \<open>{name}\<close> of a template stands for one non-empty segment; other segments stand for themselves.\<close>

definition is_variable :: "string \<Rightarrow> bool" where
  "is_variable t \<longleftrightarrow> t \<noteq> '''' \<and> hd t = CHR ''{'' \<and> last t = CHR ''}''"

definition seg_matches :: "string \<Rightarrow> string \<Rightarrow> bool" where
  "seg_matches t s \<longleftrightarrow> (if is_variable t then s \<noteq> '''' else t = s)"

definition template_matches :: "string \<Rightarrow> string \<Rightarrow> bool" where
  "template_matches t p \<longleftrightarrow> list_all2 seg_matches (Split t ''/'') (Split p ''/'')"

fun first_match :: "(string \<times> 'h) list \<Rightarrow> string \<Rightarrow> 'h option" where
  "first_match [] p = None"
| "first_match ((t, h) # rs) p = (if template_matches t p then Some h else first_match rs p)"

definition toggle_slash :: "string \<Rightarrow> string" where
  "toggle_slash p = (if has_suffix p ''/'' then butlast p else p @ ''/'')"

text \<open>
  The router's documented behaviour: the first registered template that matches a clean path; with
  \<open>StrictSlash\<close> a path that matches only with its last slash added or removed is redirected instead,
  which the law leaves open.
\<close>

type_synonym router = "(string \<times> route_handler) list \<Rightarrow> string \<Rightarrow> route_handler option"

definition mux_laws :: "router \<Rightarrow> bool" where
  "mux_laws mux \<longleftrightarrow>
     (\<forall>rs p. path_Clean p = p \<longrightarrow> first_match rs (toggle_slash p) = None \<longrightarrow> mux rs p = first_match rs p)"

section \<open>Requests and responses of net/http\<close>

definition body_of :: "'a decoder \<Rightarrow> 'a \<Rightarrow> HttpRequest \<Rightarrow> 'a body_outcome" where
  "body_of d zero q =
     (let (x, failed) = Unmarshal d (case hq_Body q of None \<Rightarrow> '''' | Some s \<Rightarrow> s) zero
      in if failed then BodyBadJson else BodyOk x)"

definition server_request :: "HttpRequest \<Rightarrow> Request" where
  "server_request q =
     \<lparr>rq_Method = hq_Method q, rq_Path = url_Path (hq_URL q),
      rq_Query = values_Get (ParseQuery (url_RawQuery (hq_URL q))),
      rq_Registration = body_of dec_RegistrationRequest zero_RegistrationRequest q,
      rq_Watch = body_of dec_WatchRequest zero_WatchRequest q,
      rq_ContentType = header_Get ''Content-Type'' (case hq_Header q of None \<Rightarrow> gm_empty | Some h \<Rightarrow> h)\<rparr>"

text \<open>What the handlers write; an event of a watch ends with a new line.\<close>

fun body_text :: "TextCodec \<Rightarrow> ApiBody \<Rightarrow> string option" where
  "body_text tc (RegistrationBody r) = Marshal enc_RegistrationResponse r"
| "body_text tc (NodeBody n) = Marshal (enc_NodeResponse tc) n"
| "body_text tc (ListBody l) = Marshal (enc_ListNodeResponse tc) l"
| "body_text tc (EventBody e) = map_option (\<lambda>t. t @ [CHR 0x0A]) (Marshal (enc_event tc) e)"

text \<open>A handler that has sent no status answers 200; the bodies arrive as one text.\<close>

definition http_response :: "TextCodec \<Rightarrow> Response \<Rightarrow> HttpResponse" where
  "http_response tc r =
     (let (code, headers) = (case rs_sent r of Some s \<Rightarrow> s | None \<Rightarrow> (200, rs_headers r)) in
      \<lparr>hr_StatusCode = int code, hr_Header = map (\<lambda>(k, v). (k, [v])) headers,
       hr_Body = (concat (map (\<lambda>b. case body_text tc b of Some t \<Rightarrow> t | None \<Rightarrow> '''') (rs_bodies r)), None)\<rparr>)"

definition not_found :: HttpResponse where
  "not_found = \<lparr>hr_StatusCode = 404, hr_Header = [], hr_Body = (''404 page not found'' @ [CHR 0x0A], None)\<rparr>"

section \<open>The service\<close>

text \<open>
  One request. \<open>uuid\<close> is what \<open>uuid.New\<close> gives. A handler that panics closes the connection; the panic
  that a watch's loop can raise, of an event with too few checkpoints, also forgets that the watch began. The
  profiling handlers are third-party code (\<open>pprof\<close> gives their answers); of a watch, \<open>inputs\<close> is what its
  select takes, and a watch that never returns gives no answer.
\<close>

record 'd service =
  sv_mux :: router
  sv_codec :: TextCodec
  sv_di :: "'d DistributorInterface"
  sv_measure :: bool
  sv_uuid :: "nat \<Rightarrow> string"
  sv_pprof :: "string \<Rightarrow> HttpResponse"
  sv_inputs :: "(select_input \<times> bool) list"

definition serve :: "'d service \<Rightarrow> string \<Rightarrow> HttpRequest \<Rightarrow> 'd \<Rightarrow> (net_error + HttpResponse) \<times> 'd" where
  "serve sv uuid q d =
     (let resp = new_response True True; req = server_request q;
          answer = (\<lambda>r. Inr (http_response (sv_codec sv) r))
      in case sv_mux sv routes (url_Path (hq_URL q)) of
           None \<Rightarrow> (Inr not_found, d)
         | Some (PprofHandler name) \<Rightarrow> (Inr (sv_pprof sv name), d)
         | Some HandleNode \<Rightarrow>
             (case NodeHandler (sv_di sv) req resp d of Inl p \<Rightarrow> (Inl IoEOF, d) | Inr r \<Rightarrow> (answer r, d))
         | Some HandleResource \<Rightarrow>
             (case ResourceHandler (sv_di sv) (sv_measure sv) req (sv_inputs sv) init_latency_metrics (resp, d) of
                Inl p \<Rightarrow> (Inl IoEOF, d)
              | Inr (out, d') \<Rightarrow>
                  (if wo_returns out then answer (wo_response out) else Inl (TimeoutErr ''no answer'' True), d'))
         | Some HandleClient \<Rightarrow>
             (case ClientAdministrationHandler (sv_di sv) uuid req (resp, d) of (r, d') \<Rightarrow> (answer r, d')))"

text \<open>The service as the transport of a client, with a log of the requests.\<close>

definition service_env :: "'d service \<Rightarrow> ('d \<times> HttpRequest list) HttpEnv" where
  "service_env sv =
     \<lparr>he_NewRequest = (\<lambda>verb u. None),
      he_Do = (\<lambda>client q (d, sent).
        let (out, d') = serve sv (sv_uuid sv (length sent)) q d
        in ((out, case hq_Body q of None \<Rightarrow> 0 | Some s \<Rightarrow> length s), (d', sent @ [q]))),
      he_ReadFile = (\<lambda>f w. Inl ''no file'')\<rparr>"

section \<open>Which handler a path reaches\<close>

lemma Split_rooted_path: "ps \<noteq> [] \<Longrightarrow> \<forall>s\<in>set ps. segment s \<Longrightarrow> Split (rooted_path ps) ''/'' = '''' # ps"
  by (simp add: rooted_path_def Split_rooted Split_join_with segment_def)

lemma template_splits:
  "Split ''/debug/pprof/'' ''/'' = ['''', ''debug'', ''pprof'', '''']"
  "Split ''/debug/pprof/cmdline'' ''/'' = ['''', ''debug'', ''pprof'', ''cmdline'']"
  "Split ''/debug/pprof/profile'' ''/'' = ['''', ''debug'', ''pprof'', ''profile'']"
  "Split ''/debug/pprof/symbol'' ''/'' = ['''', ''debug'', ''pprof'', ''symbol'']"
  "Split ''/debug/pprof/trace'' ''/'' = ['''', ''debug'', ''pprof'', ''trace'']"
  "Split NodeStatusPath ''/'' = ['''', ''nodes?'']"
  "Split ListWatchResourcePath ''/'' = ['''', ''resource'', ''{clientid}'']"
  "Split UpdateResourcePath ''/'' = ['''', ''resource'', ''{clientid}'', ''addResource'']"
  "Split ReduceResourcePath ''/'' = ['''', ''resource'', ''{clientid}'', ''reduceResource'']"
  "Split ClientAdminitrationPath ''/'' = ['''', ''clients'']"
  "Split (ClientAdminitrationPath @ ''/{clientId}'') ''/'' = ['''', ''clients'', ''{clientId}'']"
  by code_simp+

lemma seg_matches_simps [simp]:
  "seg_matches ''{clientid}'' s \<longleftrightarrow> s \<noteq> ''''" "seg_matches ''{clientId}'' s \<longleftrightarrow> s \<noteq> ''''"
  "seg_matches '''' s \<longleftrightarrow> s = ''''" "seg_matches ''resource'' s \<longleftrightarrow> s = ''resource''"
  "seg_matches ''clients'' s \<longleftrightarrow> s = ''clients''" "seg_matches ''nodes?'' s \<longleftrightarrow> s = ''nodes?''"
  "seg_matches ''debug'' s \<longleftrightarrow> s = ''debug''" "seg_matches ''pprof'' s \<longleftrightarrow> s = ''pprof''"
  "seg_matches ''addResource'' s \<longleftrightarrow> s = ''addResource''" "seg_matches ''reduceResource'' s \<longleftrightarrow> s = ''reduceResource''"
  "seg_matches ''cmdline'' s \<longleftrightarrow> s = ''cmdline''" "seg_matches ''profile'' s \<longleftrightarrow> s = ''profile''"
  "seg_matches ''symbol'' s \<longleftrightarrow> s = ''symbol''" "seg_matches ''trace'' s \<longleftrightarrow> s = ''trace''"
  by (auto simp: seg_matches_def is_variable_def)

lemmas match_simps = routes_def first_match.simps template_matches_def template_splits

lemma first_match_short:
  "Split p ''/'' = ['''', b] \<Longrightarrow> first_match routes p =
    (if b = ''nodes?'' then Some HandleNode else if b = ''clients'' then Some HandleClient else None)"
  "Split p ''/'' = ['''', ''resource'', c] \<Longrightarrow> first_match routes p = (if c = [] then None else Some HandleResource)"
  "Split p ''/'' = ['''', ''clients'', c] \<Longrightarrow> first_match routes p = (if c = [] then None else Some HandleClient)"
  "Split p ''/'' = ['''', ''resource'', c, e] \<Longrightarrow> first_match routes p =
    (if c \<noteq> [] \<and> (e = ''addResource'' \<or> e = ''reduceResource'') then Some HandleResource else None)"
  "Split p ''/'' = ['''', b, ''''] \<Longrightarrow> first_match routes p = None"
  by (simp_all add: match_simps)

lemma routed:
  assumes "mux_laws mux" "ps \<noteq> []" "\<forall>s\<in>set ps. segment s"
  shows "Split (rooted_path ps) ''/'' = '''' # ps"
    and "first_match routes (rooted_path ps @ ''/'') = None \<Longrightarrow> mux routes (rooted_path ps) = first_match routes (rooted_path ps)"
    and "Split (rooted_path ps @ ''/'') ''/'' = '''' # ps @ ['''']"
proof -
  obtain s where s: "last ps = s" "s \<noteq> []" "CHR ''/'' \<notin> set s" "segment s"
    using assms(2,3) by (auto simp: segment_def plain_part_def)
  obtain qs where qs: "ps = qs @ [s]" using assms(2) s(1) append_butlast_last_id by metis
  have "\<exists>t. rooted_path ps = t @ s"
  proof (cases "qs = []")
    case True
    then show ?thesis by (simp add: qs rooted_path_def)
  next
    case False
    have "\<exists>t. join_with ''/'' (qs @ [s]) = t @ s" for qs
      by (induction qs rule: induct_list012) auto
    then obtain u where "join_with ''/'' (qs @ [s]) = u @ s" by blast
    then have "rooted_path ps = (CHR ''/'' # u) @ s" by (simp add: qs rooted_path_def)
    then show ?thesis by blast
  qed
  then obtain t where t: "rooted_path ps = t @ s" by blast
  have "\<not> has_suffix (rooted_path ps) ''/''"
  proof
    assume "has_suffix (rooted_path ps) ''/''"
    then obtain u where "t @ s = u @ ''/''" using t by (auto simp: has_suffix_iff)
    then have "last s = CHR ''/''" using s(2) by (metis last_appendR last_snoc)
    then show False using s(2,3) last_in_set by metis
  qed
  then show "first_match routes (rooted_path ps @ ''/'') = None \<Longrightarrow> mux routes (rooted_path ps) = first_match routes (rooted_path ps)"
    using assms(1) path_Clean_id [OF assms(3)] by (simp add: mux_laws_def toggle_slash_def)
  show "Split (rooted_path ps) ''/'' = '''' # ps" by (rule Split_rooted_path [OF assms(2,3)])
  then show "Split (rooted_path ps @ ''/'') ''/'' = '''' # ps @ ['''']"
    using Split_append [of "rooted_path ps" "CHR ''/''" "''''"] by (simp add: Split_none)
qed

lemma segment_consts: "segment ''clients''" "segment ''nodes''" "segment ''nodes?''"
  by (simp_all add: segment_def plain_part_def)

lemma mux_paths:
  assumes "mux_laws mux"
  shows "mux routes (rooted_path [''clients'']) = Some HandleClient"
    and "segment ident \<Longrightarrow> mux routes (rooted_path [''resource'', ident]) = Some HandleResource"
    and "mux routes (rooted_path [''resource'']) = None" "mux routes (rooted_path [''nodes'']) = None"
    and "mux routes (rooted_path [''nodes?'']) = Some HandleNode"
proof -
  have one: "mux routes (rooted_path [s]) = (if s = ''nodes?'' then Some HandleNode else if s = ''clients'' then Some HandleClient else None)"
    if "segment s" "s \<in> {''clients'', ''resource'', ''nodes'', ''nodes?''}" for s
  proof -
    note r = routed [OF assms, of "[s]"]
    have split: "Split (rooted_path [s]) ''/'' = ['''', s]" "Split (rooted_path [s] @ ''/'') ''/'' = ['''', s, '''']"
      using r(1,3) that(1) by simp_all
    have "first_match routes (rooted_path [s] @ ''/'') = None"
      by (rule first_match_short(5) [OF split(2)])
    then show ?thesis using r(2) that first_match_short(1) [OF split(1)] by simp
  qed
  show "mux routes (rooted_path [''clients'']) = Some HandleClient" "mux routes (rooted_path [''resource'']) = None"
    "mux routes (rooted_path [''nodes'']) = None" "mux routes (rooted_path [''nodes?'']) = Some HandleNode"
    using one [OF segment_consts(1)] one [OF resource_segment(2)] one [OF segment_consts(2)] one [OF segment_consts(3)]
    by simp_all
  assume seg: "segment ident"
  note r = routed [OF assms, of "[''resource'', ident]"]
  have split: "Split (rooted_path [''resource'', ident]) ''/'' = ['''', ''resource'', ident]"
      "Split (rooted_path [''resource'', ident] @ ''/'') ''/'' = ['''', ''resource'', ident, '''']"
    using r(1,3) seg resource_segment(2) by simp_all
  have "first_match routes (rooted_path [''resource'', ident] @ ''/'') = None"
    using first_match_short(4) [OF split(2)] by simp
  moreover have "ident \<noteq> ''''" using seg by (simp add: segment_def plain_part_def)
  ultimately show "mux routes (rooted_path [''resource'', ident]) = Some HandleResource"
    using r(2) seg resource_segment(2) first_match_short(2) [OF split(1)] by simp
qed

section \<open>A request of the client is one request of the service\<close>

lemma serve_same:
  "hq_Method q = hq_Method q' \<Longrightarrow> hq_URL q = hq_URL q' \<Longrightarrow> hq_Header q = hq_Header q' \<Longrightarrow> hq_Body q = hq_Body q' \<Longrightarrow>
    serve sv uuid q d = serve sv uuid q' d"
  by (simp add: serve_def server_request_def body_of_def)

lemma service_logs: "logs_requests (service_env sv) snd"
  by (simp add: logs_requests_def service_env_def split: prod.splits)

lemma service_DoRaw:
  assumes "rr_rateLimiter r = None" "at_start r"
    and served: "\<And>q. same_request r q \<Longrightarrow> serve sv (sv_uuid sv (length sent)) q d = (Inr resp, d')"
    and "\<not> snd (checkWait resp)" "snd (hr_Body resp) = None"
  obtains r' q where "DoRaw (service_env sv) r (d, sent) = Some ((fst (hr_Body resp), None), r', (d', sent @ [q]))"
    "same_request r q"
proof -
  obtain out pos q w' where a: "do_attempt (service_env sv) 0 r (d, sent) =
      Some (response_or_error (rr_verb r) out, advance_body pos (with_timeout r), w')"
    "same_request r q" "((out, pos), w') = he_Do (service_env sv) (http_client r) q (d, sent)"
    by (rule do_attempt_spec [OF service_logs assms(1) _ assms(2), of sv 0 "(d, sent)"]) (simp add: service_env_def, blast)
  have "out = Inr resp" "w' = (d', sent @ [q])" using a(3) served [OF a(2)] by (simp_all add: service_env_def)
  then have "doRequest_loop (service_env sv) 0 r (d, sent) = Some (Inr resp, advance_body pos (with_timeout r), (d', sent @ [q]))"
    using a(1) assms(4) by (subst doRequest_loop.simps) (simp add: response_or_error_def)
  then show thesis using that a(2) assms(1,5) by (simp add: DoRaw_def tryThrottle_def doRequest_def)
qed

section \<open>Registration\<close>

definition register_request :: "'w HttpEnv \<Rightarrow> 'w rmsClient \<Rightarrow> string \<Rightarrow> 'w \<Rightarrow> 'w RestRequest" where
  "register_request env c body w =
     Request_Timeout (RequestTimeout (rms_config c))
       (Request_Resource ''clients'' (Request_Body env (BytesArg body) w (rest_Post (rms_restClient c))))"

lemma clients_segment: "IsValidPathSegmentName ''clients'' = []" "to_lower ''clients'' = ''clients''"
  by (simp_all add: IsValidPathSegmentName_def NameMayNotBe_def NameMayNotContain_def str_contains_char
      to_lower_def lower_char_def byte_of_def)

lemma register_request_facts:
  fixes env body w
  assumes "DefaultServerURL parse (ServiceUrl cfg) '''' False = Inr url" "NewRmsClient parse cfg = Some c"
  defines "r \<equiv> register_request env c body w"
  shows "url_Path (Request_URL r) = rooted_path (base_segments (url_Path url) @ [''clients''])"
    and "rr_verb r = ''POST''" "rr_rateLimiter r = None" "whole_body r = Some body" "at_start r"
proof -
  define cl where "cl = rms_restClient c"
  have cl: "cl = NewRESTClient url \<lparr>AcceptContentTypes = '''', ContentType = ''''\<rparr> None
      (Some \<lparr>hc_Timeout = RequestTimeout cfg\<rparr>)"
    using assms(1,2) by (auto simp: NewRmsClient_def cl_def)
  have g: "rr_err (rest_Post cl) = None" "rr_resource (rest_Post cl) = ''''" "rr_resourceName (rest_Post cl) = ''''"
      "rr_verb (rest_Post cl) = ''POST''" "rr_rateLimiter (rest_Post cl) = None"
      "rr_pathPrefix (rest_Post cl) = rooted_path (base_segments (url_Path url))"
    by (simp_all add: rest_Post_def rest_Verb_def Request_Verb_def cl NewRequest_prefix) (simp add: NewRESTClient_def)
  have r: "r = (rest_Post cl)\<lparr>rr_body := Some (NewReader body), rr_resource := ''clients'', rr_timeout := RequestTimeout (rms_config c)\<rparr>"
    using g clients_segment(1)
    by (simp add: r_def register_request_def cl_def [symmetric] Request_Body_def Request_Resource_def Request_Timeout_def Let_def)
  have "request_path r = rooted_path (base_segments (url_Path url) @
      filter (\<lambda>s. s \<noteq> '''') [to_lower (rr_resource r), rr_resourceName r])"
    by (rule request_path_prefix [OF base_segments_segment]) (simp_all add: r g segment_consts(1))
  then show "url_Path (Request_URL r) = rooted_path (base_segments (url_Path url) @ [''clients''])"
    by (simp add: Request_URL_def r g clients_segment(2))
  show "rr_verb r = ''POST''" "rr_rateLimiter r = None" "whole_body r = Some body" "at_start r"
    by (simp_all add: r g whole_body_def at_start_def NewReader_def)
qed

text \<open>The client record that the service makes of a configuration and a fresh uuid.\<close>

definition registered_client :: "Config \<Rightarrow> string \<Rightarrow> Client" where
  "registered_client cfg uuid =
     \<lparr>ClientId = Preserve_Client_KeyPrefix @ ''-'' @ uuid, ClientInfo = crr_ClientInfo (registration_request cfg),
      Resource = InitialRequestedResource (registration_request cfg)\<rparr>"

definition config_ok :: "Config \<Rightarrow> bool" where
  "config_ok cfg \<longleftrightarrow> RegistrationRequest_ok (registration_request cfg)"

lemma no_retry_header: "hr_Header resp = [] \<Longrightarrow> \<not> snd (checkWait resp)"
  by (simp add: checkWait_def retryAfterSeconds_def header_Get_def gm_get_def)

lemma http_response_empty:
  "rs_bodies r = [] \<Longrightarrow> snd (hr_Body (http_response tc r)) = None \<and> fst (hr_Body (http_response tc r)) = ''''"
  by (simp add: http_response_def split: option.splits prod.splits)

lemma serve_register:
  assumes "mux_laws (sv_mux sv)" "config_ok cfg" "Marshal enc_RegistrationRequest (registration_request cfg) = Some body"
    and q: "hq_Method q = ''POST''" "url_Path (hq_URL q) = rooted_path [''clients'']" "hq_Body q = Some body"
    and uuid: "ascii uuid"
  defines "asked \<equiv> InitialRequestTotalMachines cfg" and "cl \<equiv> registered_client cfg uuid"
  shows "\<exists>resp d'. serve sv uuid q d = (Inr resp, d') \<and> \<not> snd (checkWait resp) \<and> snd (hr_Body resp) = None \<and>
    (let (ret, failed) = Unmarshal dec_RegistrationResponse (fst (hr_Body resp)) zero_RegistrationResponse;
         registered = 1000 \<le> asked \<and> asked \<le> 50000 \<and> fst (di_RegisterClient (sv_di sv) cl d) = None
     in d' = (if 1000 \<le> asked \<and> asked \<le> 50000 then snd (di_RegisterClient (sv_di sv) cl d) else d) \<and>
        failed = (\<not> registered) \<and>
        (registered \<longrightarrow> ret = \<lparr>crs_ClientId = ClientId cl, GrantedResource = Resource cl\<rparr>))"
proof -
  have route: "sv_mux sv routes (url_Path (hq_URL q)) = Some HandleClient" using mux_paths(1) [OF assms(1)] q(2) by simp
  have b: "Unmarshal dec_RegistrationRequest body zero_RegistrationRequest = (registration_request cfg, False)"
    using registration_codec.unmarshal_marshal [of "registration_request cfg"] assms(2,3)
    by (auto simp: config_ok_def canon_RegistrationRequest_def canon_ResourceRequest_def registration_request_def)
  have req: "rq_Registration (server_request q) = BodyOk (registration_request cfg)" "rq_Method (server_request q) = ''POST''"
    by (simp_all add: server_request_def body_of_def q b)
  have none: "Unmarshal dec_RegistrationResponse '''' zero_RegistrationResponse = (zero_RegistrationResponse, True)"
    by code_simp
  show ?thesis
  proof (cases "1000 \<le> asked \<and> asked \<le> 50000")
    case False
    then have "serve sv uuid q d = (Inr (http_response (sv_codec sv) (WriteHeader 400 (new_response True True))), d)"
      using req by (auto simp: serve_def route ClientAdministrationHandler_def handleClientRegistration_def Let_def
          MaxTotalMachinesPerRequest_def MinTotalMachinesPerRequest_def registration_request_def asked_def)
    then show ?thesis
      using False http_response_empty [of "WriteHeader 400 (new_response True True)" "sv_codec sv"] none
      by (auto simp: checkWait_def http_response_def WriteHeader_def new_response_def)
  next
    case True
    then have h: "handleClientRegistration (sv_di sv) uuid (server_request q) (new_response True True, d) =
        (case di_RegisterClient (sv_di sv) cl d of
           (Some err, d') \<Rightarrow> (WriteHeader 500 (new_response True True), d')
         | (None, d') \<Rightarrow> (snd (resp_Write (RegistrationBody \<lparr>crs_ClientId = ClientId cl, GrantedResource = Resource cl\<rparr>)
             (new_response True True)), d'))"
      using req by (simp add: handleClientRegistration_def Let_def MaxTotalMachinesPerRequest_def
          MinTotalMachinesPerRequest_def registration_request_def asked_def cl_def registered_client_def
          resp_Write_connected new_response_def split: prod.split option.split)
    obtain res d' where d': "di_RegisterClient (sv_di sv) cl d = (res, d')" by (cases "di_RegisterClient (sv_di sv) cl d")
    show ?thesis
    proof (cases res)
      case (Some err)
      then have "serve sv uuid q d = (Inr (http_response (sv_codec sv) (WriteHeader 500 (new_response True True))), d')"
        using req h d' by (simp add: serve_def route ClientAdministrationHandler_def Let_def)
      then show ?thesis
        using True d' Some http_response_empty [of "WriteHeader 500 (new_response True True)" "sv_codec sv"] none
        by (simp add: no_retry_header http_response_def WriteHeader_def new_response_def gm_empty_def)
    next
      case None
      let ?ret = "\<lparr>crs_ClientId = ClientId cl, GrantedResource = Resource cl\<rparr>"
      have "RegistrationResponse_ok ?ret" "canon_RegistrationResponse ?ret = ?ret"
        using assms(2) uuid by (auto simp: RegistrationResponse_ok_def cl_def registered_client_def registration_request_def
            config_ok_def RegistrationRequest_ok_def canon_RegistrationResponse_def canon_ResourceRequest_def ascii_def
            Preserve_Client_KeyPrefix_def byte_of_def)
      then obtain t where t: "Marshal enc_RegistrationResponse ?ret = Some t"
          "Unmarshal dec_RegistrationResponse t zero_RegistrationResponse = (?ret, False)"
        using registered_codec.unmarshal_marshal [of ?ret] by auto
      have "serve sv uuid q d = (Inr (http_response (sv_codec sv)
          (snd (resp_Write (RegistrationBody ?ret) (new_response True True)))), d')"
        using req h d' None by (simp add: serve_def route ClientAdministrationHandler_def Let_def)
      then show ?thesis
        using True d' None t
        by (simp add: checkWait_def http_response_def WriteHeader_def new_response_def resp_Write_connected)
    qed
  qed
qed

theorem rms_Register_service:
  assumes "DefaultServerURL parse (ServiceUrl cfg) '''' False = Inr url" "NewRmsClient parse cfg = Some c"
    and "base_segments (url_Path url) = []" "mux_laws (sv_mux sv)" "config_ok cfg" "ascii (sv_uuid sv (length sent))"
  defines "asked \<equiv> InitialRequestTotalMachines cfg"
    and "cl \<equiv> registered_client cfg (sv_uuid sv (length sent))"
  shows "\<exists>q. rms_Register (service_env sv) c (d, sent) =
    Some (if asked < 1000 \<or> 50000 < asked then (Inl JsonErr, (d, sent @ [q]))
      else case di_RegisterClient (sv_di sv) cl d of
          (None, d') \<Rightarrow> (Inr \<lparr>crs_ClientId = ClientId cl, GrantedResource = Resource cl\<rparr>, (d', sent @ [q]))
        | (Some err, d') \<Rightarrow> (Inl JsonErr, (d', sent @ [q])))"
proof -
  have cfg: "rms_config c = cfg" using assms(1,2) by (auto simp: NewRmsClient_def)
  obtain body where body: "Marshal enc_RegistrationRequest (registration_request cfg) = Some body"
    using registration_codec.unmarshal_marshal assms(5) unfolding config_ok_def by blast
  let ?r = "register_request (service_env sv) c body (d, sent)"
  note f = register_request_facts [OF assms(1,2), of "service_env sv" body "(d, sent)"]
  have same: "hq_Method q = ''POST'' \<and> url_Path (hq_URL q) = rooted_path [''clients''] \<and> hq_Body q = Some body"
    if "same_request ?r q" for q
    using that f assms(3) by (simp add: same_request_def)
  define q0 where "q0 = http_request ?r (rr_body ?r)"
  have "same_request ?r q0"
    using f(5) by (auto simp: q0_def same_request_def http_request_def whole_body_def at_start_def option.map_comp
        split: option.splits intro!: option.map_cong)
  note q0 = this same [OF this]
  have srv: "serve sv uuid q d = serve sv uuid q0 d" if "same_request ?r q" for q uuid
    by (rule serve_same) (use that q0(1) in \<open>simp_all add: same_request_def\<close>)
  obtain resp d' where resp: "serve sv (sv_uuid sv (length sent)) q0 d = (Inr resp, d')" "\<not> snd (checkWait resp)"
      "snd (hr_Body resp) = None"
      "let (ret, failed) = Unmarshal dec_RegistrationResponse (fst (hr_Body resp)) zero_RegistrationResponse;
         registered = 1000 \<le> asked \<and> asked \<le> 50000 \<and> fst (di_RegisterClient (sv_di sv) cl d) = None
       in d' = (if 1000 \<le> asked \<and> asked \<le> 50000 then snd (di_RegisterClient (sv_di sv) cl d) else d) \<and>
          failed = (\<not> registered) \<and>
          (registered \<longrightarrow> ret = \<lparr>crs_ClientId = ClientId cl, GrantedResource = Resource cl\<rparr>)"
    using serve_register [OF assms(4,5) body _ _ _ assms(6), of q0 d] q0(2) unfolding asked_def cl_def by blast
  obtain r' q where run: "DoRaw (service_env sv) ?r (d, sent) = Some ((fst (hr_Body resp), None), r', (d', sent @ [q]))"
    using service_DoRaw [OF f(3,5) _ resp(2,3), of sv sent d d'] srv resp(1) by metis
  obtain ret failed where u: "Unmarshal dec_RegistrationResponse (fst (hr_Body resp)) zero_RegistrationResponse = (ret, failed)"
    by fastforce
  have "rms_Register (service_env sv) c (d, sent) =
      Some (if failed then Inl JsonErr else Inr ret, (d', sent @ [q]))"
    using run u by (simp add: rms_Register_def cfg body register_request_def)
  then show ?thesis
    using resp(4) u by (intro exI [of _ q]) (cases "di_RegisterClient (sv_di sv) cl d"; auto simp: Let_def split: option.split)
qed

section \<open>Lists\<close>

lemma Split_head: "Split s [c] \<noteq> [] \<and> hd (Split s [c]) = takeWhile (\<lambda>x. x \<noteq> c) s"
proof (cases "c \<in> set s")
  case False
  then have "takeWhile (\<lambda>x. x \<noteq> c) s = s" by (induction s) auto
  then show ?thesis unfolding Split_none [OF False] list.sel by (intro conjI) (simp, rule sym)
next
  case True
  then obtain a b where s: "s = a @ c # b" "c \<notin> set a" by (meson split_list_first)
  have "takeWhile (\<lambda>x. x \<noteq> c) (a @ c # b) = a" using s(2) by (induction a) auto
  then show ?thesis using s by (simp add: Split_append Split_none)
qed

text \<open>The id that the service reads from the path of a request: up to a question mark.\<close>

definition path_id :: "string \<Rightarrow> string" where
  "path_id ident = takeWhile (\<lambda>x. x \<noteq> CHR ''?'') ident"

lemma getClientId_path:
  assumes "segment ident" "rq_Path req = rooted_path [''resource'', ident]"
  shows "getClientId req = Inr (path_id ident)"
proof -
  have "Split (rq_Path req) ''/'' = ['''', ''resource'', ident]"
    unfolding assms(2) by (rule Split_rooted_path) (use assms(1) resource_segment(2) in auto)
  moreover have "Split ident ''?'' ! 0 = path_id ident" "0 < length (Split ident ''?'')"
    using Split_head [of ident "CHR ''?''"] by (auto simp: hd_conv_nth path_id_def)
  ultimately show ?thesis by (simp add: getClientId_def nth_or_panic_def)
qed

lemma list_limit:
  assumes "usable_id ident" "int64 (Limit opts)"
  shows "values_Get (ParseQuery (values_Encode (list_query ident timeout opts))) ''limit'' = Itoa (Limit opts)"
proof -
  have "gm_wf (list_query ident timeout opts)"
    by (simp add: list_query_def named_query_def values_Add_def values_Set_def Let_def)
  then have "values_Get (ParseQuery (values_Encode (list_query ident timeout opts))) ''limit'' =
      values_Get (list_query ident timeout opts) ''limit''" by (rule query_roundtrip)
  then show ?thesis
    using assms(1) by (simp add: list_query_def named_query_def Let_def values_Get_def values_Add_def values_Set_def gomap_simps)
qed

definition list_text :: "TextCodec \<Rightarrow> TransitResourceVersionMap \<Rightarrow> LogicalNode list \<Rightarrow> string" where
  "list_text tc crv ns = the (Marshal (enc_ListNodeResponse tc) \<lparr>NodeList = ns, lr_ResourceVersions = crv\<rparr>)"

lemma list_text_marshal:
  assumes "\<forall>n\<in>set ns. node_ok tc n" "rvs_ok crv"
  shows "Marshal (enc_ListNodeResponse tc) \<lparr>NodeList = ns, lr_ResourceVersions = crv\<rparr> = Some (list_text tc crv ns)"
    and "Unmarshal (dec_ListNodeResponse tc) (list_text tc crv ns) zero_ListNodeResponse =
      (\<lparr>NodeList = map canon_node ns, lr_ResourceVersions = canon_rvs crv\<rparr>, False)"
proof -
  let ?l = "\<lparr>NodeList = ns, lr_ResourceVersions = crv\<rparr>"
  have ok: "ListNodeResponse_ok tc ?l" using assms by (simp add: ListNodeResponse_ok_def)
  obtain t where "Marshal (enc_ListNodeResponse tc) ?l = Some t"
      "Unmarshal (dec_ListNodeResponse tc) t zero_ListNodeResponse = (canon_ListNodeResponse ?l, False)"
    using list_codec.unmarshal_marshal [OF ok] by blast
  then show "Marshal (enc_ListNodeResponse tc) ?l = Some (list_text tc crv ns)"
    "Unmarshal (dec_ListNodeResponse tc) (list_text tc crv ns) zero_ListNodeResponse =
      (\<lparr>NodeList = map canon_node ns, lr_ResourceVersions = canon_rvs crv\<rparr>, False)"
    by (simp_all add: list_text_def canon_ListNodeResponse_def)
qed

text \<open>Two or more texts after each other are no JSON value: decoding fails and leaves the answer empty.\<close>

lemma list_texts_fail:
  assumes "\<forall>n\<in>set ns. node_ok tc n" "\<forall>n\<in>set ms. node_ok tc n" "rvs_ok crv"
  shows "Unmarshal (dec_ListNodeResponse tc) (list_text tc crv ns @ list_text tc crv ms @ rest) old = (old, True)"
proof (rule list_codec.unmarshal_two [of tc "\<lparr>NodeList = ns, lr_ResourceVersions = crv\<rparr>"
      "\<lparr>NodeList = ms, lr_ResourceVersions = crv\<rparr>"])
  show "Marshal (enc_ListNodeResponse tc) \<lparr>NodeList = ns, lr_ResourceVersions = crv\<rparr> = Some (list_text tc crv ns)"
    "Marshal (enc_ListNodeResponse tc) \<lparr>NodeList = ms, lr_ResourceVersions = crv\<rparr> = Some (list_text tc crv ms)"
    using assms list_text_marshal(1) by blast+
qed (use assms in \<open>simp_all add: ListNodeResponse_ok_def\<close>)

lemma chunk_loop_two:
  assumes "0 < sz" "sz < length nodes"
  obtains c1 c2 cs where "chunk_loop nodes sz 0 = c1 # c2 # cs"
proof -
  have "chunk_loop nodes sz 0 = take sz nodes # chunk_loop nodes sz sz"
    by (subst chunk_loop.simps) (use assms in \<open>auto simp: Let_def\<close>)
  moreover have "\<exists>c2 cs. chunk_loop nodes sz sz = c2 # cs"
    by (subst chunk_loop.simps) (use assms in \<open>simp add: Let_def\<close>)
  ultimately show thesis using that by auto
qed

lemma http_response_200:
  assumes "status_of r = Some 200" "rs_sent r = Some (200, [])"
  shows "hr_Body (http_response tc r) = (concat (map (\<lambda>b. case body_text tc b of Some t \<Rightarrow> t | None \<Rightarrow> '''') (rs_bodies r)), None)"
    and "\<not> snd (checkWait (http_response tc r))"
  using assms(2) by (simp_all add: http_response_def no_retry_header)

text \<open>What the client makes of the answer to a list.\<close>

definition list_answer :: "'d DistributorInterface \<Rightarrow> string \<Rightarrow> int \<Rightarrow> 'd \<Rightarrow> LogicalNode list \<times> TransitResourceVersionMap" where
  "list_answer di ident limit d =
     (case di_ListNodesForClient di (path_id ident) d of
        Inl err \<Rightarrow> ([], [])
      | Inr (nodes, crv) \<Rightarrow>
          if length nodes \<le> max 500 (nat limit) then (map canon_node nodes, canon_rvs crv) else ([], []))"

lemma trunked_answer:
  assumes "\<forall>n\<in>set nodes. node_ok tc n" "rvs_ok crv"
    and r: "rs_sent r = Some (200, [])" "rs_bodies r = []" "rs_isFlusher r" "rs_connected r"
  shows "\<exists>r'. handleResponseTrunked nodes crv limit r = Inr r' \<and> rs_sent r' = Some (200, []) \<and>
    (let (l, failed) = Unmarshal (dec_ListNodeResponse tc) (fst (hr_Body (http_response tc r'))) zero_ListNodeResponse
     in NodeList l = (if length nodes \<le> max 500 (nat limit) then map canon_node nodes else []) \<and>
        lr_ResourceVersions l = (if length nodes \<le> max 500 (nat limit) then canon_rvs crv else []))"
proof (cases "length nodes \<le> trunk_size limit")
  case True
  let ?r' = "r\<lparr>rs_bodies := [ListBody \<lparr>NodeList = nodes, lr_ResourceVersions = crv\<rparr>]\<rparr>"
  have "handleResponseTrunked nodes crv limit r = Inr ?r'"
    using True r by (simp add: handleResponseTrunked_def resp_Write_connected)
  moreover have "fst (hr_Body (http_response tc ?r')) = list_text tc crv nodes"
    using list_text_marshal(1) [OF assms(1,2)] r(1) by (simp add: http_response_def)
  ultimately show ?thesis
    using True list_text_marshal(2) [OF assms(1,2)] r(1) by (simp add: trunk_size_max)
next
  case False
  let ?r1 = "Header_Set ''X-Content-Type-Options'' ''nosniff'' (Header_Set ''Connection'' ''Keep-Alive'' r)"
  let ?cs = "chunk_loop nodes (trunk_size limit) 0"
  have run: "handleResponseTrunked nodes crv limit r = Inr (fold (write_chunk crv) ?cs ?r1)"
    using False r(3) by (simp add: handleResponseTrunked_def Let_def)
  have sz: "0 < trunk_size limit" using trunk_size_bounds(1) [of limit] by simp
  obtain c1 c2 cs where cs: "?cs = c1 # c2 # cs" using chunk_loop_two [OF sz] False by (meson not_le)
  have sub: "set c \<subseteq> set nodes" if "c \<in> set ?cs" for c
    using chunk_loop_concat [OF sz, of nodes 0] that by (metis UN_upper drop0 set_concat)
  have ok: "\<forall>n\<in>set c. node_ok tc n" if "c \<in> set ?cs" for c using sub [OF that] assms(1) by blast
  have bodies: "rs_bodies (fold (write_chunk crv) ?cs ?r1) = map (\<lambda>c. ListBody \<lparr>NodeList = c, lr_ResourceVersions = crv\<rparr>) ?cs"
    using write_chunk_bodies [of ?r1 crv ?cs] r(2,4) by (simp add: Header_Set_def)
  have sent: "rs_sent (fold (write_chunk crv) ?cs ?r1) = Some (200, [])"
    using fold_write_chunk_sent [of ?r1 crv ?cs] r(1) by (simp add: Header_Set_def)
  have one: "(case body_text tc (ListBody \<lparr>NodeList = c, lr_ResourceVersions = crv\<rparr>) of Some t \<Rightarrow> t | None \<Rightarrow> '''') = list_text tc crv c"
    if "c \<in> set ?cs" for c using list_text_marshal(1) [OF ok [OF that] assms(2)] by simp
  have "fst (hr_Body (http_response tc (fold (write_chunk crv) ?cs ?r1))) = concat (map (list_text tc crv) ?cs)"
    using sent bodies one by (simp add: http_response_def comp_def cong: map_cong)
  then have "Unmarshal (dec_ListNodeResponse tc) (fst (hr_Body (http_response tc (fold (write_chunk crv) ?cs ?r1))))
      zero_ListNodeResponse = (zero_ListNodeResponse, True)"
    using list_texts_fail [OF ok ok assms(2), of c1 c2] by (simp add: cs)
  then show ?thesis
    using run sent False by (simp add: zero_ListNodeResponse_def trunk_size_max)
qed

lemma serve_list:
  assumes "mux_laws (sv_mux sv)" "usable_id ident" "int64 (Limit opts)"
    and q: "hq_Method q = ''GET''" "url_Path (hq_URL q) = rooted_path [''resource'', ident]"
      "url_RawQuery (hq_URL q) = values_Encode (list_query ident timeout opts)"
    and ok: "\<forall>nodes crv. di_ListNodesForClient (sv_di sv) (path_id ident) d = Inr (nodes, crv) \<longrightarrow>
      (\<forall>n\<in>set nodes. node_ok (sv_codec sv) n) \<and> rvs_ok crv"
  shows "\<exists>resp. serve sv uuid q d = (Inr resp, d) \<and> \<not> snd (checkWait resp) \<and> snd (hr_Body resp) = None \<and>
    (let (l, failed) = Unmarshal (dec_ListNodeResponse (sv_codec sv)) (fst (hr_Body resp)) zero_ListNodeResponse
     in (NodeList l, lr_ResourceVersions l) = list_answer (sv_di sv) ident (Limit opts) d)"
proof -
  let ?req = "server_request q"
  let ?r1 = "Header_Set ''Content-Type'' ''text/plain'' (WriteHeader 200 (new_response True True))"
  have seg: "segment ident" using assms(2) IsValidPathSegmentName_segment by (auto simp: usable_id_def)
  have route: "sv_mux sv routes (url_Path (hq_URL q)) = Some HandleResource"
    using mux_paths(2) [OF assms(1) seg] q(2) by simp
  have req: "rq_Method ?req = ''GET''" "getClientId ?req = Inr (path_id ident)" "rq_Query ?req ''limit'' = Itoa (Limit opts)"
    using getClientId_path [OF seg, of ?req] list_limit [OF assms(2,3)] q by (simp_all add: server_request_def)
  have r1: "rs_sent ?r1 = Some (200, [])" "rs_bodies ?r1 = []" "rs_isFlusher ?r1" "rs_connected ?r1"
    by (simp_all add: WriteHeader_def new_response_def Header_Set_def gm_empty_def)
  have sent: "\<not> snd (checkWait (http_response (sv_codec sv) r)) \<and> snd (hr_Body (http_response (sv_codec sv) r)) = None"
    if "rs_sent r = Some (200, [])" for r
    using that by (simp add: http_response_def no_retry_header)
  have srv: "serve sv uuid q d = (Inr (http_response (sv_codec sv) r), d)"
    if "handleList (sv_di sv) ?req (path_id ident) (new_response True True) d = Inr r" for r
    using that req by (simp add: serve_def route ResourceHandler_def Let_def)
  have lim: "Itoa (Limit opts) \<noteq> ''''" "Atoi (Itoa (Limit opts)) = Some (Limit opts)"
    using Atoi_Itoa [OF assms(3)] by (auto simp: Itoa_def)
  show ?thesis
  proof (cases "di_ListNodesForClient (sv_di sv) (path_id ident) d")
    case (Inl err)
    then have "handleList (sv_di sv) ?req (path_id ident) (new_response True True) d = Inr ?r1"
      using r1(1) by (simp add: handleList_def Let_def)
    moreover have "Unmarshal (dec_ListNodeResponse (sv_codec sv)) '''' zero_ListNodeResponse = (zero_ListNodeResponse, True)"
      by (simp add: Unmarshal_def parse_json_empty)
    ultimately show ?thesis
      using srv sent [OF r1(1)] http_response_empty [OF r1(2)] Inl by (auto simp: list_answer_def zero_ListNodeResponse_def)
  next
    case (Inr res)
    obtain nodes crv where res: "res = (nodes, crv)" by (cases res)
    then have n: "\<forall>n\<in>set nodes. node_ok (sv_codec sv) n" "rvs_ok crv" using ok Inr by blast+
    obtain r' where r': "handleResponseTrunked nodes crv (Limit opts) ?r1 = Inr r'" "rs_sent r' = Some (200, [])"
        "let (l, failed) = Unmarshal (dec_ListNodeResponse (sv_codec sv)) (fst (hr_Body (http_response (sv_codec sv) r'))) zero_ListNodeResponse
         in NodeList l = (if length nodes \<le> max 500 (nat (Limit opts)) then map canon_node nodes else []) \<and>
            lr_ResourceVersions l = (if length nodes \<le> max 500 (nat (Limit opts)) then canon_rvs crv else [])"
      using trunked_answer [OF n r1, of "Limit opts"] by blast
    have "handleList (sv_di sv) ?req (path_id ident) (new_response True True) d = Inr r'"
      using Inr res lim req(3) r'(1) by (simp add: handleList_def Let_def)
    then show ?thesis
      using srv sent [OF r'(2)] r'(3) Inr res
      by (intro exI [of _ "http_response (sv_codec sv) r'"]) (auto simp: list_answer_def split: prod.splits)
  qed
qed

theorem rms_List_service:
  assumes "DefaultServerURL parse (ServiceUrl cfg) '''' False = Inr url" "NewRmsClient parse cfg = Some c"
    and "base_segments (url_Path url) = []" "mux_laws (sv_mux sv)" "int64 (Limit opts)"
    and "\<forall>nodes crv. di_ListNodesForClient (sv_di sv) (path_id ident) d = Inr (nodes, crv) \<longrightarrow>
      (\<forall>n\<in>set nodes. node_ok (sv_codec sv) n) \<and> rvs_ok crv"
  shows "\<exists>q. rms_List (service_env sv) (sv_codec sv) (c\<lparr>rms_Id := ident\<rparr>) clientId opts (d, sent) =
    Some (Inr (if usable_id ident then list_answer (sv_di sv) ident (Limit opts) d else ([], [])), (d, sent @ [q]))"
proof -
  let ?r = "list_request (c\<lparr>rms_Id := ident\<rparr>) opts" and ?tc = "sv_codec sv"
  note f = list_request_url [OF assms(1,2), of ident opts]
  have start: "at_start ?r" using f(5) by (simp add: at_start_def)
  define q0 where "q0 = http_request ?r (rr_body ?r)"
  have q0: "same_request ?r q0"
    using f(5) by (simp add: q0_def same_request_def http_request_def whole_body_def)
  have srv: "serve sv uuid q d = serve sv uuid q0 d" if "same_request ?r q" for q uuid
    by (rule serve_same) (use that q0 in \<open>simp_all add: same_request_def\<close>)
  have "\<exists>resp. serve sv (sv_uuid sv (length sent)) q0 d = (Inr resp, d) \<and> \<not> snd (checkWait resp) \<and> snd (hr_Body resp) = None \<and>
      (let (l, failed) = Unmarshal (dec_ListNodeResponse ?tc) (fst (hr_Body resp)) zero_ListNodeResponse
       in (NodeList l, lr_ResourceVersions l) =
         (if usable_id ident then list_answer (sv_di sv) ident (Limit opts) d else ([], [])))"
  proof (cases "usable_id ident")
    case True
    then show ?thesis
      using serve_list [OF assms(4) True assms(5) _ _ _ assms(6), of q0 "RequestTimeout cfg"] q0 f(1-3) assms(3)
      by (simp add: same_request_def Request_URL_def)
  next
    case False
    then have "serve sv (sv_uuid sv (length sent)) q0 d = (Inr not_found, d)"
      using q0 f(1) assms(3) mux_paths(3) [OF assms(4)] by (simp add: serve_def same_request_def Let_def)
    moreover have "Unmarshal (dec_ListNodeResponse ?tc) (fst (hr_Body not_found)) zero_ListNodeResponse = (zero_ListNodeResponse, True)"
    proof -
      have "parse_json (fst (hr_Body not_found)) = None" by code_simp
      then show ?thesis by (simp add: Unmarshal_def)
    qed
    ultimately show ?thesis using False
      by (auto simp: not_found_def zero_ListNodeResponse_def checkWait_def)
  qed
  then obtain resp where resp: "serve sv (sv_uuid sv (length sent)) q0 d = (Inr resp, d)" "\<not> snd (checkWait resp)"
      "snd (hr_Body resp) = None"
      "let (l, failed) = Unmarshal (dec_ListNodeResponse ?tc) (fst (hr_Body resp)) zero_ListNodeResponse
       in (NodeList l, lr_ResourceVersions l) =
         (if usable_id ident then list_answer (sv_di sv) ident (Limit opts) d else ([], []))" by blast
  obtain r' q where run: "DoRaw (service_env sv) ?r (d, sent) = Some ((fst (hr_Body resp), None), r', (d, sent @ [q]))"
    using service_DoRaw [OF f(4) start _ resp(2,3), of sv sent d d] srv resp(1) by metis
  obtain l failed where u: "Unmarshal (dec_ListNodeResponse ?tc) (fst (hr_Body resp)) zero_ListNodeResponse = (l, failed)"
    by fastforce
  show ?thesis
    using run u resp(4) by (intro exI [of _ q]) (simp add: rms_List_def)
qed

section \<open>Watches\<close>

text \<open>
  What the client's decoder makes of the text of an answer; \<open>bad\<close> is the error for a text that is no
  JSON value, \<open>mismatch\<close> the one for a value of the wrong type.
\<close>

definition stream_source ::
  "TextCodec \<Rightarrow> net_error \<Rightarrow> net_error \<Rightarrow> HttpResponse \<Rightarrow> (net_error + EventType \<times> LogicalNode option) list" where
  "stream_source tc bad mismatch resp =
     map (\<lambda>v. case v of
            Inr e \<Rightarrow> Inr e
          | Inl StreamEOF \<Rightarrow> Inl IoEOF
          | Inl StreamSyntax \<Rightarrow> Inl bad
          | Inl StreamMismatch \<Rightarrow> Inl mismatch)
       (decode_stream (dec_event tc) ('''', None) (fst (hr_Body resp)))"

definition watch_request :: "'w HttpEnv \<Rightarrow> 'w rmsClient \<Rightarrow> string \<Rightarrow> 'w \<Rightarrow> 'w RestRequest" where
  "watch_request env c body w = Request_Body env (BytesArg body) w (named_request c ''POST'' ''watch'' ''true'')"

lemma rms_Watch_request:
  "rms_Watch env c clientId versions w =
    (case Marshal enc_WatchRequest \<lparr>wr_ResourceVersions = versions\<rparr> of
       None \<Rightarrow> (Inl JsonErr, w)
     | Some body \<Rightarrow> (case Request_Watch env (watch_request env c body w) w of
         (Inl err, w') \<Rightarrow> (Inl (RestErr err), w') | (Inr watcher, w') \<Rightarrow> (Inr watcher, w')))"
  unfolding rms_Watch_def watch_request_def named_request_def rest_Post_def Let_def by (rule refl)

text \<open>An event as the client sees it: its type and its node, with the maps in the order of the text.\<close>

definition sent_event :: "NodeEvent \<Rightarrow> EventType \<times> LogicalNode option" where
  "sent_event e = (ne_Type e, Some (canon_node (ne_Node e)))"

definition deliverable :: "TextCodec \<Rightarrow> NodeEvent \<Rightarrow> bool" where
  "deliverable tc e \<longleftrightarrow> event_ok tc e \<and> stampable e"

lemma event_bodies_text:
  assumes "\<forall>e\<in>set es. event_ok tc e" "rs_sent r = Some (200, h)" "rs_bodies r = map EventBody es"
  shows "stream_source tc bad mismatch (http_response tc r) = map (Inr \<circ> sent_event) es @ [Inl IoEOF]"
proof -
  have "Marshal (enc_event tc) e = Some (the (Marshal (enc_event tc) e))" if "e \<in> set es" for e
  proof -
    have "\<exists>t. Marshal (enc_event tc) e = Some t" using event_codec.unmarshal_marshal assms(1) that by blast
    then show ?thesis by auto
  qed
  then have one: "(case body_text tc (EventBody e) of Some t \<Rightarrow> t | None \<Rightarrow> '''') = the (Marshal (enc_event tc) e) @ [CHR 0x0A]"
    if "e \<in> set es" for e using that by (simp split: option.split) (metis option.sel)
  have "fst (hr_Body (http_response tc r)) = concat (map (\<lambda>e. the (Marshal (enc_event tc) e) @ [CHR 0x0A]) es)"
    using assms(2,3) one by (simp add: http_response_def comp_def cong: map_cong)
  then have "decode_stream (dec_event tc) ('''', None) (fst (hr_Body (http_response tc r))) =
      map (Inr \<circ> (\<lambda>e. (ne_Type e, Some (canon_node (ne_Node e))))) es @ [Inl StreamEOF]"
    using event_codec.stream_values [OF assms(1)] by simp
  then show ?thesis by (simp add: stream_source_def sent_event_def)
qed

lemma watch_param:
  assumes "usable_id ident"
  shows "values_Get (ParseQuery (values_Encode (named_query ident ''watch'' ''true'' timeout))) ''watch'' = ''true''"
proof -
  have "gm_wf (named_query ident ''watch'' ''true'' timeout)"
    by (simp add: named_query_def values_Add_def values_Set_def Let_def)
  then have "values_Get (ParseQuery (values_Encode (named_query ident ''watch'' ''true'' timeout))) ''watch'' =
      values_Get (named_query ident ''watch'' ''true'' timeout) ''watch''" by (rule query_roundtrip)
  then show ?thesis
    using assms by (simp add: named_query_def Let_def values_Get_def values_Add_def values_Set_def gomap_simps)
qed

lemma serve_watch:
  assumes "mux_laws (sv_mux sv)" "usable_id ident" "\<forall>m. versions = Some m \<longrightarrow> rvs_ok m"
    and "Marshal enc_WatchRequest \<lparr>wr_ResourceVersions = versions\<rparr> = Some body"
    and q: "hq_Method q = ''POST''" "url_Path (hq_URL q) = rooted_path [''resource'', ident]"
      "url_RawQuery (hq_URL q) = values_Encode (named_query ident ''watch'' ''true'' timeout)" "hq_Body q = Some body"
    and es: "\<forall>e\<in>set (watched (sv_inputs sv)). deliverable (sv_codec sv) e"
  shows "case di_Watch (sv_di sv) (path_id ident) (map_option canon_rvs versions) True True d of
      Inl err \<Rightarrow> serve sv uuid q d = (Inl (TimeoutErr ''no answer'' True), d)
    | Inr (events, d') \<Rightarrow> \<exists>resp. serve sv uuid q d = (Inr resp, d') \<and> hr_StatusCode resp = 200 \<and>
        (\<forall>bad mismatch. stream_source (sv_codec sv) bad mismatch resp =
          map (Inr \<circ> sent_event) (watched (sv_inputs sv)) @ [Inl IoEOF])"
proof -
  let ?req = "server_request q" and ?di = "sv_di sv" and ?r0 = "new_response True True"
  have seg: "segment ident" using assms(2) IsValidPathSegmentName_segment by (auto simp: usable_id_def)
  have route: "sv_mux sv routes (url_Path (hq_URL q)) = Some HandleResource"
    using mux_paths(2) [OF assms(1) seg] q(2) by simp
  have "WatchRequest_ok \<lparr>wr_ResourceVersions = versions\<rparr>"
    using assms(3) by (simp add: WatchRequest_ok_def split: option.split)
  then have "Unmarshal dec_WatchRequest body zero_WatchRequest = (\<lparr>wr_ResourceVersions = map_option canon_rvs versions\<rparr>, False)"
    using watch_codec.unmarshal_marshal [of "\<lparr>wr_ResourceVersions = versions\<rparr>"] assms(4)
    by (auto simp: canon_WatchRequest_def)
  then have req: "rq_Method ?req = ''POST''" "getClientId ?req = Inr (path_id ident)" "rq_Query ?req ''watch'' = ''true''"
      "getResourceVersionsMap ?req = Inr (map_option canon_rvs versions)"
    using getClientId_path [OF seg, of ?req] watch_param [OF assms(2)] q
    by (simp_all add: server_request_def body_of_def getResourceVersionsMap_def)
  have handled: "ResourceHandler ?di (sv_measure sv) ?req (sv_inputs sv) init_latency_metrics (?r0, d) =
      serverWatch ?di (sv_measure sv) ?req (path_id ident) (sv_inputs sv) init_latency_metrics (?r0, d)"
    using req by (simp add: ResourceHandler_def Let_def)
  show ?thesis
  proof (cases "di_Watch ?di (path_id ident) (map_option canon_rvs versions) True True d")
    case (Inl err)
    then show ?thesis using req(4) by (simp add: serve_def route handled serverWatch_def Let_def)
  next
    case (Inr res)
    obtain events d' where res: "res = (events, d')" by (cases res)
    define r1 where "r1 = Flush (WriteHeader 200 (Header_Set ''Transfer-Encoding'' ''chunked''
      (Header_Set ''Content-Type'' (rq_ContentType ?req) ?r0)))"
    obtain h where r1: "rs_connected r1" "rs_sent r1 = Some (200, h)" "rs_bodies r1 = []"
      by (auto simp: r1_def new_response_def Header_Set_def WriteHeader_def Flush_def)
    have "\<forall>e\<in>set (watched (sv_inputs sv)). stampable e" using es by (simp add: deliverable_def)
    then obtain r2 ms where r2: "watch_loop (sv_measure sv) (sv_inputs sv) r1 init_latency_metrics = Inr (r2, ms)"
        "rs_bodies r2 = map EventBody (watched (sv_inputs sv))" "rs_sent r2 = Some (200, h)"
      using watch_loop_run [OF r1(1,2)] r1(3) by (metis append_Nil)
    have "rs_isFlusher ?r0" by (simp add: new_response_def)
    then have "serverWatch ?di (sv_measure sv) ?req (path_id ident) (sv_inputs sv) init_latency_metrics (?r0, d) =
        Inr (\<lparr>wo_response = r2, wo_metrics = ms, wo_returns = True\<rparr>, d')"
      using req(4) Inr res r2(1) by (simp add: serverWatch_def r1_def [symmetric])
    then have "serve sv uuid q d = (Inr (http_response (sv_codec sv) r2), d')"
      by (simp add: serve_def route handled Let_def)
    moreover have "stream_source (sv_codec sv) bad mismatch (http_response (sv_codec sv) r2) =
        map (Inr \<circ> sent_event) (watched (sv_inputs sv)) @ [Inl IoEOF]" for bad mismatch
      by (rule event_bodies_text [OF _ r2(3,2)]) (use es in \<open>simp add: deliverable_def\<close>)
    moreover have "hr_StatusCode (http_response (sv_codec sv) r2) = 200" using r2(3) by (simp add: http_response_def)
    ultimately show ?thesis using Inr res by auto
  qed
qed

lemma watch_request_facts:
  fixes env body w ident
  assumes "DefaultServerURL parse (ServiceUrl cfg) '''' False = Inr url" "NewRmsClient parse cfg = Some c"
    and "usable_id ident"
  defines "r \<equiv> watch_request env (c\<lparr>rms_Id := ident\<rparr>) body w"
  shows "url_Path (Request_URL r) = rooted_path (base_segments (url_Path url) @ [''resource'', ident])"
    and "url_RawQuery (Request_URL r) = values_Encode (named_query ident ''watch'' ''true'' (RequestTimeout cfg))"
    and "rr_verb r = ''POST''" "rr_err r = None" "rr_body r = Some (NewReader body)"
proof -
  let ?n = "named_request (c\<lparr>rms_Id := ident\<rparr>) ''POST'' ''watch'' ''true''"
  note f = named_request_url [OF assms(1,2), of ident "''POST''" "''watch''" "''true''"]
  have r: "r = ?n\<lparr>rr_body := Some (NewReader body)\<rparr>"
    using f(6) assms(3) by (simp add: r_def watch_request_def Request_Body_def)
  then have u: "Request_URL r = Request_URL ?n" by simp
  show "url_Path (Request_URL r) = rooted_path (base_segments (url_Path url) @ [''resource'', ident])"
    using f(1) assms(3) by (simp add: u)
  show "url_RawQuery (Request_URL r) = values_Encode (named_query ident ''watch'' ''true'' (RequestTimeout cfg))"
    unfolding u using f(2) by (simp add: Request_URL_def)
  show "rr_verb r = ''POST''" "rr_err r = None" "rr_body r = Some (NewReader body)"
    using f(3,6) assms(3) by (simp_all add: r)
qed

theorem rms_Watch_service:
  assumes "DefaultServerURL parse (ServiceUrl cfg) '''' False = Inr url" "NewRmsClient parse cfg = Some c"
    and "base_segments (url_Path url) = []" "mux_laws (sv_mux sv)" "\<forall>m. versions = Some m \<longrightarrow> rvs_ok m"
    and "\<forall>e\<in>set (watched (sv_inputs sv)). deliverable (sv_codec sv) e" and "usable_id ident"
  shows "\<exists>q. case di_Watch (sv_di sv) (path_id ident) (map_option canon_rvs versions) True True d of
      Inl err \<Rightarrow> rms_Watch (service_env sv) (c\<lparr>rms_Id := ident\<rparr>) clientId versions (d, sent) = (Inr EmptyWatch, (d, sent @ [q]))
    | Inr (events, d') \<Rightarrow> \<exists>resp.
        rms_Watch (service_env sv) (c\<lparr>rms_Id := ident\<rparr>) clientId versions (d, sent) = (Inr (StreamWatch resp), (d', sent @ [q])) \<and>
        (\<forall>bad mismatch. stream_source (sv_codec sv) bad mismatch resp =
          map (Inr \<circ> sent_event) (watched (sv_inputs sv)) @ [Inl IoEOF])"
proof -
  let ?env = "service_env sv" and ?c = "c\<lparr>rms_Id := ident\<rparr>"
  have "WatchRequest_ok \<lparr>wr_ResourceVersions = versions\<rparr>"
    using assms(5) by (simp add: WatchRequest_ok_def split: option.split)
  then obtain body where body: "Marshal enc_WatchRequest \<lparr>wr_ResourceVersions = versions\<rparr> = Some body"
    using watch_codec.unmarshal_marshal by blast
  define r where "r = watch_request ?env ?c body (d, sent)"
  note f = watch_request_facts [OF assms(1,2,7), of ?env body "(d, sent)", folded r_def]
  define q where "q = http_request r (rr_body r)"
  have q: "hq_Method q = ''POST''" "url_Path (hq_URL q) = rooted_path [''resource'', ident]"
      "url_RawQuery (hq_URL q) = values_Encode (named_query ident ''watch'' ''true'' (RequestTimeout cfg))" "hq_Body q = Some body"
    using f assms(3) by (simp_all add: q_def http_request_def NewReader_def)
  note s = serve_watch [OF assms(4,7,5) body q assms(6), where d = d and uuid = "sv_uuid sv (length sent)"]
  have w: "Request_Watch ?env r (d, sent) =
      (let (out, d') = serve sv (sv_uuid sv (length sent)) q d in
       case out of
         Inl err \<Rightarrow> if IsProbableEOF (Some err) \<or> IsTimeout err then (Inr EmptyWatch, (d', sent @ [q]))
           else (Inl (TransportError err), (d', sent @ [q]))
       | Inr resp \<Rightarrow>
           if hr_StatusCode resp \<noteq> 200
           then (case res_err (transformResponse r resp) of
                   Some err \<Rightarrow> (Inl err, (d', sent @ [q]))
                 | None \<Rightarrow> (Inl (GotStatus (Request_URL r) (hr_StatusCode resp)), (d', sent @ [q])))
           else (Inr (StreamWatch resp), (d', sent @ [q])))"
    using f(4) by (simp add: Request_Watch_def service_env_def q_def [symmetric] Let_def split: prod.split sum.split option.split)
  have run: "rms_Watch ?env ?c clientId versions (d, sent) =
      (case Request_Watch ?env r (d, sent) of (Inl err, w') \<Rightarrow> (Inl (RestErr err), w') | (Inr watcher, w') \<Rightarrow> (Inr watcher, w'))"
    by (simp add: rms_Watch_request body r_def)
  have to: "IsTimeout (TimeoutErr ''no answer'' True)" by (simp add: IsTimeout_def)
  show ?thesis
  proof (cases "di_Watch (sv_di sv) (path_id ident) (map_option canon_rvs versions) True True d")
    case (Inl err)
    then show ?thesis using s to by (intro exI [of _ q]) (simp add: run w)
  next
    case (Inr res)
    obtain events d' where res: "res = (events, d')" by (cases res)
    obtain resp where "serve sv (sv_uuid sv (length sent)) q d = (Inr resp, d')" "hr_StatusCode resp = 200"
        "\<forall>bad mismatch. stream_source (sv_codec sv) bad mismatch resp =
          map (Inr \<circ> sent_event) (watched (sv_inputs sv)) @ [Inl IoEOF]"
      using s Inr res by auto
    then show ?thesis using Inr res by (intro exI [of _ q]) (simp add: run w)
  qed
qed

section \<open>The flags\<close>

lemma TrimLeft_comma_id: "s = '''' \<or> hd s \<noteq> CHR '','' \<Longrightarrow> TrimLeft_comma s = s"
  by (cases s) (auto simp: TrimLeft_comma_def)

text \<open>Urls joined with commas, with any commas before and after them, are read back.\<close>

lemma trimmed_urls:
  assumes "us \<noteq> []" "\<forall>u\<in>set us. u \<noteq> '''' \<and> CHR '','' \<notin> set u" "set pre \<subseteq> {CHR '',''}" "set post \<subseteq> {CHR '',''}"
  shows "TrimRight_comma (TrimLeft_comma (pre @ join_with '','' us @ post)) = join_with '','' us"
proof -
  let ?j = "join_with '','' us"
  have left: "dropWhile (\<lambda>c. c = CHR '','') (cs @ t) = t"
    if "set cs \<subseteq> {CHR '',''}" "t \<noteq> []" "hd t \<noteq> CHR '',''" for cs t :: string
    using that by (induction cs) (auto simp: neq_Nil_conv)
  have ends: "?j \<noteq> [] \<and> hd ?j \<noteq> CHR '','' \<and> last ?j \<noteq> CHR '',''"
    using assms(1,2)
  proof (induction us rule: induct_list012)
    case (2 x)
    then show ?case by (metis hd_in_set join_with.simps(2) last_in_set list.set_intros(1))
  next
    case (3 x y zs)
    then have "x \<noteq> []" "hd x \<noteq> CHR '',''" by (metis hd_in_set list.set_intros(1))+
    moreover have "join_with '','' (y # zs) \<noteq> []" "last (join_with '','' (y # zs)) \<noteq> CHR '',''" using 3 by auto
    ultimately show ?case by simp
  qed simp
  have "TrimLeft_comma (pre @ ?j @ post) = ?j @ post"
    unfolding TrimLeft_comma_def using left [OF assms(3), of "?j @ post"] ends by simp
  moreover have "TrimRight_comma (?j @ post) = ?j"
    unfolding TrimRight_comma_def rev_append
    using left [of "rev post" "rev ?j"] assms(4) ends by (simp add: hd_rev)
  ultimately show ?thesis by simp
qed

lemma main_config_urls:
  assumes "us \<noteq> []" "\<forall>u\<in>set us. u \<noteq> '''' \<and> CHR '','' \<notin> set u" "set pre \<subseteq> {CHR '',''}" "set post \<subseteq> {CHR '',''}"
  shows "main_config ip port (pre @ join_with '','' us @ post) frequency enabled =
    Some (\<lparr>ResourceUrls = us, MasterIp = ip, MasterPort = port, EventMetricsDumpFrequency = frequency\<rparr>, enabled)"
proof -
  obtain u ss where "us = u # ss" "u \<noteq> ''''" using assms(1,2) by (cases us) auto
  then have "join_with '','' us \<noteq> ''''" by (cases ss) auto
  moreover have "Split (join_with '','' us) '','' = us" using Split_join_with [of us "CHR '',''"] assms(1,2) by simp
  moreover have "'''' \<notin> set us" using assms(2) by blast
  ultimately show ?thesis using trimmed_urls [OF assms] by (simp add: main_config_def Let_def)
qed

end
