(* ===== verification/GRS_System.thy ===== *)
theory GRS_System
  imports GRS_Server
begin

text \<open>
  The SDK, the service and the distributor together: what a client that has registered gets when it
  lists its nodes. The transport is the one of \<open>GRS_Server\<close>, the distributor the one of the code.
\<close>

text \<open>The text of a uuid, as \<open>uuid.New().String()\<close> gives it: hexadecimal digits and dashes.\<close>

definition uuid_text :: "string \<Rightarrow> bool" where
  "uuid_text s \<longleftrightarrow> s \<noteq> '''' \<and> set s \<subseteq> set ''0123456789abcdef-''"

lemma client_id_usable:
  assumes "uuid_text u"
  shows "ascii u" "usable_id (''Client-'' @ u)" "path_id (''Client-'' @ u) = ''Client-'' @ u"
proof -
  have c: "c \<in> set ''0123456789abcdef-''" if "c \<in> set u" for c using that assms unfolding uuid_text_def by blast
  have "\<forall>c\<in>set ''0123456789abcdef-''. byte_of c < 128 \<and> c \<noteq> CHR ''?'' \<and> c \<noteq> CHR ''/'' \<and> c \<noteq> CHR ''%''"
    by (simp add: byte_of_def)
  then have plain: "byte_of c < 128 \<and> c \<noteq> CHR ''?'' \<and> c \<noteq> CHR ''/'' \<and> c \<noteq> CHR ''%''" if "c \<in> set u" for c
    using c [OF that] by blast
  show "ascii u" using plain by (simp add: ascii_def)
  have "CHR ''/'' \<notin> set (''Client-'' @ u)" "CHR ''%'' \<notin> set (''Client-'' @ u)" "CHR ''?'' \<notin> set (''Client-'' @ u)"
    using plain by auto
  then show "usable_id (''Client-'' @ u)" "path_id (''Client-'' @ u) = ''Client-'' @ u"
    by (auto simp: usable_id_def IsValidPathSegmentName_def NameMayNotBe_def NameMayNotContain_def str_contains_char
        path_id_def takeWhile_eq_all_conv)
qed

section \<open>Lists of the distributor can be sent\<close>

definition nodes_ok :: "TextCodec \<Rightarrow> 's Distributor \<Rightarrow> bool" where
  "nodes_ok tc dis \<longleftrightarrow>
     (\<forall>vs\<in>set (vNodeStores (defaultNodeStore dis)). \<forall>(k, e)\<in>set (nodeEventByHash vs).
        node_ok tc (ne_Node (nodeEvent e)) \<and> RvLocation_ok (GetRvLocation e))"

lemma list_wf: "ListNodesForClient ordN ordR c dis = Inr (nodes, rvs) \<Longrightarrow> gm_wf rvs"
proof -
  assume "ListNodesForClient ordN ordR c dis = Inr (nodes, rvs)"
  then obtain ms where "rvs = combine_rvs ordR ms"
    by (auto simp: ListNodesForClient_def Let_def split: if_splits option.splits)
  then have rvs: "rvs = fold (\<lambda>(l, rv). keep_newest_rv l rv) (concat (map ordR ms)) gm_empty" by (simp add: combine_rvs_flat)
  have "gm_wf (fold (\<lambda>(l, rv). keep_newest_rv l rv) xs m)" if "gm_wf m" for xs :: "(RvLocation \<times> uint64) list" and m
    using that by (induction xs arbitrary: m) auto
  then show ?thesis by (simp add: rvs)
qed

lemma list_sendable:
  assumes ord: "range_order ordN" "range_order ordR" and ok: "nodes_ok tc dis"
    and list: "ListNodesForClient ordN ordR c dis = Inr (nodes, rvs)"
    and ss: "gm_get (clientToStores dis) c = Some ss" "set ss \<subseteq> {..<length (vNodeStores (defaultNodeStore dis))}"
  shows "\<forall>n\<in>set nodes. node_ok tc n" "rvs_ok rvs"
proof -
  have ev: "node_ok tc (ne_Node (nodeEvent e)) \<and> RvLocation_ok (GetRvLocation e)" if "e \<in> client_events dis ss" for e
    using that ok ss(2) by (fastforce simp: client_events_def nodes_ok_def virtual_store_def)
  have snap: "set (fst (SnapShot ordN vs)) = (\<lambda>e. ne_Node (nodeEvent e)) ` snd ` set (nodeEventByHash vs)" for vs
    using arg_cong [OF SnapShot_nodes [OF ord(1), of vs], of set_mset] by (simp add: image_image)
  have "nodes = concat (map (\<lambda>i. fst (SnapShot ordN (virtual_store dis i))) ss)"
    using list ss by (auto simp: ListNodesForClient_def Let_def comp_def split: if_splits option.splits)
  then have "set nodes = (\<lambda>e. ne_Node (nodeEvent e)) ` client_events dis ss"
    by (simp add: snap client_events_def image_UN)
  then show "\<forall>n\<in>set nodes. node_ok tc n" using ev by auto
  have "RvLocation_ok l" if "(l, v) \<in> set rvs" for l v
  proof -
    have "gm_get rvs l = Some v" using that list_wf [OF list] by (simp add: gm_in_iff)
    then have "newest_rv (client_events dis ss) l = Some v" using ListNodes_rvs [OF ord list ss(1)] by simp
    then obtain e where "e \<in> client_events dis ss" "GetRvLocation e = l" by (auto simp: newest_rv_Some)
    then show ?thesis using ev by auto
  qed
  then show "rvs_ok rvs" using list_wf [OF list] by (auto simp: rvs_ok_def)
qed

section \<open>Registering, then listing\<close>

text \<open>The nodes kept in the stores of a client, and how many they are.\<close>

definition client_nodes :: "'s Distributor \<Rightarrow> nat list \<Rightarrow> LogicalNode multiset" where
  "client_nodes dis ss =
     sum_list (map (\<lambda>i. image_mset (\<lambda>kv. ne_Node (nodeEvent (snd kv))) (mset (nodeEventByHash (virtual_store dis i)))) ss)"

lemma RegisterClient_granted:
  assumes "RegisterClient si ordS ordN client d = (None, d')" "range_order ordS" "ClientId client \<noteq> ''''" "nodes_ok tc d"
  obtains ss q where "gm_get (clientToStores d') (ClientId client) = Some ss"
    "gm_get (nodeEventQueueMap d') (ClientId client) = Some q"
    "set ss \<subseteq> {..<length (vNodeStores (defaultNodeStore d'))}" "nodes_ok tc d'"
    "TotalMachines (Resource client) \<le> int (size (client_nodes d' ss))"
proof -
  let ?c = "ClientId client"
  obtain n d1 where a: "allocateNodesToClient si ordS ordN ?c (TotalMachines (Resource client)) d = Inr (n, d1)"
      "clientToStores d' = clientToStores d1" "nodeEventQueueMap d' = nodeEventQueueMap d1"
      "defaultNodeStore d' = defaultNodeStore d1"
    using assms(1) by (auto simp: RegisterClient_def Let_def split: sum.splits prod.splits option.splits)
  obtain ss q s' where s: "50 < TotalMachines (Resource client)"
      "select_stores (\<lambda>i. GetHostNum (virtual_store d i)) (TotalMachines (Resource client)) (ordS (free_stores d)) [] 0 = (ss, n, True)"
      "d1 = d\<lparr>dis_queues := dis_queues d @ [q],
        nodeEventQueueMap := gm_put ?c (length (dis_queues d)) (nodeEventQueueMap d),
        defaultNodeStore := fold (assign_store ?c (length (dis_queues d))) ss (defaultNodeStore d),
        clientToStores := gm_put ?c ss (clientToStores d), dis_store := s'\<rparr>"
    by (rule allocate_Inr [OF a(1)])
  have pos: "0 < TotalMachines (Resource client)" using s(1) by simp
  note sel = selected_free [OF assms(2) pos s(2)]
  have free: "\<forall>i\<in>set ss. vs_clientId (vNodeStores (defaultNodeStore d) ! i) = ''''"
      "set ss \<subseteq> {..<length (vNodeStores (defaultNodeStore d))}"
    using sel(2) by (auto simp: free_stores_def virtual_store_def GetAssignedClient_def)
  have len: "length (vNodeStores (defaultNodeStore d')) = length (vNodeStores (defaultNodeStore d))"
    using a(4) s(3) by simp
  have kept: "nodeEventByHash (vNodeStores (defaultNodeStore d') ! j) = nodeEventByHash (vNodeStores (defaultNodeStore d) ! j)"
    if "j < length (vNodeStores (defaultNodeStore d))" for j
    using fold_assign_nth [OF sel(1) assms(3) that free(1)] a(4) s(3) by (simp add: assigned_to_def)
  have "\<forall>vs\<in>set (vNodeStores (defaultNodeStore d')). \<exists>vs'\<in>set (vNodeStores (defaultNodeStore d)).
      nodeEventByHash vs = nodeEventByHash vs'"
    using kept len by (metis in_set_conv_nth)
  then have ok: "nodes_ok tc d'" using assms(4) unfolding nodes_ok_def by metis
  have "size (client_nodes d' ss) = sum_list (map (\<lambda>i. GetHostNum (virtual_store d i)) ss)"
    unfolding client_nodes_def using free(2) kept
    by (induction ss) (auto simp: GetHostNum_def gm_len_def virtual_store_def)
  then have "TotalMachines (Resource client) \<le> int (size (client_nodes d' ss))" using sel(3,4) by simp
  then show thesis using that [of ss "length (dis_queues d)"] a s(3) free(2) len ok by (simp add: gomap_simps)
qed

lemma registered_lists:
  assumes "DefaultServerURL parse (ServiceUrl cfg) '''' False = Inr url" "NewRmsClient parse cfg = Some c"
    and "base_segments (url_Path url) = []" "mux_laws (sv_mux sv)" "config_ok cfg" "int64 (Limit opts)"
    and di: "sv_di sv = distributor si ordS ordN ordT ordR ordQ en now" "range_order ordS" "range_order ordN" "range_order ordT"
    and d: "nodes_ok (sv_codec sv) d" "uuid_text (sv_uuid sv (length sent))"
    and reg: "rms_Register (service_env sv) c (d, sent) = Some (Inr ret, (d', sent'))"
  shows "\<exists>ss ns crv q. gm_get (clientToStores d') (crs_ClientId ret) = Some ss \<and>
    InitialRequestTotalMachines cfg \<le> int (size (client_nodes d' ss)) \<and>
    rms_List (service_env sv) (sv_codec sv) (c\<lparr>rms_Id := crs_ClientId ret\<rparr>) clientId opts (d', sent') =
      Some (Inr (ns, crv), (d', sent' @ [q])) \<and>
    (if int (size (client_nodes d' ss)) \<le> max 500 (Limit opts)
     then mset ns = image_mset canon_node (client_nodes d' ss) \<and>
       (\<forall>l. gm_get crv l = newest_rv (client_events d' ss) l)
     else ns = [] \<and> crv = [])"
proof -
  define cl where "cl = registered_client cfg (sv_uuid sv (length sent))"
  have cl: "ClientId cl = ''Client-'' @ sv_uuid sv (length sent)" "TotalMachines (Resource cl) = InitialRequestTotalMachines cfg"
    by (simp_all add: cl_def registered_client_def registration_request_def Preserve_Client_KeyPrefix_def)
  note id = client_id_usable [OF d(2), folded cl(1)]
  obtain q0 where r: "rms_Register (service_env sv) c (d, sent) =
    Some (if InitialRequestTotalMachines cfg < 1000 \<or> 50000 < InitialRequestTotalMachines cfg then (Inl JsonErr, (d, sent @ [q0]))
      else case di_RegisterClient (sv_di sv) cl d of
          (None, d') \<Rightarrow> (Inr \<lparr>crs_ClientId = ClientId cl, GrantedResource = Resource cl\<rparr>, (d', sent @ [q0]))
        | (Some err, d') \<Rightarrow> (Inl JsonErr, (d', sent @ [q0])))"
    using rms_Register_service [where sv = sv and d = d, OF assms(1-5) id(1)] unfolding cl_def by blast
  have rc: "RegisterClient si ordS ordN cl d = (None, d')" "crs_ClientId ret = ClientId cl"
    using r reg by (auto simp: di(1) distributor_def split: if_splits prod.splits option.splits)
  have ne: "ClientId cl \<noteq> ''''" by (simp add: cl(1))
  obtain ss q where g: "gm_get (clientToStores d') (ClientId cl) = Some ss" "gm_get (nodeEventQueueMap d') (ClientId cl) = Some q"
      "set ss \<subseteq> {..<length (vNodeStores (defaultNodeStore d'))}" "nodes_ok (sv_codec sv) d'"
      "InitialRequestTotalMachines cfg \<le> int (size (client_nodes d' ss))"
    by (rule RegisterClient_granted [OF rc(1) di(2) ne d(1), unfolded cl(2)])
  obtain nodes rvs where l: "ListNodesForClient ordN ordT (ClientId cl) d' = Inr (nodes, rvs)"
    using ne g(1,2) by (auto simp: ListNodesForClient_def Let_def)
  have ms: "mset nodes = client_nodes d' ss"
    using ListNodes_nodes [OF di(3) l g(1)] by (simp add: client_nodes_def)
  then have len: "length nodes = size (client_nodes d' ss)" by (metis size_mset)
  note sendable = list_sendable [OF di(3,4) g(4) l g(1,3)]
  have "\<forall>nodes crv. di_ListNodesForClient (sv_di sv) (path_id (ClientId cl)) d' = Inr (nodes, crv) \<longrightarrow>
      (\<forall>n\<in>set nodes. node_ok (sv_codec sv) n) \<and> rvs_ok crv"
    using l sendable id(3) by (simp add: di(1) distributor_def)
  from rms_List_service [OF assms(1-4,6) this] obtain q where
    "rms_List (service_env sv) (sv_codec sv) (c\<lparr>rms_Id := ClientId cl\<rparr>) clientId opts (d', sent') =
      Some (Inr (list_answer (sv_di sv) (ClientId cl) (Limit opts) d'), (d', sent' @ [q]))"
    using id(2) by auto
  moreover have "list_answer (sv_di sv) (ClientId cl) (Limit opts) d' =
      (if length nodes \<le> max 500 (nat (Limit opts)) then (map canon_node nodes, canon_rvs rvs) else ([], []))"
    using l id(3) by (simp add: list_answer_def di(1) distributor_def)
  moreover have "length nodes \<le> max 500 (nat (Limit opts)) \<longleftrightarrow> int (size (client_nodes d' ss)) \<le> max 500 (Limit opts)"
    unfolding len by linarith
  moreover have "gm_get (canon_rvs rvs) l = newest_rv (client_events d' ss) l" for l
    using ListNodes_rvs [OF di(3,4) l g(1)] list_wf [OF l] by (simp add: canon_rvs_def)
  moreover have "mset (map canon_node nodes) = image_mset canon_node (client_nodes d' ss)" by (simp flip: ms)
  ultimately show ?thesis
    using g(1,5) rc(2)
    by (intro exI [of _ ss] exI [of _ "if length nodes \<le> max 500 (nat (Limit opts)) then map canon_node nodes else []"]
        exI [of _ "if length nodes \<le> max 500 (nat (Limit opts)) then canon_rvs rvs else []"] exI [of _ q]) simp
qed

section \<open>The status of a node\<close>

text \<open>
  The template of the path ends with a question mark, which for the router is a character of the
  path: a query string after \<open>/nodes\<close> does not match it.
\<close>

lemma serve_nodes:
  assumes "mux_laws (sv_mux sv)" "hq_Method q = ''GET''"
  shows "url_Path (hq_URL q) = ''/nodes'' \<Longrightarrow> serve sv uuid q d = (Inr not_found, d)"
    and "url_Path (hq_URL q) = ''/nodes?'' \<Longrightarrow> serve sv uuid q d = (Inr resp, d') \<Longrightarrow> hr_StatusCode resp = 200 \<and> d' = d"
proof -
  note r = mux_paths(4,5) [OF assms(1), unfolded rooted_path_def join_with.simps]
  show "serve sv uuid q d = (Inr not_found, d)" if "url_Path (hq_URL q) = ''/nodes''"
    using that r(1) by (simp add: serve_def Let_def)
  assume p: "url_Path (hq_URL q) = ''/nodes?''" and s: "serve sv uuid q d = (Inr resp, d')"
  obtain r' where r': "NodeHandler (sv_di sv) (server_request q) (new_response True True) d = Inr r'"
      "resp = http_response (sv_codec sv) r'" "d' = d"
    using s p r(2) by (auto simp: serve_def Let_def split: sum.splits)
  have "status_of r' = Some 200"
    by (rule NodeHandler_status [OF _ _ r'(1)]) (simp_all add: server_request_def assms(2) new_response_def)
  then show "hr_StatusCode resp = 200 \<and> d' = d"
    using r'(2,3) by (auto simp: status_of_def http_response_def)
qed

end
