(* ===== verification/GRS_Run.thy ===== *)
theory GRS_Run
  imports GRS_System GRS_Aggregator GRS_Batch GRS_Redis
begin

text \<open>
  \<open>Run\<close> of \<open>cmds/service-api/app/server.go\<close>: the whole process. The HTTP server, one goroutine per
  region manager and the metrics report share the distributor and run interleaved; one action of a
  goroutine or one request is a step. A panic in a goroutine of the aggregator ends the process;
  net/http recovers those of handlers, as \<open>serve\<close> has it.
\<close>

section \<open>The process\<close>

text \<open>\<open>pr_crashed\<close>: the panic that ended the process. \<open>pr_served\<close> counts the requests, so that each has its own uuid.\<close>

record 'd process =
  pr_aggregator :: "'d Aggregator"
  pr_metrics :: LatencyMetricsAllCheckpoints
  pr_served :: nat
  pr_reports :: "(Checkpoint \<Rightarrow> LatencyReport) list"
  pr_crashed :: "GoError option"

abbreviation pr_dist :: "'d process \<Rightarrow> 'd" where
  "pr_dist s \<equiv> ag_dist (pr_aggregator s)"

text \<open>\<open>None\<close>: the process ends before it serves, as Redis cannot be flushed.\<close>

definition Run :: "'s RedisClient \<Rightarrow> ServerConfig \<Rightarrow> 's \<Rightarrow> 's Distributor process option" where
  "Run rc c s =
     (case NewRedisClient rc s of
        None \<Rightarrow> None
      | Some store \<Rightarrow>
          (case GetResourceDistributor () of
             Inl err \<Rightarrow> None
           | Inr dis \<Rightarrow>
               Some \<lparr>pr_aggregator = NewAggregator (ResourceUrls c) (SetPersistHelper store dis),
                 pr_metrics = init_latency_metrics, pr_served = 0, pr_reports = [], pr_crashed = None\<rparr>))"

text \<open>The next action of goroutine \<open>i\<close> of the aggregator, with what the network would answer.\<close>

definition loop_action ::
  "'d DistributorInterface \<Rightarrow> transit_order \<Rightarrow> bool \<Rightarrow> (nat \<Rightarrow> nat \<Rightarrow> go_time) \<Rightarrow>
     (RrmRequest \<Rightarrow> pull_outcome) \<Rightarrow> nat \<Rightarrow> 'd Aggregator \<Rightarrow> 'd Aggregator result" where
  "loop_action di ord enabled now net i a =
     (let p = ag_loops a ! i;
          send = (\<lambda>(reqs, p'). Inr (a\<lparr>ag_loops := (ag_loops a)[i := p'], ag_sent := ag_sent a @ reqs\<rparr>))
      in case pl_phase p of
           Pulling \<Rightarrow> send (pull_action ord enabled now net p)
         | Processing es \<Rightarrow>
             (case process_action di es (p, ag_dist a) of
                Inl err \<Rightarrow> Inl err
              | Inr (p', d') \<Rightarrow> Inr (a\<lparr>ag_dist := d', ag_loops := (ag_loops a)[i := p']\<rparr>))
         | Posting \<Rightarrow> send (post_action ord p))"

text \<open>What a watch adds to the latency metrics; other requests leave them alone.\<close>

definition served_metrics ::
  "'d service \<Rightarrow> HttpRequest \<Rightarrow> 'd \<Rightarrow> LatencyMetricsAllCheckpoints \<Rightarrow> LatencyMetricsAllCheckpoints" where
  "served_metrics sv q d ms =
     (if sv_mux sv routes (url_Path (hq_URL q)) = Some HandleResource then
        (case ResourceHandler (sv_di sv) (sv_measure sv) (server_request q) (sv_inputs sv) ms
                (new_response True True, d) of
           Inl err \<Rightarrow> ms
         | Inr (out, d') \<Rightarrow> wo_metrics out)
      else ms)"

text \<open>
  The goroutine of a watch clears the channel of its queue when it takes the stop that the handler sends on
  its return. \<open>serve\<close> runs a watch to its end, so that the stop of every accepted watch is still to come.
\<close>

definition stop_watching :: "nat \<Rightarrow> 's Distributor \<Rightarrow> 's Distributor" where
  "stop_watching q d = d\<lparr>dis_queues := (dis_queues d)[q := (dis_queues d ! q)\<lparr>watchChan := None\<rparr>]\<rparr>"

text \<open>\<open>answers\<close> says what region managers may answer. The report runs only with measurement enabled.\<close>

inductive run_step ::
  "'s Distributor service \<Rightarrow> transit_order \<Rightarrow> ((RrmRequest \<Rightarrow> pull_outcome) \<Rightarrow> bool) \<Rightarrow>
     's Distributor process \<Rightarrow> 's Distributor process \<Rightarrow> bool"
  for sv ord answers where
  aggregate:
    "pr_crashed s = None \<Longrightarrow> i < length (ag_loops (pr_aggregator s)) \<Longrightarrow> answers net \<Longrightarrow>
     loop_action (sv_di sv) ord (sv_measure sv) now net i (pr_aggregator s) = Inr a \<Longrightarrow>
     run_step sv ord answers s (s\<lparr>pr_aggregator := a\<rparr>)"
| crash:
    "pr_crashed s = None \<Longrightarrow> i < length (ag_loops (pr_aggregator s)) \<Longrightarrow> answers net \<Longrightarrow>
     loop_action (sv_di sv) ord (sv_measure sv) now net i (pr_aggregator s) = Inl err \<Longrightarrow>
     run_step sv ord answers s (s\<lparr>pr_crashed := Some err\<rparr>)"
| request:
    "pr_crashed s = None \<Longrightarrow> serve (sv\<lparr>sv_inputs := inputs\<rparr>) (sv_uuid sv (pr_served s)) q (pr_dist s) = (out, d) \<Longrightarrow>
     run_step sv ord answers s
       (s\<lparr>pr_aggregator := (pr_aggregator s)\<lparr>ag_dist := d\<rparr>, pr_served := pr_served s + 1,
          pr_metrics := served_metrics (sv\<lparr>sv_inputs := inputs\<rparr>) q (pr_dist s) (pr_metrics s)\<rparr>)"
| stop_watch:
    "pr_crashed s = None \<Longrightarrow> q < length (dis_queues (pr_dist s)) \<Longrightarrow>
     watchChan (dis_queues (pr_dist s) ! q) \<noteq> None \<Longrightarrow>
     run_step sv ord answers s
       (s\<lparr>pr_aggregator := (pr_aggregator s)\<lparr>ag_dist := stop_watching q (pr_dist s)\<rparr>\<rparr>)"
| report:
    "pr_crashed s = None \<Longrightarrow> sv_measure sv \<Longrightarrow> PrintLatencyReport (pr_metrics s) = (r, ms) \<Longrightarrow>
     run_step sv ord answers s (s\<lparr>pr_metrics := ms, pr_reports := pr_reports s @ [r]\<rparr>)"

abbreviation run_reach where
  "run_reach sv ord answers \<equiv> (run_step sv ord answers)\<^sup>*\<^sup>*"

section \<open>What a request does to the distributor\<close>

lemma map_sum_Inr: "map_sum f g x = Inr y \<longleftrightarrow> (\<exists>z. x = Inr z \<and> y = g z)"
  by (cases x) auto

text \<open>A request changes the distributor by at most one registration or one watch.\<close>

lemma serve_cases:
  assumes "serve sv uuid q d = (out, d')"
  obtains (same) "d' = d"
    | (registered) client err where "ClientId client \<noteq> ''''" "di_RegisterClient (sv_di sv) client d = (err, d')"
    | (watching) c rvs events where "di_Watch (sv_di sv) c rvs True True d = Inr (events, d')"
proof -
  let ?di = "sv_di sv" and ?r = "new_response True True" and ?q = "server_request q"
  have h: "Some HandleClient = sv_mux sv routes (url_Path (hq_URL q)) \<Longrightarrow> thesis"
  proof -
    assume m: "Some HandleClient = sv_mux sv routes (url_Path (hq_URL q))"
    then have "snd (ClientAdministrationHandler ?di uuid ?q (?r, d)) = d'"
      using assms by (simp add: serve_def m [symmetric] Let_def split: prod.splits)
    moreover have "thesis"
      if "di_RegisterClient ?di \<lparr>ClientId = Preserve_Client_KeyPrefix @ CHR ''-'' # uuid, ClientInfo = ci, Resource = res\<rparr> d =
        (err, d')" for ci res err
      using registered [OF _ that] by simp
    ultimately show thesis
      using same
      unfolding ClientAdministrationHandler_def handleClientRegistration_def handleClientUnRegistration_def
      by (auto simp: Let_def split: if_splits body_outcome.splits prod.splits option.splits)
  qed
  have w: "Some HandleResource = sv_mux sv routes (url_Path (hq_URL q)) \<Longrightarrow> thesis"
  proof -
    assume m: "Some HandleResource = sv_mux sv routes (url_Path (hq_URL q))"
    then have "d' = d \<or> (\<exists>o'. ResourceHandler ?di (sv_measure sv) ?q (sv_inputs sv) init_latency_metrics (?r, d) = Inr (o', d'))"
      using assms by (auto simp: serve_def m [symmetric] Let_def split: sum.splits prod.splits)
    then have "d' = d \<or> (\<exists>c rvs events. di_Watch ?di c rvs True True d = Inr (events, d'))"
      by (auto simp: ResourceHandler_def serverWatch_def Let_def map_sum_Inr split: if_splits sum.splits prod.splits)
    then show thesis using same watching by blast
  qed
  show thesis
  proof (cases "sv_mux sv routes (url_Path (hq_URL q))")
    case None
    then show thesis using assms same by (simp add: serve_def Let_def)
  next
    case (Some x)
    then show thesis
    proof (cases x)
      case HandleNode
      then show thesis using assms Some same by (auto simp: serve_def Let_def split: sum.splits)
    qed (use assms Some same h w in \<open>simp_all add: serve_def Let_def\<close>)
  qed
qed

lemma loop_action_step:
  assumes "loop_action di ord enabled now net i a = Inr a'" "i < length (ag_loops a)"
  shows "agg_step di ord enabled a a'"
proof (cases "pl_phase (ag_loops a ! i)")
  case Pulling
  obtain reqs p' where p: "pull_action ord enabled now net (ag_loops a ! i) = (reqs, p')" by fastforce
  then have "a' = a\<lparr>ag_loops := (ag_loops a)[i := p'], ag_sent := ag_sent a @ reqs\<rparr>"
    using assms(1) Pulling by (simp add: loop_action_def Let_def)
  then show ?thesis using agg_step.pull [OF assms(2) Pulling p] by simp
next
  case (Processing es)
  obtain p' d' where p: "process_action di es (ag_loops a ! i, ag_dist a) = Inr (p', d')"
      "a' = a\<lparr>ag_dist := d', ag_loops := (ag_loops a)[i := p']\<rparr>"
    using assms(1) Processing by (auto simp: loop_action_def Let_def split: sum.splits)
  then show ?thesis using agg_step.process [OF assms(2) Processing p(1)] by simp
next
  case Posting
  obtain reqs p' where p: "post_action ord (ag_loops a ! i) = (reqs, p')" by fastforce
  then have "a' = a\<lparr>ag_loops := (ag_loops a)[i := p'], ag_sent := ag_sent a @ reqs\<rparr>"
    using assms(1) Posting by (simp add: loop_action_def Let_def)
  then show ?thesis using agg_step.post [OF assms(2) Posting p] by simp
qed

text \<open>The process refines the aggregator among the calls of the interface, watches that stop apart.\<close>

lemma run_step_agg:
  assumes "run_step sv ord answers s s'"
  obtains (idle) "pr_aggregator s' = pr_aggregator s"
    | (agg) "agg_step (sv_di sv) ord (sv_measure sv) (pr_aggregator s) (pr_aggregator s')"
    | (stopped) q where "pr_aggregator s' = (pr_aggregator s)\<lparr>ag_dist := stop_watching q (pr_dist s)\<rparr>"
  using assms
proof cases
  case (aggregate i net now a)
  then show thesis using agg loop_action_step [OF aggregate(5,3)] by simp
next
  case (request inputs q out d)
  let ?a = "pr_aggregator s"
  from request(3) show thesis
  proof (cases rule: serve_cases)
    case same
    then show thesis using idle request(1) by simp
  next
    case (registered client err)
    then show thesis using agg agg_step.register [of client "sv_di sv" ?a err d] request(1) by simp
  next
    case (watching c rvs events)
    then show thesis using agg agg_step.watch [of "sv_di sv" c rvs True True ?a events d] request(1) by simp
  qed
next
  case (stop_watch q)
  then show thesis using stopped by simp
qed (simp_all add: idle)

section \<open>Batches that can be placed\<close>

text \<open>
  An event that changes the stores must name a location of the table, and its node's hash must lie inside
  the part of the ring for which the floating-point lookup is exact; other events are ignored anyway.
\<close>

definition placeable :: "NodeEvent \<Rightarrow> bool" where
  "placeable e \<longleftrightarrow>
     (ne_Type e = Added \<or> ne_Type e = Modified \<longrightarrow>
       (let h = HashStrToUInt64 (node_Id (ne_Node e)); g = node_GeoInfo (ne_Node e) in
        valid_location (NewLocation (geo_Region g) (geo_ResourcePartition g)) \<and>
        h \<noteq> 0 \<and> uint h \<le> 2 ^ 64 - 2 ^ 20))"

definition placeable_batch :: "NodeEvent option list \<Rightarrow> bool" where
  "placeable_batch es \<longleftrightarrow> (\<forall>e. Some e \<in> set es \<longrightarrow> placeable e)"

definition placeable_answers :: "(RrmRequest \<Rightarrow> pull_outcome) \<Rightarrow> bool" where
  "placeable_answers net \<longleftrightarrow>
     (\<forall>q r. net q = Pulled r \<longrightarrow> (\<forall>row\<in>set (RegionNodeEvents r). placeable_batch row))"

lemma placeable_SetCheckpoint [simp]: "placeable (SetCheckpoint enabled now cp e) = placeable e"
  by (simp add: placeable_def)

lemma placeable_stamp:
  assumes "\<forall>row\<in>set rows. placeable_batch row"
  shows "placeable_batch (concat (stamp_rows enabled now rows))"
proof -
  have in_row: "x \<in> set row" if "(j, x) \<in> set (enumerate 0 row)" for j x and row :: "'x list"
    using that nth_mem [of j row] by (auto simp: in_set_enumerate_eq)
  have "placeable e" if e: "Some e \<in> set (concat (stamp_rows True now rows))" for e
  proof -
    obtain i row j x where r: "(i, row) \<in> set (enumerate 0 rows)" "(j, x) \<in> set (enumerate 0 row)"
        "Some e = map_option (SetCheckpoint True (now i j) Aggregator_Received) x"
      using e by (auto simp: stamp_rows_def)
    then obtain y where y: "x = Some y" "e = SetCheckpoint True (now i j) Aggregator_Received y" by (cases x) auto
    then show ?thesis using assms in_row [OF r(1)] in_row [OF r(2)] by (simp add: placeable_batch_def)
  qed
  then show ?thesis using assms by (cases enabled) (auto simp: placeable_batch_def stamp_rows_def)
qed

lemma placeable_pull:
  assumes "placeable_answers net" "initPullOrSubsequentPull ord enabled now net c n crv = (rows, len)"
  shows "placeable_batch (concat rows)"
proof (cases "net (pull_request ord c n crv)")
  case (Pulled r)
  then have "rows = stamp_rows enabled now (RegionNodeEvents r)" "\<forall>row\<in>set (RegionNodeEvents r). placeable_batch row"
    using assms by (auto simp: initPullOrSubsequentPull_def placeable_answers_def)
  then show ?thesis using placeable_stamp by simp
qed (use assms(2) in \<open>auto simp: initPullOrSubsequentPull_def placeable_batch_def\<close>)

section \<open>A batch that can be placed is processed\<close>

lemma processNodeEvent_total:
  assumes t: "store_table ns" "rvs_shape ns"
    and e: "changes e \<Longrightarrow> valid_location (GetLocation e) \<and> HashStrToUInt64 (GetId e) \<noteq> 0 \<and>
      uint (HashStrToUInt64 (GetId e)) \<le> 2 ^ 64 - 2 ^ 20"
  shows "\<exists>r. processNodeEvent e (ns, h) = Inr r"
proof (cases "changes e")
  case False
  then show ?thesis using processNodeEvent_other [of e "(ns, h)"] by (auto simp: changes_def)
next
  case True
  let ?l = "GetLocation e"
  have v: "valid_location ?l" using e [OF True] by simp
  obtain i where i: "getVirtualNodeStore e ns = Inr (getNodeHash e, i)"
    using store_of_event [OF t(1) v] e [OF True] by blast
  define r where "r = nat (loc_region ?l)"
  define p where "p = nat (loc_partition ?l)"
  have rp: "?l = nth_location r p" "r < 9" "p < 40"
    using v by (auto simp: valid_location_def nth_location_def r_def p_def intro: Location.equality)
  have "currentRVs ns ! r \<in> set (currentRVs ns)" using rp(2) t by (simp add: rvs_shape_def store_table_def)
  then have "length (currentRVs ns ! r) = 40" using t by (simp add: rvs_shape_def store_table_def)
  then have "rv_index ?l (ring_store e (getNodeHash e) i ns) = Inr (r, p)"
    unfolding rv_index_Inr using rp t by (simp add: rvs_shape_def store_table_def)
  then have "\<exists>ns'. update_rv e (ring_store e (getNodeHash e) i ns) = Inr ns'" by (simp add: update_rv_def split: if_split)
  then obtain ns' where "update_rv e (ring_store e (getNodeHash e) i ns) = Inr ns'" by blast
  then show ?thesis using processNodeEvent_eq [OF i, of h] True by (simp add: changes_def del: split_paired_Ex)
qed

lemma process_all_total:
  assumes "\<forall>e\<in>set es. changes e \<longrightarrow> valid_location (GetLocation e) \<and> HashStrToUInt64 (GetId e) \<noteq> 0 \<and>
      uint (HashStrToUInt64 (GetId e)) \<le> 2 ^ 64 - 2 ^ 20"
    and "store_table ns" "NodeStore_inv ns h"
  shows "\<exists>st. process_all es (ns, h) = Inr st"
  using assms
proof (induction es arbitrary: ns h)
  case (Cons e es)
  have "rvs_shape ns" using Cons.prems(3) by (simp add: NodeStore_inv_def)
  then obtain b ns1 h1 where p: "processNodeEvent e (ns, h) = Inr (b, ns1, h1)"
    using processNodeEvent_total [OF Cons.prems(2)] Cons.prems(1) by (metis list.set_intros(1) surj_pair)
  have one: "process_all [e] (ns, h) = Inr (ns1, h1)" using p by simp
  have "NodeStore_inv ns1 h1" "same_meta ns ns1" using process_all_inv [OF one Cons.prems(3)] by simp_all
  then show ?case
    using Cons.IH [of ns1 h1] Cons.prems(1) store_table_meta [OF Cons.prems(2)] p by simp
qed simp

lemma events_to_process_placeable:
  "placeable_batch es \<Longrightarrow> e \<in> set (non_nil (events_to_process enabled now i es)) \<Longrightarrow> changes e \<Longrightarrow>
    valid_location (GetLocation e) \<and> HashStrToUInt64 (GetId e) \<noteq> 0 \<and> uint (HashStrToUInt64 (GetId e)) \<le> 2 ^ 64 - 2 ^ 20"
proof (induction es arbitrary: i)
  case (Cons x es)
  show ?case
  proof (cases x)
    case None
    then have "non_nil (events_to_process enabled now i (x # es)) = []" by (simp add: non_nil_def)
    then show ?thesis using Cons.prems(2) by simp
  next
    case (Some y)
    have rest: "placeable_batch es" "placeable y" using Cons.prems(1) Some by (simp_all add: placeable_batch_def)
    then show ?thesis
      using Cons.IH [OF rest(1) _ Cons.prems(3), of "i + 1"] Cons.prems(2,3) Some
      by (auto simp: managed_event_def placeable_def changes_def Let_def GetEventType_def GetId_def GetLocation_def
          NewManagedNodeEvent_def)
  qed
qed (simp add: non_nil_def)

section \<open>What every step keeps\<close>

definition keeps_grants :: "'s Distributor \<Rightarrow> 's Distributor \<Rightarrow> bool" where
  "keeps_grants d d' \<longleftrightarrow>
     (\<forall>c ss. gm_get (clientToStores d) c = Some ss \<longrightarrow> gm_get (clientToStores d') c = Some ss)"

definition table_ok :: "'s Distributor \<Rightarrow> bool" where
  "table_ok d \<longleftrightarrow> dis_ok d \<and> store_table (defaultNodeStore d)"

lemma keeps_grants_refl [simp]: "keeps_grants d d"
  by (simp add: keeps_grants_def)

lemma keeps_grants_trans: "keeps_grants a b \<Longrightarrow> keeps_grants b c \<Longrightarrow> keeps_grants a c"
  by (simp add: keeps_grants_def)

lemma store_table_assign: "store_table ns \<Longrightarrow> store_table (fold (assign_store c q) is ns)"
proof (induction "is" arbitrary: ns)
  case (Cons i "is")
  have "vs_location (vNodeStores (assign_store c q i ns) ! j) = vs_location (vNodeStores ns ! j)" for j
    by (cases "i < length (vNodeStores ns)"; cases "i = j")
      (simp_all add: assign_store_def AssignToClient_def list_update_beyond)
  then have "store_table (assign_store c q i ns)"
    using Cons.prems by (simp add: store_table_def)
  then show ?case using Cons.IH by simp
qed simp

lemma RegisterClient_table:
  assumes "RegisterClient si ordS ordN client d = (err, d')" "store_table (defaultNodeStore d)"
  shows "store_table (defaultNodeStore d')" "keeps_grants d d'"
proof -
  have "store_table (defaultNodeStore d') \<and> keeps_grants d d'"
  proof (cases "allocateNodesToClient si ordS ordN (ClientId client) (TotalMachines (Resource client)) d")
    case (Inl e)
    then show ?thesis using assms by (simp add: RegisterClient_def Let_def)
  next
    case (Inr r)
    obtain n d1 where r: "r = (n, d1)" by (cases r)
    have "store_table (defaultNodeStore d1) \<and> keeps_grants d d1"
      using Inr unfolding r
    proof (rule allocate_Inr)
      fix selected eq s'
      assume "gm_get (clientToStores d) (ClientId client) = None"
        "d1 = d\<lparr>dis_queues := dis_queues d @ [eq],
           nodeEventQueueMap := gm_put (ClientId client) (length (dis_queues d)) (nodeEventQueueMap d),
           defaultNodeStore := fold (assign_store (ClientId client) (length (dis_queues d))) selected (defaultNodeStore d),
           clientToStores := gm_put (ClientId client) selected (clientToStores d), dis_store := s'\<rparr>"
      then show ?thesis using store_table_assign [OF assms(2)] by (auto simp: keeps_grants_def gomap_simps)
    qed
    moreover have "\<exists>s'. d' = d1\<lparr>dis_store := s'\<rparr>"
      using assms(1) Inr r by (auto simp: RegisterClient_def Let_def split: prod.splits option.splits)
    ultimately show ?thesis by (auto simp: keeps_grants_def)
  qed
  then show "store_table (defaultNodeStore d')" "keeps_grants d d'" by simp_all
qed

lemma ProcessEvents_table:
  assumes "table_ok d" "ProcessEvents_fun si enabled now es d = Inr (r, d')"
  shows "store_table (defaultNodeStore d')" "clientToStores d' = clientToStores d"
proof -
  let ?es = "non_nil (events_to_process enabled now 0 es)"
  have inv: "dis_inv d" using assms(1) by (simp add: table_ok_def dis_ok_def)
  obtain ns h where pa: "process_all ?es (defaultNodeStore d, dis_queues d) = Inr (ns, h)"
    using assms(2) ProcessEvents_start_Inl [of enabled now es d _ si]
    by (cases "process_all ?es (defaultNodeStore d, dis_queues d)") (auto simp: ProcessEvents_fun_def)
  obtain w where "ProcessEvents_start si enabled now es d =
       Inr ((True, GetCurrentResourceVersions ns), d\<lparr>defaultNodeStore := ns, dis_queues := h, dis_store := pw_store w\<rparr>, w)"
    using ProcessEvents_start_ok [OF inv pa] by metis
  then have "\<exists>s. d' = d\<lparr>defaultNodeStore := ns, dis_queues := h, dis_store := s\<rparr>"
    using assms(2) by (cases "run_goroutines (attempts_left w) si w") (auto simp: ProcessEvents_fun_def)
  moreover have "same_meta (defaultNodeStore d) ns"
    using process_all_inv [OF pa] inv by (simp add: dis_inv_def)
  ultimately show "store_table (defaultNodeStore d')" "clientToStores d' = clientToStores d"
    using store_table_meta [of "defaultNodeStore d" ns] assms(1) by (auto simp: table_ok_def)
qed

text \<open>\<open>ordS\<close> and \<open>ordN\<close> are the orders in which the distributor ranges over stores and nodes.\<close>

lemma agg_step_table:
  fixes si :: "'s StoreInterface" and ordT ordR ordQ enabled now
  assumes ord: "range_order ordS" "range_order ordN"
  defines "di \<equiv> distributor si ordS ordN ordT ordR ordQ enabled now"
  shows "agg_step di ord enabled a a' \<Longrightarrow> table_ok (ag_dist a) \<Longrightarrow>
    table_ok (ag_dist a') \<and> keeps_grants (ag_dist a) (ag_dist a')"
proof (induction rule: agg_step.induct)
  case (process i a es p' d')
  obtain b crv where P: "ProcessEvents_fun si enabled now es (ag_dist a) = Inr ((b, crv), d')"
    using process(3) by (auto simp: process_action_def di_def distributor_def split: sum.splits)
  have "dis_ok d'" using ProcessEvents_fun_result(2) [OF _ P] process(4) by (simp add: table_ok_def)
  then show ?case using ProcessEvents_table [OF process(4) P] by (simp add: table_ok_def keeps_grants_def)
next
  case (register client a err d')
  have R: "RegisterClient si ordS ordN client (ag_dist a) = (err, d')"
    using register(2) by (simp add: di_def distributor_def)
  have "dis_ok (ag_dist a)" using register(3) by (simp add: table_ok_def)
  from dis_ok_register(1) [OF this ord register(1) R] show ?case
    using RegisterClient_table [OF R] register(3) by (simp add: table_ok_def)
next
  case (watch c rvs wc sc a events d')
  have W: "dis_Watch ordT ordR ordQ c rvs wc sc (ag_dist a) = Inr (events, d')"
    using watch(1) by (simp add: di_def distributor_def)
  have "dis_ok (ag_dist a)" using watch(2) by (simp add: table_ok_def)
  note ok = dis_ok_watch(1) [OF this W]
  show ?case
    using ok watch(2) by (rule_tac dis_Watch_Inr [OF W]) (simp add: table_ok_def keeps_grants_def)
qed simp_all

lemma stop_watching_ok:
  assumes "dis_ok d"
  shows "dis_ok (stop_watching q d)" "current_rv (stop_watching q d) l = current_rv d l"
    "table_ok d \<Longrightarrow> table_ok (stop_watching q d)" "keeps_grants d (stop_watching q d)"
proof -
  let ?qs = "(dis_queues d)[q := (dis_queues d ! q)\<lparr>watchChan := None\<rparr>]"
  have inv: "NodeStore_inv (defaultNodeStore d) (dis_queues d)" using assms by (simp add: dis_ok_def dis_inv_def)
  have "NodeStore_inv (defaultNodeStore d) ?qs"
  proof (cases "q < length (dis_queues d)")
    case True
    then have "NodeEventQueue_wf (dis_queues d ! q)" using inv by (simp add: NodeStore_inv_def queues_linked_def)
    then have "NodeEventQueue_wf ((dis_queues d ! q)\<lparr>watchChan := None\<rparr>)" by (simp add: NodeEventQueue_wf_def)
    then show ?thesis using inv queues_linked_update by (simp add: NodeStore_inv_def)
  qed (use inv in \<open>simp add: list_update_beyond\<close>)
  then have "dis_inv (stop_watching q d)"
    using dis_inv_update [of d "defaultNodeStore d" ?qs "dis_store d"] assms
    by (simp add: dis_ok_def stop_watching_def same_meta_def)
  then show ok: "dis_ok (stop_watching q d)" using assms by (simp add: dis_ok_def stop_watching_def)
  show "current_rv (stop_watching q d) l = current_rv d l" by (simp add: current_rv_def stop_watching_def)
  show "table_ok d \<Longrightarrow> table_ok (stop_watching q d)" using ok by (simp add: table_ok_def stop_watching_def)
  show "keeps_grants d (stop_watching q d)" by (simp add: keeps_grants_def stop_watching_def)
qed

lemma run_step_table:
  assumes "sv_di sv = distributor si ordS ordN ordT ordR ordQ (sv_measure sv) now" "range_order ordS" "range_order ordN"
    and "run_step sv ord answers s s'" "table_ok (pr_dist s)"
  shows "table_ok (pr_dist s') \<and> keeps_grants (pr_dist s) (pr_dist s')"
  using assms(4)
proof (cases rule: run_step_agg)
  case agg
  then show ?thesis using agg_step_table [OF assms(2,3)] assms(1,5) by simp
next
  case (stopped q)
  then show ?thesis using stop_watching_ok [of "pr_dist s" q] assms(5) by (simp add: table_ok_def)
qed (use assms(5) in simp)

section \<open>A process that does not crash\<close>

text \<open>A batch that is waiting to be processed can be placed.\<close>

definition process_ok :: "'s Distributor process \<Rightarrow> bool" where
  "process_ok s \<longleftrightarrow> pr_crashed s = None \<and> table_ok (pr_dist s) \<and>
     (\<forall>p\<in>set (ag_loops (pr_aggregator s)). \<forall>es. pl_phase p = Processing es \<longrightarrow> placeable_batch es)"

lemma ProcessEvents_placeable:
  assumes "redis_laws rc" "table_ok d" "placeable_batch es"
  shows "\<exists>r. ProcessEvents_fun (goredis rc tc) enabled now es d = Inr r"
proof -
  have inv: "dis_inv d" using assms(2) by (simp add: table_ok_def dis_ok_def)
  obtain st where "process_all (non_nil (events_to_process enabled now 0 es)) (defaultNodeStore d, dis_queues d) = Inr st"
    using process_all_total [of "non_nil (events_to_process enabled now 0 es)" "defaultNodeStore d" "dis_queues d"]
      events_to_process_placeable [OF assms(3)] assms(2) inv
    by (auto simp: table_ok_def dis_inv_def simp del: split_paired_Ex)
  then show ?thesis using store_provider.events_processed [OF goredis_store_provider [OF assms(1)] inv] by blast
qed

text \<open>The next action of a goroutine never panics, and what it leaves to be processed can be placed.\<close>

lemma loop_action_ok:
  assumes "redis_laws rc" "table_ok (ag_dist a)" "placeable_answers net" "i < length (ag_loops a)"
    and batches: "\<forall>p\<in>set (ag_loops a). \<forall>es. pl_phase p = Processing es \<longrightarrow> placeable_batch es"
  shows "\<exists>a'. loop_action (distributor (goredis rc tc) ordS ordN ordT ordR ordQ enabled now) ord enabled stamps net i a = Inr a' \<and>
    (\<forall>p\<in>set (ag_loops a'). \<forall>es. pl_phase p = Processing es \<longrightarrow> placeable_batch es)"
proof -
  let ?di = "distributor (goredis rc tc) ordS ordN ordT ordR ordQ enabled now" and ?p = "ag_loops a ! i"
  have upd: "\<forall>p\<in>set ((ag_loops a)[i := p']). \<forall>es. pl_phase p = Processing es \<longrightarrow> placeable_batch es"
    if "\<And>es. pl_phase p' = Processing es \<Longrightarrow> placeable_batch es" for p'
    using batches that set_update_subset_insert [of "ag_loops a" i p'] by blast
  show ?thesis
  proof (cases "pl_phase ?p")
    case Pulling
    obtain rows len where r: "initPullOrSubsequentPull ord enabled stamps net (pl_client ?p) DefaultBatchLength (pl_crv ?p) = (rows, len)"
      by fastforce
    let ?p' = "?p\<lparr>pl_phase := (if len \<noteq> 0 then Processing (concat rows) else Pulling)\<rparr>"
    have "\<And>es. pl_phase ?p' = Processing es \<Longrightarrow> placeable_batch es"
      using placeable_pull [OF assms(3) r] by (auto split: if_splits)
    moreover have "loop_action ?di ord enabled stamps net i a = Inr (a\<lparr>ag_loops := (ag_loops a)[i := ?p'],
        ag_sent := ag_sent a @ [pull_request ord (pl_client ?p) DefaultBatchLength (pl_crv ?p)]\<rparr>)"
      using Pulling by (simp add: loop_action_def pull_action_def r Let_def)
    ultimately show ?thesis using upd [of ?p'] by simp
  next
    case (Processing es)
    then have "placeable_batch es" using batches assms(4) by (metis nth_mem)
    then obtain b crv d' where P: "ProcessEvents_fun (goredis rc tc) enabled now es (ag_dist a) = Inr ((b, crv), d')"
      using ProcessEvents_placeable [OF assms(1,2)] by (metis surj_pair)
    let ?p' = "?p\<lparr>pl_phase := (if b then Posting else Pulling), pl_crv := crv, pl_last := Some d'\<rparr>"
    have "\<And>es. pl_phase ?p' = Processing es \<Longrightarrow> placeable_batch es" by (cases b) simp_all
    then show ?thesis
      using upd [of ?p'] Processing P by (simp add: loop_action_def process_action_def distributor_def Let_def)
  next
    case Posting
    then show ?thesis using upd [of "?p\<lparr>pl_phase := Pulling\<rparr>"] by (simp add: loop_action_def post_action_def Let_def)
  qed
qed

lemma run_step_ok:
  assumes "sv_di sv = distributor (goredis rc tc) ordS ordN ordT ordR ordQ (sv_measure sv) now"
    and "redis_laws rc" "range_order ordS" "range_order ordN" "\<And>net. answers net \<Longrightarrow> placeable_answers net"
  shows "run_step sv ord answers s s' \<Longrightarrow> process_ok s \<Longrightarrow> process_ok s' \<and> keeps_grants (pr_dist s) (pr_dist s')"
proof -
  assume step: "run_step sv ord answers s s'" and ok: "process_ok s"
  have "table_ok (pr_dist s') \<and> keeps_grants (pr_dist s) (pr_dist s')"
    using run_step_table [OF assms(1,3,4) step] ok by (simp add: process_ok_def)
  moreover have "pr_crashed s' = None \<and>
      (\<forall>p\<in>set (ag_loops (pr_aggregator s')). \<forall>es. pl_phase p = Processing es \<longrightarrow> placeable_batch es)"
    using step
  proof cases
    case (aggregate i net stamps a)
    then show ?thesis
      using loop_action_ok [OF assms(2) _ assms(5) [OF aggregate(4)] aggregate(3), where tc = tc and ordS = ordS and ordN = ordN and
          ordT = ordT and ordR = ordR and ordQ = ordQ and enabled = "sv_measure sv" and now = now and ord = ord and stamps = stamps]
        ok assms(1) by (auto simp: process_ok_def)
  next
    case (crash i net stamps err)
    then show ?thesis
      using loop_action_ok [OF assms(2) _ assms(5) [OF crash(4)] crash(3), where tc = tc and ordS = ordS and ordN = ordN and
          ordT = ordT and ordR = ordR and ordQ = ordQ and enabled = "sv_measure sv" and now = now and ord = ord and stamps = stamps]
        ok assms(1) by (auto simp: process_ok_def)
  qed (use ok in \<open>simp_all add: process_ok_def\<close>)
  ultimately show ?thesis by (simp add: process_ok_def)
qed

lemma run_reach_ok:
  assumes "sv_di sv = distributor (goredis rc tc) ordS ordN ordT ordR ordQ (sv_measure sv) now"
    and "redis_laws rc" "range_order ordS" "range_order ordN" "\<And>net. answers net \<Longrightarrow> placeable_answers net"
    and "run_reach sv ord answers s s'" "process_ok s"
  shows "process_ok s' \<and> keeps_grants (pr_dist s) (pr_dist s')"
  using assms(6,7)
proof (induction rule: rtranclp_induct)
  case (step b c)
  then show ?case using run_step_ok [OF assms(1-5) step(2)] keeps_grants_trans by blast
qed simp

lemma new_stores_unassigned:
  assumes "createNodeStore = Inr ns" "i < length (vNodeStores ns)"
  shows "vs_clientId (vNodeStores ns ! i) = ''''"
proof -
  obtain ns' where n: "NewNodeStore 1000 9 40 = Inr ns'" "length (vNodeStores ns') = 1000 * 9 * 40"
    "\<And>k m j. k < 9 \<Longrightarrow> m < 40 \<Longrightarrow> j < 1000 \<Longrightarrow>
       fresh_store (nth_location k m) (vNodeStores ns' ! (k * (40 * 1000) + (m * 1000 + j)))"
    using NewNodeStore_ok [of 1000 9 40 thesis] by auto
  then have ns: "ns' = ns" using assms(1) by (simp add: createNodeStore_def virutalStoreNumPerResourcePartition_def)
  have "i div 40000 * (40 * 1000) + (i mod 40000 div 1000 * 1000 + i mod 1000) = i"
    using div_mult_mod_eq [of i 40000] div_mult_mod_eq [of "i mod 40000" 1000] mod_mod_cancel [of 1000 40000 i] by simp
  then have "fresh_store (nth_location (i div 40000) (i mod 40000 div 1000)) (vNodeStores ns ! i)"
    using n(3) [of "i div 40000" "i mod 40000 div 1000" "i mod 1000"] assms(2) n(2)
    by (simp add: ns less_mult_imp_div_less)
  then show ?thesis by (simp add: fresh_store_def)
qed

lemma new_distributor_ok:
  assumes "createNodeStore = Inr ns"
  shows "table_ok \<lparr>defaultNodeStore = ns, nodeEventQueueMap = gm_empty, clientToStores = gm_empty, dis_queues = [],
    dis_store = s\<rparr>" (is "table_ok ?d")
proof -
  have ns: "store_table ns" "NodeStore_inv ns []" using createNodeStore_table assms by (metis sum.inject(2))+
  have "owner_links ?d"
    using new_stores_unassigned [OF assms] by (auto simp: owner_links_def virtual_store_def gomap_simps)
  then have "dis_inv ?d" using ns by (simp add: dis_inv_def gomap_simps)
  then show ?thesis using ns by (simp add: table_ok_def dis_ok_def store_table_def)
qed

lemma Run_eq:
  assumes "createNodeStore = Inr ns"
  shows "Run rc c s = map_option (\<lambda>store. \<lparr>pr_aggregator = NewAggregator (ResourceUrls c)
      \<lparr>defaultNodeStore = ns, nodeEventQueueMap = gm_empty, clientToStores = gm_empty, dis_queues = [], dis_store = store\<rparr>,
    pr_metrics = init_latency_metrics, pr_served = 0, pr_reports = [], pr_crashed = None\<rparr>) (NewRedisClient rc s)"
  unfolding Run_def GetResourceDistributor_def assms
  by (cases "NewRedisClient rc s") (simp_all add: SetPersistHelper_def)

lemma Run_ok:
  assumes "Run rc c s = Some p"
  shows "process_ok p" "pr_aggregator p = NewAggregator (ResourceUrls c) (pr_dist p)"
proof -
  obtain ns where ns: "createNodeStore = Inr ns" using createNodeStore_table by blast
  obtain store where p: "p = \<lparr>pr_aggregator = NewAggregator (ResourceUrls c)
      \<lparr>defaultNodeStore = ns, nodeEventQueueMap = gm_empty, clientToStores = gm_empty, dis_queues = [], dis_store = store\<rparr>,
    pr_metrics = init_latency_metrics, pr_served = 0, pr_reports = [], pr_crashed = None\<rparr>"
    using assms unfolding Run_eq [OF ns] by auto
  show "process_ok p"
    using new_distributor_ok [OF ns, of store] by (auto simp: p process_ok_def NewAggregator_def start_pull_loop_def)
  show "pr_aggregator p = NewAggregator (ResourceUrls c) (pr_dist p)"
    by (simp add: p NewAggregator_def)
qed

lemma Run_starts: "NewRedisClient rc s = Some store \<Longrightarrow> \<exists>p. Run rc c s = Some p"
  using createNodeStore_table by (auto simp: Run_eq)

section \<open>What the region managers are told by the process\<close>

lemma agg_step_clients: "agg_step di ord enabled a a' \<Longrightarrow> map pl_client (ag_loops a') = map pl_client (ag_loops a)"
proof (induction rule: agg_step.induct)
  case (pull i a now net reqs p')
  then have "pl_client p' = pl_client (ag_loops a ! i)" by (auto simp: pull_action_def split: prod.splits)
  then show ?case using pull(1) by (simp add: map_update list_update_same_conv)
next
  case (process i a es p' d')
  then have "pl_client p' = pl_client (ag_loops a ! i)" by (auto simp: process_action_def split: sum.splits)
  then show ?case using process(1) by (simp add: map_update list_update_same_conv)
next
  case (post i a reqs p')
  then have "pl_client p' = pl_client (ag_loops a ! i)" by (auto simp: post_action_def)
  then show ?case using post(1) by (simp add: map_update list_update_same_conv)
qed simp_all

lemma agg_reach_clients: "agg_reach di ord enabled a a' \<Longrightarrow> map pl_client (ag_loops a') = map pl_client (ag_loops a)"
  by (induction rule: rtranclp_induct) (simp_all add: agg_step_clients)

lemma run_reach_clients:
  "run_reach sv ord answers s s' \<Longrightarrow>
    map pl_client (ag_loops (pr_aggregator s')) = map pl_client (ag_loops (pr_aggregator s))"
proof (induction rule: rtranclp_induct)
  case (step b c)
  from step(2) have "map pl_client (ag_loops (pr_aggregator c)) = map pl_client (ag_loops (pr_aggregator b))"
    by (cases rule: run_step_agg) (simp_all add: agg_step_clients)
  then show ?case using step(3) by simp
qed simp

lemma run_reach_told:
  assumes "sv_di sv = distributor si ordS ordN ordT ordR ordQ (sv_measure sv) now"
    and "range_order ordS" "range_order ordN" "range_order ord" "run_reach sv ord answers p s"
    and "event_processor.agg_ok dis_ok current_rv (pr_aggregator p)"
  shows "event_processor.agg_ok dis_ok current_rv (pr_aggregator s) \<and>
    (\<forall>l. current_rv (pr_dist p) l \<le> current_rv (pr_dist s) l)"
  using assms(5,6)
proof (induction rule: rtranclp_induct)
  case (step b c)
  note E = distributor_event_processor [OF assms(2,3), of si ordT ordR ordQ "sv_measure sv" now]
  have ok: "event_processor.agg_ok dis_ok current_rv (pr_aggregator b)"
    and mono: "\<forall>l. current_rv (pr_dist p) l \<le> current_rv (pr_dist b) l" using step by simp_all
  from step(2) have "event_processor.agg_ok dis_ok current_rv (pr_aggregator c) \<and>
      (\<forall>l. current_rv (pr_dist b) l \<le> current_rv (pr_dist c) l)"
  proof (cases rule: run_step_agg)
    case agg
    then show ?thesis using event_processor.agg_ok_step [OF E assms(4) _ ok] assms(1) by simp
  next
    case (stopped q)
    have "dis_ok (pr_dist b)" using ok by (simp add: event_processor.agg_ok_def [OF E])
    then show ?thesis
      using event_processor.agg_ok_dist [OF E ok, of "stop_watching q (pr_dist b)"] stop_watching_ok [of "pr_dist b" q]
      by (simp add: stopped)
  qed (use ok in simp)
  then show ?case using mono by (meson order_trans)
qed simp

lemma aggregator_knows:
  fixes s :: "'s Distributor process"
  assumes "sv_di sv = distributor si ordS ordN ordT ordR ordQ (sv_measure sv) now"
    and "range_order ordS" "range_order ordN" "range_order ord" "Run rc cfg s0 = Some p" "run_reach sv ord answers p s"
  defines "a \<equiv> pr_aggregator s"
  shows "dis_ok (ag_dist a)" "map pl_client (ag_loops a) = map createClient (ResourceUrls cfg)"
    "\<forall>l. current_rv (pr_dist p) l \<le> current_rv (ag_dist a) l"
    "\<forall>q\<in>set (ag_sent a). \<forall>l v. gm_get (CRV (hr_body q)) l = Some v \<longrightarrow> 0 < v \<and> v \<le> current_rv (ag_dist a) l"
    "\<forall>p\<in>set (ag_loops a). case pl_last p of
       None \<Rightarrow> pl_crv p = gm_empty
     | Some d0 \<Rightarrow> (\<forall>l. gm_get (pl_crv p) l = (if current_rv d0 l > 0 then Some (current_rv d0 l) else None) \<and>
         current_rv d0 l \<le> current_rv (ag_dist a) l)"
proof -
  note E = distributor_event_processor [OF assms(2,3), of si ordT ordR ordQ "sv_measure sv" now]
  have start: "pr_aggregator p = NewAggregator (ResourceUrls cfg) (pr_dist p)" "dis_ok (pr_dist p)"
    using Run_ok [OF assms(5)] by (simp_all add: process_ok_def table_ok_def)
  then have "event_processor.agg_ok dis_ok current_rv (pr_aggregator p)"
    using event_processor.agg_ok_start [OF E] by metis
  note R = run_reach_told [OF assms(1-4,6) this, folded a_def]
  note ok = event_processor.agg_ok_def [OF E] event_processor.told_ok_def [OF E] event_processor.loop_ok_def [OF E]
  show "dis_ok (ag_dist a)" "\<forall>l. current_rv (pr_dist p) l \<le> current_rv (ag_dist a) l"
    "\<forall>q\<in>set (ag_sent a). \<forall>l v. gm_get (CRV (hr_body q)) l = Some v \<longrightarrow> 0 < v \<and> v \<le> current_rv (ag_dist a) l"
    using R by (simp_all add: ok)
  show "map pl_client (ag_loops a) = map createClient (ResourceUrls cfg)"
    using run_reach_clients [OF assms(6)] arg_cong [OF start(1), of ag_loops]
    by (simp add: a_def NewAggregator_def start_pull_loop_def comp_def)
  show "\<forall>p\<in>set (ag_loops a). case pl_last p of
       None \<Rightarrow> pl_crv p = gm_empty
     | Some d0 \<Rightarrow> (\<forall>l. gm_get (pl_crv p) l = (if current_rv d0 l > 0 then Some (current_rv d0 l) else None) \<and>
         current_rv d0 l \<le> current_rv (ag_dist a) l)"
    using R by (auto simp: ok crv_of_def split: option.splits)
qed

end
