(* ===== verification/GRS_Typed.thy ===== *)
theory GRS_Typed
  imports GRS_Codec
begin

text \<open>
  The decoders give well-typed values, whatever the text: numbers stay in the range of their Go type, maps
  have each key once and keep the types of their keys and values, also when the decoding ends with an error.
\<close>

section \<open>Properties that a decoder keeps\<close>

definition keeps :: "('a \<Rightarrow> bool) \<Rightarrow> 'a decoder \<Rightarrow> bool" where
  "keeps P d \<longleftrightarrow> (\<forall>j x. P x \<longrightarrow> P (fst (d j x)))"

named_theorems keeps_intros \<open>decoders that keep the type of what they decode into\<close>

lemma keepsD: "keeps P d \<Longrightarrow> P x \<Longrightarrow> P (fst (d j x))"
  by (simp add: keeps_def)

lemma keeps_True [keeps_intros]: "keeps (\<lambda>x. True) d"
  by (simp add: keeps_def)

lemma keeps_number: "(\<And>t x. parse t = Some x \<Longrightarrow> P x) \<Longrightarrow> keeps P (dec_number parse)"
  by (auto simp: keeps_def dec_number_def split: json.split option.split)

lemma Atoi_int64: "Atoi s = Some i \<Longrightarrow> int64 i"
proof -
  have p: "n < 2 ^ 63" if "parse_digits (2 ^ 63) 0 t = Some n" for t n using parse_digits_bound [OF that] by simp
  have q: "n < 2 ^ 63 + 1" if "parse_digits (2 ^ 63 + 1) 0 t = Some n" for t n using parse_digits_bound [OF that] by simp
  assume "Atoi s = Some i"
  then consider n t where "i = int n" "parse_digits (2 ^ 63) 0 t = Some n" | n t where "i = - int n" "parse_digits (2 ^ 63 + 1) 0 t = Some n"
    unfolding Atoi_def by (cases s) (auto simp del: parse_digits.simps split: if_splits)
  then show ?thesis
  proof cases
    case 1
    have "int n < 2 ^ 63" using p [OF 1(2)] by simp
    then show ?thesis using 1(1) by (simp add: int64_def)
  next
    case 2
    have "int n < 2 ^ 63 + 1" using q [OF 2(2)] by simp
    then show ?thesis using 2(1) by (simp add: int64_def)
  qed
qed

lemma keeps_int [keeps_intros]: "keeps int64 dec_int"
  unfolding dec_int_def using Atoi_int64 by (rule keeps_number)

lemma keeps_field:
  assumes "keeps Q d" "\<And>r. P r \<Longrightarrow> Q (get r)" "\<And>r x. P r \<Longrightarrow> Q x \<Longrightarrow> P (upd (\<lambda>_. x) r)"
  shows "keeps P (field get upd d)"
  using assms by (simp add: keeps_def field_def Let_def case_prod_beta)

lemma find_field_in: "find_field fs k = Some d \<Longrightarrow> d \<in> snd ` set fs"
  unfolding find_field_def by (auto split: option.splits dest!: map_of_SomeD) force+

lemma keeps_members:
  "\<forall>d\<in>snd ` set fs. keeps P d \<Longrightarrow> P r \<Longrightarrow> P (fst (dec_members fs ms r e))"
proof (induction ms arbitrary: r e)
  case (Cons m ms)
  obtain k j where m: "m = (k, j)" by (cases m)
  show ?case
  proof (cases "find_field fs k")
    case (Some d)
    obtain r' e' where d: "d j r = (r', e')" by fastforce
    have r': "P r'" using keepsD [of P d r j] find_field_in [OF Some] Cons.prems d by auto
    have "P (fst (dec_members fs ms r' (worse e e')))" by (rule Cons.IH [OF Cons.prems(1) r'])
    then show ?thesis using r' Some d m by (cases e') simp_all
  qed (use Cons m in simp)
qed simp

lemma keeps_struct: "(\<And>d. d \<in> snd ` set fs \<Longrightarrow> keeps P d) \<Longrightarrow> keeps P (dec_struct fs)"
proof -
  assume "\<And>d. d \<in> snd ` set fs \<Longrightarrow> keeps P d"
  then have f: "\<forall>d\<in>snd ` set fs. keeps P d" by blast
  have "P (fst (dec_struct fs j r))" if r: "P r" for j r
    using r keeps_members [OF f r] by (cases j) (simp_all add: dec_struct_def)
  then show ?thesis unfolding keeps_def by blast
qed

lemma keeps_elems:
  "keeps Q d \<Longrightarrow> Q zero \<Longrightarrow> \<forall>x\<in>set old. Q x \<Longrightarrow> \<forall>x\<in>set (fst (dec_elems zero d js old e)). Q x"
proof (induction js arbitrary: old e)
  case (Cons j js)
  let ?o = "case old of [] \<Rightarrow> zero | x # _ \<Rightarrow> x"
  obtain x e' where d: "d j ?o = (x, e')" by fastforce
  have "Q ?o" using Cons.prems(2,3) by (cases old) auto
  then have x: "Q x" using keepsD [OF Cons.prems(1), of ?o j] d by simp
  have tl: "\<forall>x\<in>set (tl old). Q x" using Cons.prems(3) by (cases old) auto
  obtain xs e2 where r: "dec_elems zero d js (tl old) (worse e e') = (xs, e2)" by fastforce
  have "\<forall>x\<in>set xs. Q x" using Cons.IH [OF Cons.prems(1,2) tl, of "worse e e'"] r by simp
  then show ?case using d x tl r by (cases e') simp_all
qed simp

lemma keeps_slice: "keeps Q d \<Longrightarrow> Q zero \<Longrightarrow> keeps (\<lambda>xs. \<forall>x\<in>set xs. Q x) (dec_slice zero d)"
proof -
  assume q: "keeps Q d" "Q zero"
  have e: "\<forall>x\<in>set xs. Q x \<Longrightarrow> \<forall>x\<in>set (fst (dec_elems zero d js xs Decoded)). Q x" for js xs by (rule keeps_elems [OF q])
  have "\<forall>y\<in>set (fst (dec_slice zero d j xs)). Q y" if x: "\<forall>x\<in>set xs. Q x" for j xs
    using x e [OF x] by (cases j) (simp_all add: dec_slice_def)
  then show ?thesis unfolding keeps_def by blast
qed

definition map_typed :: "('k \<Rightarrow> bool) \<Rightarrow> ('v \<Rightarrow> bool) \<Rightarrow> ('k, 'v) gomap \<Rightarrow> bool" where
  "map_typed K Q m \<longleftrightarrow> gm_wf m \<and> (\<forall>(k, v)\<in>set m. K k \<and> Q v)"

lemma map_typed_Nil [simp]: "map_typed K Q []"
  by (simp add: map_typed_def)

lemma map_typed_put: "map_typed K Q m \<Longrightarrow> K k \<Longrightarrow> Q v \<Longrightarrow> map_typed K Q (gm_put k v m)"
  unfolding map_typed_def using gm_put_in by fastforce

lemma keeps_entries:
  assumes "keeps Q d" "Q zero" "\<And>t k. key t = Some k \<Longrightarrow> K k"
  shows "map_typed K Q m \<Longrightarrow> map_typed K Q (fst (dec_entries key zero d ms m e))"
proof (induction ms arbitrary: m e)
  case (Cons km ms)
  obtain k j where m: "km = (k, j)" by (cases km)
  obtain v e' where d: "d j zero = (v, e')" by fastforce
  have v: "Q v" using keepsD [OF assms(1,2), of j] d by simp
  show ?case
  proof (cases "key k")
    case (Some k')
    have "map_typed K Q (fst (dec_entries key zero d ms (gm_put k' v m) (worse e e')))"
      by (rule Cons.IH [OF map_typed_put [OF Cons.prems assms(3) [OF Some] v]])
    then show ?thesis using Cons.prems d m Some by (cases e') simp_all
  qed (use Cons.prems d m in \<open>cases e'; simp\<close>)
qed simp

lemma keeps_map:
  assumes "keeps Q d" "Q zero" "\<And>t k. key t = Some k \<Longrightarrow> K k"
  shows "keeps (map_typed K Q) (dec_map key zero d)"
proof -
  have "map_typed K Q (fst (dec_map key zero d j m))" if m: "map_typed K Q m" for j m
    using m keeps_entries [OF assms m] by (cases j) (simp_all add: dec_map_def)
  then show ?thesis unfolding keeps_def by blast
qed

lemma keeps_ptr:
  assumes "keeps Q d" "Q zero"
  shows "keeps (\<lambda>x. \<forall>y. x = Some y \<longrightarrow> Q y) (dec_ptr zero d)"
proof -
  have "Q (fst (d j (case x of Some y \<Rightarrow> y | None \<Rightarrow> zero)))" if "\<forall>y. x = Some y \<longrightarrow> Q y" for j x
    using keepsD [OF assms(1), of "case x of Some y \<Rightarrow> y | None \<Rightarrow> zero" j] assms(2) that by (cases x) simp_all
  then show ?thesis unfolding keeps_def dec_ptr_def by (simp add: Let_def case_prod_beta)
qed

lemma Unmarshal_keeps: "keeps P d \<Longrightarrow> P old \<Longrightarrow> P (fst (Unmarshal d s old))"
  using keepsD [of P d old] by (simp add: Unmarshal_def Let_def case_prod_beta split: option.split)

section \<open>The types of the service\<close>

definition counts_typed :: "(string, int) gomap \<Rightarrow> bool" where
  "counts_typed = map_typed (\<lambda>k. True) int64"

definition rvs_typed :: "TransitResourceVersionMap \<Rightarrow> bool" where
  "rvs_typed = map_typed RvLocation_ok (\<lambda>v. True)"

definition geo_typed :: "NodeGeoInfo \<Rightarrow> bool" where
  "geo_typed g \<longleftrightarrow> int64 (geo_Region g) \<and> int64 (geo_ResourcePartition g)"

definition resource_typed :: "NodeResource \<Rightarrow> bool" where
  "resource_typed r \<longleftrightarrow> int64 (MilliCPU r) \<and> int64 (Memory r) \<and> int64 (EphemeralStorage r) \<and>
     int64 (AllowedPodNumber r) \<and> counts_typed (ScalarResources r)"

definition node_typed :: "LogicalNode \<Rightarrow> bool" where
  "node_typed n \<longleftrightarrow> geo_typed (node_GeoInfo n) \<and> resource_typed (node_AllocatableResource n)"

definition request_typed :: "ResourceRequest \<Rightarrow> bool" where
  "request_typed r \<longleftrightarrow> int64 (TotalMachines r) \<and>
     (\<forall>p\<in>set (RequestInRegions r). counts_typed (Machines p) \<and> counts_typed (SpecialHardwareMachines p))"

lemma int64_0 [simp]: "int64 0"
  by (simp add: int64_def)

lemma counts_typed_Nil [simp]: "counts_typed []"
  by (simp add: counts_typed_def)

lemma keeps_counts [keeps_intros]: "keeps counts_typed dec_counts"
  unfolding counts_typed_def dec_counts_def by (rule keeps_map) (simp_all add: keeps_int)

lemma keeps_RvLocation: "keeps RvLocation_ok dec_RvLocation"
  unfolding dec_RvLocation_def
  by (rule keeps_struct) (auto simp: RvLocation_ok_def intro!: keeps_field [OF keeps_int])

lemma RvLocation_UnmarshalText_ok: "RvLocation_UnmarshalText t = Some l \<Longrightarrow> RvLocation_ok l"
  using Unmarshal_keeps [OF keeps_RvLocation, of zero_RvLocation t]
  by (auto simp: RvLocation_UnmarshalText_def zero_RvLocation_def RvLocation_ok_def Let_def split: prod.splits if_splits)

lemma keeps_rvs [keeps_intros]: "keeps rvs_typed dec_rvs"
  unfolding rvs_typed_def dec_rvs_def by (rule keeps_map) (auto simp: keeps_True RvLocation_UnmarshalText_ok)

lemma keeps_geo [keeps_intros]: "keeps geo_typed dec_geo"
  unfolding dec_geo_def
  by (rule keeps_struct)
    (auto simp: geo_typed_def intro!: keeps_field [OF keeps_int] keeps_field [OF keeps_True [of dec_string]])

lemma keeps_resource [keeps_intros]: "keeps resource_typed dec_resource"
  unfolding dec_resource_def
  by (rule keeps_struct)
    (auto simp: resource_typed_def intro!: keeps_field [OF keeps_int] keeps_field [OF keeps_counts])

lemma keeps_untyped_field: "(\<And>r x. P r \<Longrightarrow> P (upd (\<lambda>_. x) r)) \<Longrightarrow> keeps P (field get upd d)"
  by (rule keeps_field [OF keeps_True]) simp_all

lemma keeps_node [keeps_intros]: "keeps node_typed (dec_node tc)"
  unfolding dec_node_def
proof (rule keeps_struct)
  have "keeps node_typed (field node_GeoInfo node_GeoInfo_update dec_geo)"
    by (rule keeps_field [OF keeps_geo]) (simp_all add: node_typed_def)
  moreover have "keeps node_typed (field node_AllocatableResource node_AllocatableResource_update dec_resource)"
    by (rule keeps_field [OF keeps_resource]) (simp_all add: node_typed_def)
  ultimately show "keeps node_typed d" if "d \<in> snd ` set (node_fields tc)" for d
    using that by (auto simp: node_fields_def node_typed_def intro: keeps_untyped_field)
qed

lemma keeps_ResourceRequest [keeps_intros]: "keeps request_typed dec_ResourceRequest"
proof -
  let ?Q = "\<lambda>p. counts_typed (Machines p) \<and> counts_typed (SpecialHardwareMachines p)"
  have "keeps ?Q dec_PerRegion"
    unfolding dec_PerRegion_def
    by (rule keeps_struct) (auto intro: keeps_field [OF keeps_counts] keeps_untyped_field)
  then have s: "keeps (\<lambda>xs. \<forall>p\<in>set xs. ?Q p) (dec_slice zero_PerRegion dec_PerRegion)"
    by (rule keeps_slice) (simp add: zero_PerRegion_def)
  show ?thesis
    unfolding dec_ResourceRequest_def
    by (rule keeps_struct) (auto simp: request_typed_def intro!: keeps_field [OF keeps_int] keeps_field [OF s])
qed

lemma keeps_nil_map: "keeps P d \<Longrightarrow> P [] \<Longrightarrow> keeps (\<lambda>x. \<forall>m. x = Some m \<longrightarrow> P m) (dec_nil_map d)"
proof -
  assume d: "keeps P d" "P []"
  have "\<forall>m. fst (dec_nil_map d j x) = Some m \<longrightarrow> P m" if x: "\<forall>m. x = Some m \<longrightarrow> P m" for j x
  proof (cases j)
    case (JObj ms)
    have "P (case x of None \<Rightarrow> [] | Some m \<Rightarrow> m)" using x d(2) by (cases x) simp_all
    then show ?thesis using keepsD [OF d(1)] JObj by (simp add: dec_nil_map_def Let_def case_prod_beta)
  qed (use x in \<open>simp_all add: dec_nil_map_def\<close>)
  then show ?thesis unfolding keeps_def by blast
qed

lemma decoded_registration:
  "request_typed (InitialRequestedResource (fst (Unmarshal dec_RegistrationRequest s zero_RegistrationRequest)))"
proof -
  have "keeps (\<lambda>r. request_typed (InitialRequestedResource r)) dec_RegistrationRequest"
    unfolding dec_RegistrationRequest_def
    by (rule keeps_struct) (auto intro: keeps_untyped_field keeps_field [OF keeps_ResourceRequest])
  then show ?thesis
    by (rule Unmarshal_keeps) (simp add: zero_RegistrationRequest_def zero_ResourceRequest_def request_typed_def)
qed

lemma decoded_watch: "wr_ResourceVersions (fst (Unmarshal dec_WatchRequest s zero_WatchRequest)) = Some m \<Longrightarrow> rvs_typed m"
proof -
  have n: "keeps (\<lambda>x. \<forall>m. x = Some m \<longrightarrow> rvs_typed m) (dec_nil_map dec_rvs)"
    by (rule keeps_nil_map [OF keeps_rvs]) (simp add: rvs_typed_def)
  have "keeps (\<lambda>r. \<forall>m. wr_ResourceVersions r = Some m \<longrightarrow> rvs_typed m) dec_WatchRequest"
    unfolding dec_WatchRequest_def by (rule keeps_struct) (auto intro!: keeps_field [OF n])
  from Unmarshal_keeps [OF this, of zero_WatchRequest s]
  show "wr_ResourceVersions (fst (Unmarshal dec_WatchRequest s zero_WatchRequest)) = Some m \<Longrightarrow> rvs_typed m"
    by (simp add: zero_WatchRequest_def)
qed

lemma zero_node_typed [simp]: "node_typed zero_node"
  by (simp add: node_typed_def geo_typed_def resource_typed_def zero_node_def)

lemma decoded_list:
  fixes tc s
  defines "l \<equiv> fst (Unmarshal (dec_ListNodeResponse tc) s zero_ListNodeResponse)"
  shows "\<forall>n\<in>set (NodeList l). node_typed n" "rvs_typed (lr_ResourceVersions l)"
proof -
  have n: "keeps (\<lambda>xs. \<forall>n\<in>set xs. node_typed n) (dec_slice zero_node (dec_node tc))"
    by (rule keeps_slice [OF keeps_node]) simp
  have "keeps (\<lambda>r. (\<forall>n\<in>set (NodeList r). node_typed n) \<and> rvs_typed (lr_ResourceVersions r)) (dec_ListNodeResponse tc)"
    unfolding dec_ListNodeResponse_def
    by (rule keeps_struct) (auto intro!: keeps_field [OF n] keeps_field [OF keeps_rvs])
  then have "(\<forall>n\<in>set (NodeList l). node_typed n) \<and> rvs_typed (lr_ResourceVersions l)"
    unfolding l_def by (rule Unmarshal_keeps) (simp add: zero_ListNodeResponse_def rvs_typed_def)
  then show "\<forall>n\<in>set (NodeList l). node_typed n" "rvs_typed (lr_ResourceVersions l)" by simp_all
qed

end
