(* ===== verification/GRS_Examples.thy ===== *)
theory GRS_Examples
  imports GRS_Batch GRS_ServiceApi
begin

text \<open>
  A small concrete world, for the witnesses of the properties: a node store of one region, one
  partition and one virtual store, 51 nodes with one-letter names, the distributor that holds them
  over the fake storage (fakestore.go), and the same distributor after one client has registered.
  The hash values of the 51 names are computed; everything else follows from the lemmas of the
  components.
\<close>

section \<open>One store\<close>

definition demo_loc :: Location where
  "demo_loc = \<lparr>loc_region = 0, loc_partition = 0\<rparr>"

definition demo_node :: "string \<Rightarrow> string \<Rightarrow> LogicalNode" where
  "demo_node i rv = zero_node\<lparr>node_Id := i, node_ResourceVersion := rv\<rparr>"

definition demo_event :: "string \<Rightarrow> string \<Rightarrow> EventType \<Rightarrow> ManagedNodeEvent" where
  "demo_event i rv ty = NewManagedNodeEvent (NewNodeEvent (demo_node i rv) ty) demo_loc"

definition demo_ns :: NodeStore where
  "demo_ns = projr (NewNodeStore 1 1 1)"

lemma demo_event_simps [simp]:
  "GetId (demo_event i rv ty) = i" "GetLocation (demo_event i rv ty) = demo_loc"
  "GetEventType (demo_event i rv ty) = ty"
  "nodeEvent (demo_event i rv ty) = NewNodeEvent (demo_node i rv) ty"
  "GetNodeEvent (demo_event i rv ty) = NewNodeEvent (demo_node i rv) ty"
  "GetResourceVersion (demo_event i rv ty) = (case ParseUint rv of None \<Rightarrow> 0 | Some v \<Rightarrow> v)"
  by (simp_all add: demo_event_def demo_node_def NewNodeEvent_def GetEventType_def GetResourceVersion_def
      NewManagedNodeEvent_def GetId_def GetLocation_def GetNodeEvent_def)

lemma demo_loc_valid [simp]: "valid_location demo_loc" "loc_index demo_loc = 0"
  by (simp_all add: demo_loc_def valid_location_def loc_index_def)

lemma demo_ns_new:
  "NewNodeStore 1 1 1 = Inr demo_ns" "granularOfRing demo_ns = 360" "length (vNodeStores demo_ns) = 1"
  "regionNum demo_ns = 1" "partitionMaxNum demo_ns = 1" "currentRVs demo_ns = [[0]]"
  "fresh_store demo_loc (vNodeStores demo_ns ! 0)" "totalHostNum demo_ns = 0"
proof -
  obtain ns where ns: "NewNodeStore 1 1 1 = Inr ns"
    "granularOfRing ns = f64_div RingRange (f64_of_int (int (1 * 1 * 1)))"
    "regionNum ns = 1" "partitionMaxNum ns = 1"
    "length (vNodeStores ns) = 1 * 1 * 1" "totalHostNum ns = 0" "currentRVs ns = replicate 1 (replicate 1 0)"
    "\<And>k m i. k < 1 \<Longrightarrow> m < 1 \<Longrightarrow> i < 1 \<Longrightarrow>
       fresh_store (nth_location k m) (vNodeStores ns ! (k * (1 * 1) + (m * 1 + i)))"
    by (rule NewNodeStore_ok [of 1 1 1]) simp_all
  have d: "demo_ns = ns" using ns(1) by (simp add: demo_ns_def)
  have "f64_div RingRange (f64_of_int 1) = 360"
    using f64_of_int_small [of 1] fl_int [of 360] by (simp add: f64_div_def RingRange_def)
  then show "NewNodeStore 1 1 1 = Inr demo_ns" "granularOfRing demo_ns = 360" "length (vNodeStores demo_ns) = 1"
    "regionNum demo_ns = 1" "partitionMaxNum demo_ns = 1" "currentRVs demo_ns = [[0]]"
    "fresh_store demo_loc (vNodeStores demo_ns ! 0)" "totalHostNum demo_ns = 0"
    using ns(1-7) ns(8) [of 0 0 0] by (simp_all add: d nth_location_def demo_loc_def)
qed

lemma demo_ns_inv: "NodeStore_inv demo_ns []"
  by (rule NewNodeStore_inv [OF demo_ns_new(1)]) simp_all

lemma ring_value_unit: "0 \<le> ring_value h \<and> ring_value h \<le> 1"
proof (cases "h = 0")
  case False
  have "uint h \<le> 2 ^ 64 - 1" using uint_bounded [of h] by simp
  then have "f64_of_int (uint h) \<le> f64_of_int (2 ^ 64 - 1)"
    unfolding f64_of_int_def by (intro fl_mono) (simp only: of_int_le_iff)
  then have b: "f64_of_int (uint h) / 2 ^ 64 \<le> 1" by (simp only: f64_of_int_max) (simp add: divide_le_eq)
  have "(0 :: rat) \<le> of_int (uint h)" by (simp only: of_int_0_le_iff uint_nonnegative)
  then have "0 \<le> f64_of_int (uint h)" unfolding f64_of_int_def by (rule fl_nonneg)
  then have "0 \<le> fl (f64_of_int (uint h) / 2 ^ 64)" by (intro fl_nonneg) simp
  moreover have "fl (f64_of_int (uint h) / 2 ^ 64) \<le> 1" using fl_mono [OF b] fl_int [of 1] by simp
  ultimately show ?thesis using False by (simp only: ring_value_def f64_div_def f64_of_int_max if_False)
qed (simp add: ring_value_def)

lemma demo_hash: "GetLocation e = demo_loc \<Longrightarrow> getNodeHash e = ring_value (HashStrToUInt64 (GetId e))"
  using getNodeHash_eq [of e] ring_value_rep by simp

lemma demo_store_index:
  assumes "GetLocation e = demo_loc" "granularOfRing ns = 360" "length (vNodeStores ns) = 1"
  shows "getVirtualNodeStore e ns = Inr (getNodeHash e, 0)"
proof -
  have h: "0 \<le> getNodeHash e" "getNodeHash e \<le> 1" using ring_value_unit demo_hash [OF assms(1)] by simp_all
  have "0 \<le> fl (getNodeHash e / 360)" using h by (intro fl_nonneg) simp
  moreover have "fl (getNodeHash e / 360) \<le> fl (2 powi (- 1))" using h by (intro fl_mono) simp
  then have "fl (getNodeHash e / 360) < 1" using fl_rep [OF f64_rep_powi [of "- 1"]] by simp
  ultimately have "\<lfloor>f64_div (getNodeHash e) (granularOfRing ns)\<rfloor> = 0"
    by (simp add: f64_div_def assms(2) floor_eq_iff)
  then show ?thesis unfolding getVirtualNodeStore_def Let_def using assms(3) by simp
qed


section \<open>Fifty-one nodes\<close>

definition demo_ids :: "string list" where
  "demo_ids = map (\<lambda>n. [char_of n]) [33..<84 :: nat]"

fun spread :: "int list \<Rightarrow> bool" where
  "spread [] = True"
| "spread (x # xs) = (list_all (\<lambda>y. x + 8192 \<le> y \<or> y + 8192 \<le> x) xs \<and> spread xs)"

lemma demo_ids_spread: "spread (map (\<lambda>i. uint (HashStrToUInt64 i)) demo_ids)"
  by code_simp

lemma demo_ids_nonzero: "list_all (\<lambda>i. HashStrToUInt64 i \<noteq> 0) demo_ids"
  by code_simp

lemma demo_ids_length: "length demo_ids = 51" "distinct demo_ids"
  by code_simp+

lemma fl_apart:
  assumes "0 < x" "x + 8192 \<le> y" "y \<le> 2 ^ 64"
  shows "fl (of_int x) < fl (of_int y)"
proof -
  have x: "fl (of_int x) \<le> of_int x + 2 ^ 11"
    using fl_upper [of "of_int x"] assms by (simp add: field_simps)
  have "of_int y / 2 ^ 53 \<le> (2 ^ 11 :: rat)"
  proof -
    have "(of_int y :: rat) \<le> of_int (2 ^ 64)" using assms(3) by (simp only: of_int_le_iff)
    then show ?thesis by simp
  qed
  then have "of_int y - 2 ^ 11 \<le> fl (of_int y)" using fl_lower [of "of_int y"] assms by simp
  moreover have "(of_int x + 8192 :: rat) \<le> of_int y"
    using assms(2) by (metis of_int_add of_int_le_iff of_int_numeral)
  ultimately show ?thesis using x by simp
qed

lemma uint_positive:
  fixes h :: uint64
  assumes "h \<noteq> 0" shows "0 < uint h"
proof (rule ccontr)
  assume "\<not> 0 < uint h"
  then have "uint h = uint (0 :: uint64)" using uint_nonnegative [of h] by (simp only: unsigned_0)
  then have "h = 0" by (rule word_uint_eq_iff [THEN iffD2])
  then show False using assms by simp
qed

lemma ring_value_apart:
  assumes "h \<noteq> 0" "h' \<noteq> 0" "uint h + 8192 \<le> uint h'"
  shows "ring_value h < ring_value h'"
proof -
  have r: "ring_value g = fl (of_int (uint g)) / 2 ^ 64" if "g \<noteq> 0" for g :: uint64
  proof -
    have "0 < uint g" using that by (rule uint_positive)
    then have "f64_rep (fl (of_int (uint g)))" by (intro f64_rep_fl) (simp only: of_int_0_less_iff)
    then obtain m e where "0 < m" "m \<le> 2 ^ 53" "fl (of_int (uint g)) = of_int m * 2 powi e"
      unfolding f64_rep_def by blast
    then have "f64_rep (fl (of_int (uint g)) / 2 ^ 64)"
      by (intro f64_repI [of m _ "e - 64"]) (simp_all add: power_int_diff)
    then have "fl (fl (of_int (uint g)) / 2 ^ 64) = fl (of_int (uint g)) / 2 ^ 64" by (rule fl_rep)
    then show ?thesis
      using that by (simp only: ring_value_def f64_div_def f64_of_int_max if_False) (simp only: f64_of_int_def)
  qed
  have "0 < uint h" using assms(1) by (rule uint_positive)
  then have "fl (of_int (uint h)) < fl (of_int (uint h'))"
    using assms(3) uint_bounded [of h'] by (intro fl_apart) simp_all
  then show ?thesis using r [OF assms(1)] r [OF assms(2)] by (simp add: divide_strict_right_mono)
qed

lemma spread_distinct:
  "spread (map (\<lambda>i. uint (HashStrToUInt64 i)) is) \<Longrightarrow> list_all (\<lambda>i. HashStrToUInt64 i \<noteq> 0) is \<Longrightarrow>
    distinct (map (\<lambda>i. ring_value (HashStrToUInt64 i)) is)"
proof (induction "is")
  case (Cons i "is")
  have "ring_value (HashStrToUInt64 i) \<noteq> ring_value (HashStrToUInt64 j)" if j: "j \<in> set is" for j
  proof -
    have "uint (HashStrToUInt64 i) + 8192 \<le> uint (HashStrToUInt64 j) \<or>
        uint (HashStrToUInt64 j) + 8192 \<le> uint (HashStrToUInt64 i)"
      "HashStrToUInt64 i \<noteq> 0" "HashStrToUInt64 j \<noteq> 0"
      using Cons.prems j by (auto simp: list_all_iff)
    then show ?thesis using ring_value_apart by force
  qed
  then show ?case using Cons by auto
qed simp

lemma demo_keys_distinct: "distinct (map (\<lambda>i. ring_value (HashStrToUInt64 i)) demo_ids)"
  by (rule spread_distinct [OF demo_ids_spread demo_ids_nonzero])


section \<open>The store that holds them\<close>

definition demo_events :: "ManagedNodeEvent list" where
  "demo_events = map (\<lambda>i. demo_event i ''7'' Added) demo_ids"

definition demo_table :: "NodeStore \<Rightarrow> bool" where
  "demo_table ns \<longleftrightarrow> granularOfRing ns = 360 \<and> length (vNodeStores ns) = 1 \<and>
     regionNum ns = 1 \<and> partitionMaxNum ns = 1 \<and> rvs_shape ns"

lemma demo_ns_table: "demo_table demo_ns"
  by (simp add: demo_table_def demo_ns_new rvs_shape_def)

lemma demo_process:
  assumes "demo_table ns" "GetLocation e = demo_loc"
  shows "\<exists>b ns' h'. processNodeEvent e (ns, h) = Inr (b, ns', h') \<and> demo_table ns'"
proof (cases "changes e")
  case True
  let ?ns = "ring_store e (getNodeHash e) 0 ns"
  have v: "getVirtualNodeStore e ns = Inr (getNodeHash e, 0)"
    using demo_store_index [OF assms(2)] assms(1) by (simp add: demo_table_def)
  have "rv_index demo_loc ?ns = Inr (0, 0)"
    using assms(1) by (auto simp: demo_table_def rvs_shape_def rv_index_Inr demo_loc_def nth_location_def)
  then have "\<exists>ns'. update_rv e ?ns = Inr ns'" by (simp add: update_rv_def assms(2))
  then obtain ns' where u: "update_rv e ?ns = Inr ns'" ..
  have "rvs_shape ?ns" using assms(1) by (simp add: demo_table_def rvs_shape_def)
  then have "demo_table ns'"
    using assms(1) rvs_shape_update_rv [OF u] update_rv_frame [OF u] by (simp add: demo_table_def)
  then show ?thesis using processNodeEvent_eq [OF v, of h] True u by (auto simp: changes_def)
next
  case False
  then show ?thesis using processNodeEvent_skip assms(1) by blast
qed

lemma demo_process_all:
  "demo_table ns \<Longrightarrow> \<forall>e\<in>set es. GetLocation e = demo_loc \<Longrightarrow>
    \<exists>ns' h'. process_all es (ns, h) = Inr (ns', h') \<and> demo_table ns'"
proof (induction es arbitrary: ns h)
  case (Cons e es)
  obtain b ns1 h1 where "processNodeEvent e (ns, h) = Inr (b, ns1, h1)" "demo_table ns1"
    using demo_process [OF Cons.prems(1)] Cons.prems(2) by (metis list.set_intros(1))
  then show ?case using Cons.IH [of ns1 h1] Cons.prems(2) by simp
qed simp

definition demo_full :: NodeStore where
  "demo_full = fst (projr (process_all demo_events (demo_ns, [])))"

lemma demo_full_run:
  "process_all demo_events (demo_ns, []) = Inr (demo_full, [])" "demo_table demo_full"
  "NodeStore_inv demo_full []" "same_meta demo_ns demo_full"
proof -
  obtain ns h where r: "process_all demo_events (demo_ns, []) = Inr (ns, h)" "demo_table ns"
    using demo_process_all [OF demo_ns_table, of demo_events "[]"] by (auto simp: demo_events_def)
  have f: "demo_full = ns" using r(1) by (simp add: demo_full_def)
  show "process_all demo_events (demo_ns, []) = Inr (demo_full, [])" "demo_table demo_full"
    "NodeStore_inv demo_full []" "same_meta demo_ns demo_full"
    using r process_all_length [OF r(1) demo_ns_inv] by (simp_all add: f)
qed

lemma demo_full_slots:
  assumes "i \<in> set demo_ids"
  shows "\<exists>n. slot_of demo_full (ring_value (HashStrToUInt64 i)) 0 = Some n"
proof -
  let ?e = "demo_event i ''7'' Added"
  have v: "getVirtualNodeStore ?e demo_ns = Inr (ring_value (HashStrToUInt64 i), 0)"
    using demo_store_index [of ?e demo_ns] demo_hash [of ?e] by (simp add: demo_ns_new)
  have e: "?e \<in> set (slot_history demo_ns (ring_value (HashStrToUInt64 i)) 0 demo_events)"
    using assms v by (auto simp: slot_history_def demo_events_def changes_def)
  have "fold absorb es old \<noteq> None" if "es \<noteq> []" for es old
    using that absorb_Some by (induction es arbitrary: old rule: list_nonempty_induct) auto
  then show ?thesis
    using process_all_slot [OF demo_full_run(1)] e by (metis empty_iff not_None_eq set_empty2 length_pos_if_in_set list.size(3) less_irrefl)
qed

lemma demo_full_hosts: "51 \<le> GetHostNum (vNodeStores demo_full ! 0)" "51 \<le> totalHostNum demo_full"
proof -
  let ?m = "nodeEventByHash (vNodeStores demo_full ! 0)"
  have "set (map (\<lambda>i. ring_value (HashStrToUInt64 i)) demo_ids) \<subseteq> set (gm_keys ?m)"
    using demo_full_slots by (force simp: gm_keys_set slot_of_def)
  then have "card (set (map (\<lambda>i. ring_value (HashStrToUInt64 i)) demo_ids)) \<le> card (set (gm_keys ?m))"
    by (intro card_mono) simp_all
  then have "51 \<le> card (set (gm_keys ?m))"
    using distinct_card [OF demo_keys_distinct] demo_ids_length by simp
  then show h: "51 \<le> GetHostNum (vNodeStores demo_full ! 0)"
    using card_length [of "gm_keys ?m"] by (simp add: GetHostNum_def gm_len_def gm_keys_def)
  have "length (vNodeStores demo_full) = 1" "hosts_counted demo_full"
    using demo_full_run(2,3) by (simp_all add: demo_table_def NodeStore_inv_def)
  then show "51 \<le> totalHostNum demo_full"
    using h by (cases "vNodeStores demo_full") (auto simp: hosts_counted_def)
qed


section \<open>The distributor and a registered client\<close>

definition demo_fake :: FakeStorageInterface where
  "demo_fake = \<lparr>PersistDelayInNS = 0, NodeIds = Some gm_empty, isTestNodeIdMatch = True, slept = 0\<rparr>"

definition demo_dis :: "FakeStorageInterface Distributor" where
  "demo_dis = \<lparr>defaultNodeStore = demo_full, nodeEventQueueMap = gm_empty, clientToStores = gm_empty,
     dis_queues = [], dis_store = demo_fake\<rparr>"

definition demo_client :: Client where
  "demo_client = \<lparr>ClientId = ''Client-1'', ClientInfo = \<lparr>ClientName = ''one'', ci_Region = ''Beijing''\<rparr>,
     Resource = \<lparr>TotalMachines = 51, RequestInRegions = []\<rparr>\<rparr>"

definition demo_reg :: "FakeStorageInterface Distributor" where
  "demo_reg = snd (RegisterClient fake_store (\<lambda>xs. xs) (\<lambda>xs. xs) demo_client demo_dis)"

lemma fs_ready_demo [simp]: "fs_ready demo_fake"
  by (simp add: fs_ready_def demo_fake_def)

lemma demo_dis_store [simp]:
  "defaultNodeStore demo_dis = demo_full" "dis_queues demo_dis = []" "dis_store demo_dis = demo_fake"
  "gm_get (nodeEventQueueMap demo_dis) c = None" "gm_get (clientToStores demo_dis) c = None"
  by (simp_all add: demo_dis_def)

lemma demo_full_unassigned: "vs_clientId (vNodeStores demo_full ! 0) = ''''" "length (vNodeStores demo_full) = 1"
proof -
  show "length (vNodeStores demo_full) = 1" using demo_full_run(2) by (simp add: demo_table_def)
  show "vs_clientId (vNodeStores demo_full ! 0) = ''''"
    using demo_full_run(4) demo_ns_new(3,7) by (simp add: same_meta_def fresh_store_def)
qed

lemma demo_dis_ok: "dis_ok demo_dis" "dis_inv demo_dis"
proof -
  have "owner_links demo_dis"
    using demo_full_unassigned by (simp add: owner_links_def virtual_store_def)
  then show "dis_inv demo_dis"
    using demo_full_run(3) by (simp add: dis_inv_def) (simp add: demo_dis_def)
  then show "dis_ok demo_dis" using demo_full_run(2) by (simp add: dis_ok_def demo_table_def)
qed

lemma demo_free: "free_stores demo_dis = [0]" "51 \<le> free_hosts demo_dis"
proof -
  show f: "free_stores demo_dis = [0]"
    using demo_full_unassigned demo_full_hosts(1)
    by (simp add: free_stores_def virtual_store_def GetAssignedClient_def)
  then show "51 \<le> free_hosts demo_dis"
    using demo_full_hosts(1) by (simp add: free_hosts_def virtual_store_def)
qed

lemma demo_allocate:
  obtains n dis' where
    "allocateNodesToClient fake_store (\<lambda>xs. xs) (\<lambda>xs. xs) ''Client-1'' 51 demo_dis = Inr (n, dis')"
  using allocate_succeeds [of "\<lambda>xs. xs" "\<lambda>xs. xs" 51 demo_dis "''Client-1''" fake_store]
    demo_full_hosts(2) demo_free(2) by auto

lemma demo_register:
  "RegisterClient fake_store (\<lambda>xs. xs) (\<lambda>xs. xs) demo_client demo_dis = (None, demo_reg)"
  "gm_get (clientToStores demo_reg) ''Client-1'' = Some [0]"
  "gm_get (nodeEventQueueMap demo_reg) ''Client-1'' = Some 0"
  "length (dis_queues demo_reg) = 1" "dis_inv demo_reg" "dis_ok demo_reg"
  and demo_reg_table: "granularOfRing (defaultNodeStore demo_reg) = 360"
    "length (vNodeStores (defaultNodeStore demo_reg)) = 1"
    "regionNum (defaultNodeStore demo_reg) = 1" "partitionMaxNum (defaultNodeStore demo_reg) = 1"
proof -
  obtain n dis' where a: "allocateNodesToClient fake_store (\<lambda>xs. xs) (\<lambda>xs. xs) ''Client-1'' 51 demo_dis = Inr (n, dis')"
    by (rule demo_allocate)
  have r: "RegisterClient fake_store (\<lambda>xs. xs) (\<lambda>xs. xs) demo_client demo_dis =
      (None, dis'\<lparr>dis_store := simulateDelay 1 (dis_store dis')\<rparr>)"
    using a by (simp add: RegisterClient_def demo_client_def fake_store_def fs_PersistClient_def)
  then show reg: "RegisterClient fake_store (\<lambda>xs. xs) (\<lambda>xs. xs) demo_client demo_dis = (None, demo_reg)"
    by (simp add: demo_reg_def)
  have d: "demo_reg = dis'\<lparr>dis_store := simulateDelay 1 (dis_store dis')\<rparr>" using r by (simp add: demo_reg_def)
  from allocate_Inr [OF a] obtain selected q s' where s:
    "select_stores (\<lambda>i. GetHostNum (virtual_store demo_dis i)) 51 (free_stores demo_dis) [] 0 = (selected, n, True)"
    "dis' = demo_dis\<lparr>dis_queues := dis_queues demo_dis @ [q],
      nodeEventQueueMap := gm_put ''Client-1'' (length (dis_queues demo_dis)) (nodeEventQueueMap demo_dis),
      defaultNodeStore := fold (assign_store ''Client-1'' (length (dis_queues demo_dis))) selected (defaultNodeStore demo_dis),
      clientToStores := gm_put ''Client-1'' selected (clientToStores demo_dis), dis_store := s'\<rparr>"
    by metis
  have "selected = [0]"
    using s(1) demo_full_hosts(1) by (simp add: demo_free virtual_store_def)
  then show "gm_get (clientToStores demo_reg) ''Client-1'' = Some [0]"
    "gm_get (nodeEventQueueMap demo_reg) ''Client-1'' = Some 0" "length (dis_queues demo_reg) = 1"
    by (simp_all add: d s(2) gomap_simps)
  show "granularOfRing (defaultNodeStore demo_reg) = 360" "length (vNodeStores (defaultNodeStore demo_reg)) = 1"
    "regionNum (defaultNodeStore demo_reg) = 1" "partitionMaxNum (defaultNodeStore demo_reg) = 1"
    using demo_full_run(2) by (simp_all add: d s(2) demo_table_def)
  show "dis_inv demo_reg" "dis_ok demo_reg"
    using RegisterClient_keeps_inv [OF demo_dis_ok(2) range_order_id range_order_id _ reg]
      dis_ok_register [OF demo_dis_ok(1) range_order_id range_order_id _ reg]
    by (simp_all add: demo_client_def)
qed


section \<open>A batch for the demo distributor\<close>

definition demo_batch :: "NodeEvent option list" where
  "demo_batch = [Some (NewNodeEvent (demo_node ''n1'' ''8'') Added), None, Some (NewNodeEvent (demo_node ''n2'' ''9'') Added)]"

lemma demo_batch_process:
  "\<exists>st. process_all (non_nil (events_to_process enabled now 0 demo_batch)) (demo_full, []) = Inr st"
proof -
  have "\<forall>e\<in>set (non_nil (events_to_process enabled now 0 demo_batch)). GetLocation e = demo_loc"
    by (simp add: demo_batch_def managed_event_def NewNodeEvent_def demo_node_def zero_node_def NewLocation_def demo_loc_def)
  then show ?thesis using demo_process_all [OF demo_full_run(2)] by blast
qed

lemma demo_batch_start:
  obtains r d w where "ProcessEvents_start fake_store True (\<lambda>i. 5) demo_batch demo_dis = Inr (r, d, w)"
proof -
  obtain ns' h' where
    "process_all (non_nil (events_to_process True (\<lambda>i. 5) 0 demo_batch)) (demo_full, []) = Inr (ns', h')"
    using demo_batch_process [of True "\<lambda>i. 5"] by (metis surj_pair)
  then show ?thesis
    using ProcessEvents_start_ok [OF demo_dis_ok(2), where si = fake_store] that by (metis demo_dis_store(1,2))
qed

lemma demo_batch_fun:
  "\<exists>r dis'. ProcessEvents_fun fake_store enabled now demo_batch demo_dis = Inr (r, dis')"
proof -
  obtain st where
    "process_all (non_nil (events_to_process enabled now 0 demo_batch)) (defaultNodeStore demo_dis, dis_queues demo_dis) = Inr st"
    using demo_batch_process [of enabled now] unfolding demo_dis_store by blast
  from ProcessEvents_fun_total [OF demo_dis_ok(2) _ this] show ?thesis by simp
qed

section \<open>A queue with two locations\<close>

definition demo_loc2 :: Location where
  "demo_loc2 = \<lparr>loc_region = 0, loc_partition = 1\<rparr>"

definition demo_event2 :: "string \<Rightarrow> string \<Rightarrow> EventType \<Rightarrow> ManagedNodeEvent" where
  "demo_event2 i rv ty = NewManagedNodeEvent (NewNodeEvent (demo_node i rv) ty) demo_loc2"

definition demo_queue :: NodeEventQueue where
  "demo_queue = fold EnqueueEvent
     [demo_event ''a'' ''5'' Added, demo_event2 ''b'' ''6'' Added, demo_event ''a'' ''7'' Modified] (NewNodeEventQueue ''c'')"

lemma demo_event2_simps [simp]:
  "GetId (demo_event2 i rv ty) = i" "GetLocation (demo_event2 i rv ty) = demo_loc2"
  "GetEventType (demo_event2 i rv ty) = ty"
  "GetNodeEvent (demo_event2 i rv ty) = NewNodeEvent (demo_node i rv) ty"
  "GetResourceVersion (demo_event2 i rv ty) = (case ParseUint rv of None \<Rightarrow> 0 | Some v \<Rightarrow> v)"
  by (simp_all add: demo_event2_def demo_node_def NewNodeEvent_def GetEventType_def GetResourceVersion_def
      NewManagedNodeEvent_def GetId_def GetLocation_def GetNodeEvent_def)

lemma demo_rvs [simp]:
  "ParseUint ''5'' = Some 5" "ParseUint ''6'' = Some 6" "ParseUint ''7'' = Some 7" "ParseUint ''8'' = Some 8"
  by (simp_all add: ParseUint_def is_digit_def digit_val_def byte_of_def)

lemma demo_locs [simp]: "demo_loc \<noteq> demo_loc2" "demo_loc2 \<noteq> demo_loc"
  by (simp_all add: demo_loc_def demo_loc2_def)

lemma demo_queue_events:
  "NodeEventQueue_wf demo_queue" "watchChan demo_queue = None"
  "queue_events demo_queue l =
     (if l = demo_loc then [demo_event ''a'' ''5'' Added, demo_event ''a'' ''7'' Modified]
      else if l = demo_loc2 then [demo_event2 ''b'' ''6'' Added] else [])"
proof -
  note H = queue_events_history [of "[demo_event ''a'' ''5'' Added, demo_event2 ''b'' ''6'' Added,
      demo_event ''a'' ''7'' Modified]" "''c''", folded demo_queue_def]
  show "NodeEventQueue_wf demo_queue" using H by blast
  have "lastn LengthOfNodeEventQueue xs = xs" if "length xs \<le> 3" for xs :: "ManagedNodeEvent list"
    using that by (intro lastn_id) (simp add: LengthOfNodeEventQueue_def)
  then show "queue_events demo_queue l =
     (if l = demo_loc then [demo_event ''a'' ''5'' Added, demo_event ''a'' ''7'' Modified]
      else if l = demo_loc2 then [demo_event2 ''b'' ''6'' Added] else [])"
    using H [of l] by auto
  show "watchChan demo_queue = None" by (simp add: demo_queue_def NewNodeEventQueue_def)
qed

lemma demo_queue_sorted: "queues_sorted demo_queue"
  by (simp add: queues_sorted_def rv_sorted_def demo_queue_events)


section \<open>An event for the registered client\<close>

lemma last_in_lastn: "0 < n \<Longrightarrow> xs \<noteq> [] \<Longrightarrow> last xs \<in> set (lastn n xs)"
  by (metis diff_less last_drop last_in_set lastn_def length_greater_0_conv drop_eq_Nil not_le)

lemma demo_reg_event:
  assumes "GetLocation e = demo_loc" "changes e"
  obtains k i b ns' h' where
    "processNodeEvent e (defaultNodeStore demo_reg, dis_queues demo_reg) = Inr (b, ns', h')"
    "getVirtualNodeStore e (defaultNodeStore demo_reg) = Inr (k, i)"
    "vs_eventQueue (vNodeStores (defaultNodeStore demo_reg) ! i) = Some 0"
proof -
  let ?ns = "defaultNodeStore demo_reg"
  have links: "owner_links demo_reg" "NodeStore_inv ?ns (dis_queues demo_reg)"
    using demo_register(5) by (simp_all add: dis_inv_def)
  have t: "demo_table ?ns"
    using demo_reg_table links(2) by (simp add: demo_table_def NodeStore_inv_def)
  have "vs_eventQueue (virtual_store demo_reg 0) = Some 0"
    using links(1) [unfolded owner_links_def, THEN conjunct1, rule_format, OF demo_register(2)] demo_register(3) by auto
  then show ?thesis
    using that demo_process [OF t assms(1), of "dis_queues demo_reg"] demo_store_index [OF assms(1), of ?ns] t
    by (auto simp: demo_table_def virtual_store_def)
qed


lemma demo_full_located: "\<forall>vs\<in>set (vNodeStores demo_full). store_located vs"
proof -
  let ?vs = "vNodeStores demo_full ! 0"
  have "GetLocation e = demo_loc" if "(k, e) \<in> set (nodeEventByHash ?vs)" for k e
  proof -
    have "gm_wf (nodeEventByHash ?vs)"
      using demo_full_run(3) demo_full_unassigned(2) by (simp add: NodeStore_inv_def nodes_placed_def)
    then have "slot_of demo_full k 0 = Some e" using that by (simp add: slot_of_def gm_in_get)
    moreover have "slot_of demo_ns k 0 = None" using demo_ns_new(7) by (simp add: slot_of_def fresh_store_def)
    ultimately have "e \<in> set demo_events"
      using process_all_slot [OF demo_full_run(1), of k 0] fold_absorb_source [of _ None e]
      by (metis (no_types, lifting) filter_is_subset option.distinct(1) slot_history_def subsetD)
    then show ?thesis by (auto simp: demo_events_def)
  qed
  moreover have "vs_location ?vs = demo_loc"
    using demo_full_run(4) demo_ns_new(3,7) by (simp add: same_meta_def fresh_store_def)
  moreover have "set (vNodeStores demo_full) = {?vs}"
    using demo_full_unassigned(2) by (cases "vNodeStores demo_full") auto
  ultimately show ?thesis by (auto simp: store_located_def)
qed

lemma demo_granted:
  assumes "allocateNodesToClient fake_store (\<lambda>xs. xs) (\<lambda>xs. xs) ''Client-1'' 51 demo_dis = Inr (n, dis')"
  shows "gm_get (clientToStores dis') ''Client-1'' = Some [0]" "vs_location (virtual_store demo_dis 0) = demo_loc"
proof -
  have "gm_get (clientToStores demo_reg) ''Client-1'' = gm_get (clientToStores dis') ''Client-1''"
    using assms by (simp add: demo_reg_def RegisterClient_def demo_client_def fake_store_def fs_PersistClient_def)
  then show "gm_get (clientToStores dis') ''Client-1'' = Some [0]" using demo_register(2) by simp
  show "vs_location (virtual_store demo_dis 0) = demo_loc"
    using demo_full_run(4) demo_ns_new(3,7) by (simp add: same_meta_def fresh_store_def virtual_store_def)
qed

lemma demo_list:
  obtains nodes rvs where "ListNodesForClient (\<lambda>xs. xs) (\<lambda>xs. xs) ''Client-1'' demo_reg = Inr (nodes, rvs)"
  using demo_register(2,3) by (simp add: ListNodesForClient_def)


section \<open>Requests of the demo client\<close>

definition demo_batch_stamped :: "NodeEvent option list" where
  "demo_batch_stamped =
     [Some (SetCheckpoint True 4 Aggregator_Received (NewNodeEvent (demo_node ''n1'' ''8'') Added)), None,
      Some (SetCheckpoint True 4 Aggregator_Received (NewNodeEvent (demo_node ''n2'' ''9'') Added))]"

lemma demo_stamped_fun:
  "\<exists>r dis'. ProcessEvents_fun fake_store enabled now demo_batch_stamped demo_dis = Inr (r, dis')"
proof -
  have "\<forall>e\<in>set (non_nil (events_to_process enabled now 0 demo_batch_stamped)). GetLocation e = demo_loc"
    by (simp add: demo_batch_stamped_def managed_event_def NewNodeEvent_def demo_node_def zero_node_def NewLocation_def
        demo_loc_def)
  then obtain st where
    "process_all (non_nil (events_to_process enabled now 0 demo_batch_stamped)) (defaultNodeStore demo_dis, dis_queues demo_dis) = Inr st"
    using demo_process_all [OF demo_full_run(2), of _ "[]"] unfolding demo_dis_store by blast
  from ProcessEvents_fun_total [OF demo_dis_ok(2) _ this] show ?thesis by simp
qed

definition demo_info :: ClientInfoType where
  "demo_info = \<lparr>ClientName = ''one'', ci_Region = ''Beijing''\<rparr>"

definition demo_request :: Request where
  "demo_request = \<lparr>rq_Method = ''GET'', rq_Path = ''/resource/Client-1'', rq_Query = (\<lambda>k. ''''),
     rq_Registration = BodyOk \<lparr>crr_ClientInfo = demo_info,
       InitialRequestedResource = \<lparr>TotalMachines = 1000, RequestInRegions = []\<rparr>\<rparr>,
     rq_Watch = BodyOk \<lparr>wr_ResourceVersions = Some gm_empty\<rparr>, rq_ContentType = ''application/json''\<rparr>"

lemma demo_too_many:
  "fst (RegisterClient si (\<lambda>xs. xs) (\<lambda>xs. xs)
     \<lparr>ClientId = i, ClientInfo = info, Resource = \<lparr>TotalMachines = 1000, RequestInRegions = []\<rparr>\<rparr> demo_dis) \<noteq> None"
proof -
  have "process_all es (ns, h) = Inr (ns', h') \<Longrightarrow> totalHostNum ns' \<le> totalHostNum ns + length es" for es ns h ns' h'
  proof (induction es arbitrary: ns h)
    case (Cons e es)
    from Cons.prems obtain b ns1 h1 where
      e: "processNodeEvent e (ns, h) = Inr (b, ns1, h1)" and r: "process_all es (ns1, h1) = Inr (ns', h')"
      by (rule process_all_Cons_Inr)
    have "totalHostNum ns1 \<le> totalHostNum ns + 1"
    proof (cases b)
      case True
      from e [unfolded True [THEN eqTrueI]] obtain k i where "update_rv e (ring_store e k i ns) = Inr ns1"
        by (rule processNodeEvent_Inr)
      then show ?thesis
        by (simp add: update_rv_frame(2) [of e _ ns1] ring_store_def split: option.splits if_splits)
    next
      case False
      then show ?thesis using e processNodeEvent_changes [OF e] processNodeEvent_skip [of e "(ns, h)"] by simp
    qed
    then show ?case using Cons.IH [OF r] by simp
  qed simp
  from this [OF demo_full_run(1)] have "totalHostNum demo_full \<le> 51"
    using demo_ns_new(8) demo_ids_length(1) by (simp add: demo_events_def)
  then have "allocateNodesToClient si (\<lambda>xs. xs) (\<lambda>xs. xs) i 1000 demo_dis = Inl Error_HostRequestExceedLimit"
    by (intro allocate_guards(2)) simp_all
  then show ?thesis by (simp add: RegisterClient_def)
qed

end
