(* ===== verification/GRS_ClientExamples.thy ===== *)
theory GRS_ClientExamples
  imports GRS_Examples GRS_Redis GRS_RmsClient
begin

text \<open>
  Small instances of what the storage and client theories leave open: a Redis server that is a map,
  texts for the zero time and the float 0, and an HTTP transport that gives scripted answers and
  keeps a log of the requests.
\<close>

definition demo_redis :: "(string, string) gomap RedisClient" where
  "demo_redis =
     \<lparr>rc_Set = (\<lambda>k v s. (None, gm_put k v s)),
      rc_Get = (\<lambda>k s. case gm_get s k of None \<Rightarrow> Inl (ErrorText ''redis: nil'') | Some v \<Rightarrow> Inr v),
      rc_Keys = (\<lambda>p s. filter (has_prefix (butlast p)) (gm_keys s)),
      rc_FlushAll = (\<lambda>s. (None, gm_empty))\<rparr>"

lemma demo_redis_laws: "redis_laws demo_redis"
  by (auto simp: redis_laws_def demo_redis_def gm_get_put)

definition demo_text :: TextCodec where
  "demo_text =
     \<lparr>tc_time = (\<lambda>t. if t = 0 then Some ''0001-01-01T00:00:00Z'' else None),
      tc_parse_time = (\<lambda>s. if s = ''0001-01-01T00:00:00Z'' then Some 0 else None),
      tc_float = (\<lambda>x. if x = 0 then Some ''0'' else None),
      tc_parse_float = (\<lambda>s. if s = ''0'' then Some 0 else None)\<rparr>"

lemma demo_text_laws: "text_laws demo_text"
proof -
  have "valid_number ''0''"
    by (simp add: valid_number_def scan_number_def number_int_def number_frac_def number_exp_def)
  then show ?thesis by (auto simp: text_laws_def demo_text_def split: if_splits)
qed

lemma ascii_simps [simp]:
  "ascii ''''" "ascii ''a''" "ascii ''b''" "ascii ''5''" "ascii ''6''" "ascii ''Client-1''" "ascii ''one''" "ascii ''Beijing''"
  by (simp_all add: ascii_def byte_of_def)

lemma demo_node_ok [simp]: "ascii i \<Longrightarrow> ascii rv \<Longrightarrow> node_ok demo_text (demo_node i rv)"
  using demo_text_laws
  by (simp add: node_ok_def demo_node_def zero_node_def geo_ok_def resource_ok_def counts_ok_def int64_def demo_text_def)

definition demo_node_text :: "string \<Rightarrow> string \<Rightarrow> string" where
  "demo_node_text i rv = the (Marshal (enc_node demo_text) (demo_node i rv))"

lemma demo_js_node [simp]: "ascii i \<Longrightarrow> ascii rv \<Longrightarrow> js_node demo_text (demo_node i rv) = Inr (demo_node_text i rv)"
  using node_codec.unmarshal_marshal [OF demo_node_ok, of i rv]
  by (auto simp: js_node_def marshal_result_def demo_node_text_def)

lemma node_Id_demo: "node_Id (demo_node i rv) = i"
  by (simp add: demo_node_def)

lemma char_zero [simp]: "char_of (48 :: nat) = CHR ''0''"
  by code_simp

lemma demo_keys [simp]:
  "LogicalNode_GetKey (Some (demo_node ''a'' ''5'')) = ''MinNode.a.0.0''"
  "LogicalNode_GetKey (Some (demo_node ''b'' ''6'')) = ''MinNode.b.0.0''"
  by (simp_all add: LogicalNode_GetKey_def PreserveNode_KeyPrefix_def demo_node_def zero_node_def Itoa_def
      decimal.simps digit_char_def)

definition demo_saved :: "(string, string) gomap" where
  "demo_saved = [(''MinNode.a.0.0'', demo_node_text ''a'' ''5''), (''MinNode.b.0.0'', demo_node_text ''b'' ''6'')]"

lemma demo_persist:
  "redis_PersistNodes demo_redis demo_text (Some [demo_node ''a'' ''5'', demo_node ''b'' ''6'']) [] = Inr (True, demo_saved)"
  by (simp add: redis_PersistNodes_def demo_redis_def demo_saved_def)

lemma demo_redis_simps [simp]:
  "rc_Keys demo_redis (PreserveNode_KeyPrefix @ ''*'') demo_saved = [''MinNode.a.0.0'', ''MinNode.b.0.0'']"
  "rc_Get demo_redis ''MinNode.a.0.0'' demo_saved = Inr (demo_node_text ''a'' ''5'')"
  "rc_Get demo_redis ''MinNode.b.0.0'' demo_saved = Inr (demo_node_text ''b'' ''6'')"
  by (simp_all add: demo_redis_def demo_saved_def PreserveNode_KeyPrefix_def gm_keys_def)

section \<open>A scripted transport\<close>

type_synonym script = "HttpRequest list \<times> (net_error + HttpResponse) list"

definition demo_env :: "script HttpEnv" where
  "demo_env =
     \<lparr>he_NewRequest = (\<lambda>verb u. None),
      he_Do = (\<lambda>c q (sent, outs). ((case outs of [] \<Rightarrow> Inl IoEOF | out # rest \<Rightarrow> out, 0), (sent @ [q], tl outs))),
      he_ReadFile = (\<lambda>f w. Inl ''no such file'')\<rparr>"

lemma demo_env_logs: "logs_requests demo_env fst"
  by (auto simp: logs_requests_def demo_env_def)

definition demo_busy :: HttpResponse where
  "demo_busy = \<lparr>hr_StatusCode = 503, hr_Header = [(''Retry-After'', [''1''])], hr_Body = ('''', None)\<rparr>"

definition demo_ok :: HttpResponse where
  "demo_ok = \<lparr>hr_StatusCode = 200, hr_Header = [], hr_Body = (''[]'', None)\<rparr>"

definition demo_url :: URL where
  "demo_url = zero_URL\<lparr>url_Scheme := ''http'', url_Host := ''localhost:8080'', url_Path := ''/''\<rparr>"

definition demo_parse :: "string \<Rightarrow> string + URL" where
  "demo_parse s = (if s = ''http://localhost:8080'' then Inr demo_url else Inl ''parse error'')"

definition demo_config :: Config where
  "demo_config =
     \<lparr>ServiceUrl = ''localhost:8080'', RequestTimeout = 0, ClientFriendlyName = ''one'', ClientRegion = ''Beijing'',
      InitialRequestTotalMachines = 51, InitialRequestRegions = []\<rparr>"

definition demo_rms :: "script rmsClient" where
  "demo_rms = the (NewRmsClient demo_parse demo_config)"

lemma demo_DefaultServerURL: "DefaultServerURL demo_parse (ServiceUrl demo_config) '''' False = Inr demo_url"
  by (simp add: DefaultServerURL_def demo_parse_def demo_config_def demo_url_def)

lemma demo_NewRmsClient: "NewRmsClient demo_parse demo_config = Some demo_rms"
  by (simp add: demo_rms_def NewRmsClient_def demo_DefaultServerURL)

lemma demo_get [simp]:
  "rr_rateLimiter (rest_Get (rms_restClient demo_rms)) = None" "at_start (rest_Get (rms_restClient demo_rms))"
  "rewindable (rest_Get (rms_restClient demo_rms))"
  by (simp_all add: demo_rms_def NewRmsClient_def demo_DefaultServerURL rest_Get_def rest_Verb_def Request_Verb_def
      NewRESTClient_def at_start_def rewindable_def)

end
