(* ===== verification/GRS_SystemExamples.thy ===== *)
theory GRS_SystemExamples
  imports GRS_Run GRS_ClientExamples
begin

text \<open>
  A service over the fake storage with a router that is the documented matching, and a distributor
  with a thousand nodes in one store, from which a client can be granted what it asks for.
\<close>

definition demo_service :: "(select_input \<times> bool) list \<Rightarrow> FakeStorageInterface Distributor service" where
  "demo_service inputs =
     \<lparr>sv_mux = first_match, sv_codec = demo_text,
      sv_di = distributor fake_store (\<lambda>xs. xs) (\<lambda>xs. xs) (\<lambda>xs. xs) (\<lambda>xs. xs) (\<lambda>xs. xs) True (\<lambda>i. 5),
      sv_measure = True, sv_uuid = (\<lambda>i. ''1''), sv_pprof = (\<lambda>name. not_found), sv_inputs = inputs\<rparr>"

lemma demo_service_simps [simp]:
  "sv_mux (demo_service inputs) = first_match" "sv_codec (demo_service inputs) = demo_text"
  "sv_di (demo_service inputs) =
     distributor fake_store (\<lambda>xs. xs) (\<lambda>xs. xs) (\<lambda>xs. xs) (\<lambda>xs. xs) (\<lambda>xs. xs) True (\<lambda>i. 5)"
  "sv_uuid (demo_service inputs) i = ''1''" "sv_inputs (demo_service inputs) = inputs"
  by (simp_all add: demo_service_def)

lemma first_match_laws [simp]: "mux_laws first_match"
  by (simp add: mux_laws_def)

lemma demo_base [simp]: "base_segments (url_Path demo_url) = []"
  by (simp add: demo_url_def) code_simp

definition thousand_config :: Config where
  "thousand_config = demo_config\<lparr>InitialRequestTotalMachines := 1000\<rparr>"

definition thousand_rms :: "(FakeStorageInterface Distributor \<times> HttpRequest list) rmsClient" where
  "thousand_rms = the (NewRmsClient demo_parse thousand_config)"

lemma thousand_client:
  "DefaultServerURL demo_parse (ServiceUrl thousand_config) '''' False = Inr demo_url"
  "NewRmsClient demo_parse thousand_config = Some thousand_rms"
  "config_ok thousand_config"
proof -
  show u: "DefaultServerURL demo_parse (ServiceUrl thousand_config) '''' False = Inr demo_url"
    using demo_DefaultServerURL by (simp add: thousand_config_def)
  then show "NewRmsClient demo_parse thousand_config = Some thousand_rms"
    by (simp add: thousand_rms_def NewRmsClient_def)
  show "config_ok thousand_config"
    by (simp add: config_ok_def RegistrationRequest_ok_def registration_request_def thousand_config_def demo_config_def
        ClientInfo_ok_def ResourceRequest_ok_def int64_def)
qed

section \<open>A thousand nodes\<close>

definition thousand_store :: VirtualNodeStore where
  "thousand_store =
     \<lparr>nodeEventByHash = map (\<lambda>i. (of_nat i, demo_event ''a'' ''5'' Added)) [0..<1000], lowerbound = 0, upperbound = 1,
      vs_location = demo_loc, vs_clientId = '''', vs_eventQueue = None\<rparr>"

definition thousand_dis :: "FakeStorageInterface Distributor" where
  "thousand_dis = demo_dis\<lparr>defaultNodeStore := demo_full\<lparr>vNodeStores := [thousand_store], totalHostNum := 1000\<rparr>\<rparr>"

lemma thousand_nodes: "nodes_ok demo_text thousand_dis"
  by (auto simp: nodes_ok_def thousand_dis_def thousand_store_def RvLocation_ok_def GetRvLocation_def demo_event_def
      NewManagedNodeEvent_def NewNodeEvent_def demo_loc_def int64_def)

lemma thousand_hosts: "GetHostNum thousand_store = 1000"
  by (simp add: GetHostNum_def gm_len_def thousand_store_def)

lemma thousand_free: "free_stores thousand_dis = [0]"
  using thousand_hosts
  by (simp add: free_stores_def virtual_store_def GetAssignedClient_def thousand_dis_def)
    (simp add: thousand_store_def)

lemma thousand_register:
  obtains d' where "RegisterClient fake_store (\<lambda>xs. xs) (\<lambda>xs. xs) (registered_client thousand_config ''1'') thousand_dis = (None, d')"
proof -
  let ?c = "registered_client thousand_config ''1''"
  have m: "TotalMachines (Resource ?c) = 1000"
    by (simp add: registered_client_def registration_request_def thousand_config_def)
  have "free_hosts thousand_dis = 1000"
    unfolding free_hosts_def thousand_free using thousand_hosts by (simp add: virtual_store_def thousand_dis_def)
  then obtain n d1 where a: "allocateNodesToClient fake_store (\<lambda>xs. xs) (\<lambda>xs. xs) (ClientId ?c) 1000 thousand_dis = Inr (n, d1)"
    using allocate_succeeds [of "\<lambda>xs. xs" "\<lambda>xs. xs" 1000 thousand_dis "ClientId ?c" fake_store]
    by (auto simp: thousand_dis_def)
  then have "\<exists>d'. RegisterClient fake_store (\<lambda>xs. xs) (\<lambda>xs. xs) ?c thousand_dis = (None, d')"
    by (simp add: RegisterClient_def m Let_def fake_store_def fs_PersistClient_def)
  then show thesis using that by blast
qed

section \<open>A client with an empty queue\<close>

definition demo_waiting :: "FakeStorageInterface Distributor" where
  "demo_waiting = demo_dis\<lparr>nodeEventQueueMap := [(''Client-1'', 0)], dis_queues := [NewNodeEventQueue ''Client-1'']\<rparr>"

lemma demo_waiting_watch:
  obtains d' where "dis_Watch (\<lambda>xs. xs) (\<lambda>xs. xs) (\<lambda>xs. xs) ''Client-1'' (Some []) True True demo_waiting = Inr ([], d')"
  by (rule that)
    (simp add: dis_Watch_def demo_waiting_def gm_get_def Watch_def getAllEventsSinceResourceVersion_def
      NewNodeEventQueue_def ConvertToInternalResourceVersionMap_def gm_empty_def)

definition demo_inputs :: "(select_input \<times> bool) list" where
  "demo_inputs = [(Record (NewNodeEvent (demo_node ''a'' ''5'') Added) 1 2, False), (ChannelClosed, False)]"

lemma demo_deliverable: "\<forall>e\<in>set (watched demo_inputs). deliverable demo_text e"
  by (simp add: demo_inputs_def deliverable_def event_ok_def NewNodeEvent_def stampable_def Added_def ascii_def byte_of_def)

lemma demo_usable: "usable_id ''Client-1''" "path_id ''Client-1'' = ''Client-1''"
  using client_id_usable [of "''1''"] by (simp_all add: uuid_text_def)

section \<open>The process over Redis\<close>

definition redis_service :: "(string, string) gomap Distributor service" where
  "redis_service =
     \<lparr>sv_mux = first_match, sv_codec = demo_text,
      sv_di = distributor (goredis demo_redis demo_text) (\<lambda>xs. xs) (\<lambda>xs. xs) (\<lambda>xs. xs) (\<lambda>xs. xs) (\<lambda>xs. xs) True (\<lambda>i. 5),
      sv_measure = True, sv_uuid = (\<lambda>i. ''1''), sv_pprof = (\<lambda>name. not_found), sv_inputs = []\<rparr>"

lemma redis_service_simps [simp]:
  "sv_di redis_service =
     distributor (goredis demo_redis demo_text) (\<lambda>xs. xs) (\<lambda>xs. xs) (\<lambda>xs. xs) (\<lambda>xs. xs) (\<lambda>xs. xs) True (\<lambda>i. 5)"
  "sv_measure redis_service"
  by (simp_all add: redis_service_def)

definition demo_main :: ServerConfig where
  "demo_main = \<lparr>ResourceUrls = [''rrm1'', ''rrm2''], MasterIp = ''localhost'', MasterPort = ''8080'',
     EventMetricsDumpFrequency = 300000000000\<rparr>"

definition demo_answer :: "RrmRequest \<Rightarrow> pull_outcome" where
  "demo_answer q = Pulled \<lparr>RegionNodeEvents = [demo_batch], RvMap = gm_empty, rrm_Length = 3\<rparr>"

lemma demo_answer_placeable: "placeable_answers demo_answer"
proof -
  have h: "HashStrToUInt64 ''n1'' \<noteq> 0 \<and> uint (HashStrToUInt64 ''n1'') \<le> 2 ^ 64 - 2 ^ 20"
    "HashStrToUInt64 ''n2'' \<noteq> 0 \<and> uint (HashStrToUInt64 ''n2'') \<le> 2 ^ 64 - 2 ^ 20" by code_simp+
  have "placeable (NewNodeEvent (demo_node i v) Added)"
    if "HashStrToUInt64 i \<noteq> 0 \<and> uint (HashStrToUInt64 i) \<le> 2 ^ 64 - 2 ^ 20" for i v
    using that by (simp add: placeable_def NewNodeEvent_def demo_node_def zero_node_def NewLocation_def valid_location_def)
  then show ?thesis using h by (auto simp: placeable_answers_def demo_answer_def placeable_batch_def demo_batch_def)
qed

text \<open>The process comes up, and its second goroutine pulls a batch.\<close>

lemma demo_process_run:
  obtains p s es where "Run demo_redis demo_main [] = Some p" "run_reach redis_service (\<lambda>xs. xs) placeable_answers p s"
    "pr_crashed s = None" "length (ag_loops (pr_aggregator s)) = 2" "length (ag_sent (pr_aggregator s)) = 1"
    "pl_phase (ag_loops (pr_aggregator s) ! 1) = Processing es"
proof -
  obtain p where p: "Run demo_redis demo_main [] = Some p"
    using Run_starts [of demo_redis "[]" gm_empty demo_main] by (auto simp: NewRedisClient_def demo_redis_def)
  have a: "pr_crashed p = None" "pr_aggregator p = NewAggregator (ResourceUrls demo_main) (pr_dist p)"
    using Run_ok [OF p] by (simp_all add: process_ok_def)
  have l: "ag_loops (pr_aggregator p) = [start_pull_loop ''rrm1'', start_pull_loop ''rrm2'']" "ag_sent (pr_aggregator p) = []"
    using arg_cong [OF a(2), of ag_loops] arg_cong [OF a(2), of ag_sent] by (simp_all add: NewAggregator_def demo_main_def)
  define reqs where "reqs = fst (pull_action (\<lambda>xs. xs) True (\<lambda>i j. 4) demo_answer (start_pull_loop ''rrm2'' :: (string, string) gomap Distributor PullLoop))"
  define p' where "p' = snd (pull_action (\<lambda>xs. xs) True (\<lambda>i j. 4) demo_answer (start_pull_loop ''rrm2'' :: (string, string) gomap Distributor PullLoop))"
  have pa: "length reqs = 1" "pl_phase p' = Processing (concat (stamp_rows True (\<lambda>i j. 4) [demo_batch]))"
    by (simp_all add: reqs_def p'_def pull_action_def initPullOrSubsequentPull_def demo_answer_def Let_def)
  let ?a = "(pr_aggregator p)\<lparr>ag_loops := (ag_loops (pr_aggregator p))[1 := p'], ag_sent := ag_sent (pr_aggregator p) @ reqs\<rparr>"
  have step: "loop_action (sv_di redis_service) (\<lambda>xs. xs) (sv_measure redis_service) (\<lambda>i j. 4) demo_answer 1 (pr_aggregator p) = Inr ?a"
    by (simp add: loop_action_def l Let_def start_pull_loop_def reqs_def p'_def split: prod.split)
  have "run_step redis_service (\<lambda>xs. xs) placeable_answers p (p\<lparr>pr_aggregator := ?a\<rparr>)"
    by (rule run_step.aggregate [where i = 1 and net = demo_answer, OF a(1) _ _ step])
      (simp_all add: l demo_answer_placeable)
  then have "run_reach redis_service (\<lambda>xs. xs) placeable_answers p (p\<lparr>pr_aggregator := ?a\<rparr>)" by (rule r_into_rtranclp)
  then show thesis by (rule that [OF p]) (use pa a(1) in \<open>simp_all add: l\<close>)
qed

end
