(* ===== verification/GRS_Runtime.thy ===== *)
theory GRS_Runtime
  imports GRS_NetUtil
begin

text \<open>
  \<open>clientSdk/util/runtime/runtime.go\<close>: what the SDK does with panics and with errors that nobody can
  return. The handler lists and \<open>ReallyCrash\<close> are package variables, so they are arguments here; the
  stack traces come from Go's runtime and are arguments too. The log is a list of lines.
\<close>

section \<open>Panics\<close>

datatype panic_value = ErrAbortHandler | PanicString string | PanicOther string string

text \<open>\<open>PanicOther v g\<close>: a value that prints as \<open>v\<close> with \<open>%v\<close> and as \<open>g\<close> with \<open>%#v\<close>.\<close>

type_synonym 'w panic_handler = "panic_value \<Rightarrow> 'w \<Rightarrow> 'w"

text \<open>The deferred call: \<open>recovered\<close> is what \<open>recover()\<close> gives; the result is the panic it ends with.\<close>

definition HandleCrash ::
  "bool \<Rightarrow> 'w panic_handler list \<Rightarrow> 'w panic_handler list \<Rightarrow> panic_value option \<Rightarrow> 'w \<Rightarrow> panic_value option \<times> 'w" where
  "HandleCrash reallyCrash panicHandlers additionalHandlers recovered w =
     (case recovered of
        None \<Rightarrow> (None, w)
      | Some r \<Rightarrow>
          (let w1 = fold (\<lambda>fn. fn r) panicHandlers w;
               w2 = fold (\<lambda>fn. fn r) additionalHandlers w1
           in if reallyCrash then (Some r, w2) else (None, w2)))"

definition newline :: string where "newline = [CHR 0x0A]"

definition logPanic :: "string \<Rightarrow> panic_value \<Rightarrow> string list \<Rightarrow> string list" where
  "logPanic stacktrace r lg =
     (case r of
        ErrAbortHandler \<Rightarrow> lg
      | PanicString s \<Rightarrow> lg @ [''Observed a panic: '' @ s @ newline @ stacktrace]
      | PanicOther v g \<Rightarrow> lg @ [''Observed a panic: '' @ g @ '' ('' @ v @ '')'' @ newline @ stacktrace])"

text \<open>
  \<open>RecoverFromPanic\<close> through a pointer to an error; \<open>quoted\<close> is the panic value printed with \<open>%q\<close>, an
  error that is nil prints as \<open><nil>\<close>.
\<close>

definition RecoverFromPanic :: "(panic_value \<Rightarrow> string) \<Rightarrow> string \<Rightarrow> panic_value option \<Rightarrow> string option \<Rightarrow> string option" where
  "RecoverFromPanic quoted stacktrace recovered err =
     (case recovered of
        None \<Rightarrow> err
      | Some r \<Rightarrow>
          Some (''recovered from panic '' @ quoted r @ ''. (err='' @ (case err of None \<Rightarrow> ''<nil>'' | Some e \<Rightarrow> e) @
            '') Call stack:'' @ newline @ stacktrace))"

text \<open>\<open>Must\<close>: the panic, if any.\<close>

definition Must :: "string option \<Rightarrow> string option" where
  "Must err = (case err of None \<Rightarrow> None | Some e \<Rightarrow> Some e)"

definition GetCaller :: "string option \<Rightarrow> string" where
  "GetCaller f = (case f of None \<Rightarrow> ''Unable to find caller'' | Some name \<Rightarrow> name)"

section \<open>Errors\<close>

text \<open>
  The world of the error handlers: the log, the clock and the backoff. \<open>OnError\<close> reads the clock, may
  sleep, and reads it again; \<open>extra\<close> is by how much the sleep and the calls take longer than asked.
\<close>

record rudimentaryErrorBackoff =
  minPeriod :: int
  lastErrorTime :: int

record ErrorWorld =
  ew_log :: "string list"
  ew_clock :: int
  ew_backoff :: rudimentaryErrorBackoff

definition logError :: "string \<Rightarrow> ErrorWorld \<Rightarrow> ErrorWorld" where
  "logError err w = w\<lparr>ew_log := ew_log w @ [err]\<rparr>"

definition OnError :: "nat \<Rightarrow> string \<Rightarrow> ErrorWorld \<Rightarrow> ErrorWorld" where
  "OnError extra err w =
     (let r = ew_backoff w;
          d = ew_clock w - lastErrorTime r;
          clock1 = (if d < minPeriod r then ew_clock w + (minPeriod r - d) else ew_clock w) + int extra
      in w\<lparr>ew_clock := clock1, ew_backoff := r\<lparr>lastErrorTime := clock1\<rparr>\<rparr>)"

definition ErrorHandlers :: "nat \<Rightarrow> (string \<Rightarrow> ErrorWorld \<Rightarrow> ErrorWorld) list" where
  "ErrorHandlers extra = [logError, OnError extra]"

definition HandleError :: "(string \<Rightarrow> 'w \<Rightarrow> 'w) list \<Rightarrow> string option \<Rightarrow> 'w \<Rightarrow> 'w" where
  "HandleError handlers err w = (case err of None \<Rightarrow> w | Some e \<Rightarrow> fold (\<lambda>fn. fn e) handlers w)"

section \<open>What they guarantee\<close>

text \<open>A panic goes on after \<open>HandleCrash\<close>, whatever the handlers do, and no panic is made up.\<close>

lemma HandleCrash_panics: "fst (HandleCrash True hs hs2 recovered w) = recovered"
  by (simp add: HandleCrash_def Let_def split: option.split)

lemma HandleCrash_logs:
  "snd (HandleCrash really [logPanic st] [] recovered lg) =
    (case recovered of None \<Rightarrow> lg | Some ErrAbortHandler \<Rightarrow> lg | Some r \<Rightarrow> logPanic st r lg)"
  by (simp add: HandleCrash_def logPanic_def Let_def split: option.split panic_value.split)

text \<open>
  Handling errors is slowed down to one per period: a run of errors logs each of them in order and takes
  at least a period for each but the first.
\<close>

lemma OnError_waits:
  fixes extra err
  assumes "0 \<le> minPeriod (ew_backoff w)" "lastErrorTime (ew_backoff w) \<le> ew_clock w"
  defines "w' \<equiv> OnError extra err w"
  shows "lastErrorTime (ew_backoff w) + minPeriod (ew_backoff w) \<le> ew_clock w'" "ew_clock w \<le> ew_clock w'"
    "lastErrorTime (ew_backoff w') = ew_clock w'" "minPeriod (ew_backoff w') = minPeriod (ew_backoff w)"
    "ew_log w' = ew_log w"
  using assms by (auto simp: OnError_def Let_def)

lemma HandleError_run:
  fixes errs :: "(string \<times> nat) list"
  assumes "0 \<le> minPeriod (ew_backoff w)" "lastErrorTime (ew_backoff w) \<le> ew_clock w"
  defines "w' \<equiv> fold (\<lambda>(e, extra). HandleError (ErrorHandlers extra) (Some e)) errs w"
  shows "ew_log w' = ew_log w @ map fst errs \<and>
    lastErrorTime (ew_backoff w) + int (length errs) * minPeriod (ew_backoff w) \<le> ew_clock w'"
  using assms(1,2) unfolding w'_def
proof (induction errs arbitrary: w)
  case (Cons ee errs)
  obtain e extra where ee: "ee = (e, extra)" by (cases ee)
  let ?w1 = "OnError extra e (logError e w)"
  have l: "ew_backoff (logError e w) = ew_backoff w" "ew_clock (logError e w) = ew_clock w"
    "ew_log (logError e w) = ew_log w @ [e]"
    by (simp_all add: logError_def)
  note o = OnError_waits [of "logError e w" extra e, unfolded l, OF Cons.prems]
  have one: "HandleError (ErrorHandlers extra) (Some e) w = ?w1" by (simp add: HandleError_def ErrorHandlers_def)
  have "0 \<le> minPeriod (ew_backoff ?w1)" "lastErrorTime (ew_backoff ?w1) \<le> ew_clock ?w1" using o Cons.prems by simp_all
  from Cons.IH [OF this] o show ?case by (simp add: ee one algebra_simps)
qed simp

end
