(* ===== verification/Spec2Isabelle.thy ===== *)
theory Spec2Isabelle
  imports GRS_Hash GRS_Ring GRS_Interface GRS_Watch GRS_Aggregator GRS_ServiceApi GRS_ClientCache
    GRS_SetTypes GRS_Batch GRS_Redis GRS_System GRS_Run GRS_Typed GRS_Examples GRS_ClientExamples GRS_SystemExamples GRS_Runtime
begin

text \<open>
  The Global Resource Service: a development about its resource management service in Go.

  The service collects the state of the machines of many regions and hands them out to schedulers.
  An aggregator pulls node events from the region managers (\<open>aggregrator/aggregator.go\<close>) and gives
  each batch to the distributor (\<open>distributor/distributor.go\<close>). The distributor keeps the nodes in a
  node store: virtual stores that are consecutive arcs of a hash ring, each arc inside the part of one
  region and partition (\<open>distributor/storage/nodestore.go\<close>, \<open>types/location/location.go\<close>,
  \<open>common-lib/hash\<close>). Clients register over HTTP (\<open>service-api/endpoints/installer.go\<close>), are assigned
  whole virtual stores, list their nodes and then watch them: the events of a client's stores go into
  its event queue (\<open>distributor/cache/eventqueue.go\<close>), from which a watch first replays what the
  client missed. Each batch is also written to a storage (\<open>distributor/storage/memorycache.go\<close> over
  \<open>fakestore.go\<close> or \<open>store/redis/redis.go\<close>). The SDK of the clients (\<open>clientSdk\<close>) has a REST client
  with retries, the client of the service, watch streams, an indexed cache and sets. These paths are
  below \<open>src/resource-management/pkg\<close>; the process itself is \<open>src/resource-management/cmds/service-api\<close>.

  Theories, in the order they build on each other. A Go map is an association list with distinct keys
  (\<open>gomap\<close>); where the code ranges over one, the order is a function argument constrained by
  \<open>range_order\<close>. Errors and panics are the left values of a sum (\<open>result\<close>). Machine integers that can
  wrap are words (\<open>uint64\<close>, hashes, versions), floating-point numbers are the rationals that binary64
  values denote, with rounding written out.

  \<^item> \<open>GRS_Prelude\<close>, \<open>Go_Strconv\<close>, \<open>Go_Float\<close>, \<open>Go_Net\<close>: Go maps and their locale \<open>kv_map\<close>,
    \<open>sort.Search\<close>, decimal texts, splitting, binary64 arithmetic, paths, queries, headers, durations.
  \<^item> \<open>Go_Json\<close>, \<open>Go_Decode\<close>, \<open>Go_Query\<close>: what the program uses of encoding/json and net/url: the text that
    \<open>Marshal\<close> writes, the scanner of \<open>Unmarshal\<close> with its round trip, decoders into an existing value,
    and the parsing of an encoded query.
  \<^item> \<open>GRS_Hash\<close>, \<open>GRS_Location\<close>, \<open>GRS_Types\<close>, \<open>GRS_Metrics\<close>, \<open>GRS_Event\<close>, \<open>GRS_Node\<close>: hashes, the table
    of arcs, the data types and keys, latency metrics, node events and managed events.
  \<^item> \<open>GRS_EventQueue\<close>: the circular queue of a location and the queue of a client with replay; the
    locale \<open>bounded_queue\<close> is the contract of the former, interpreted on \<open>enqueueEvent\<close>.
  \<^item> \<open>GRS_Watch\<close>: the goroutines of a watched queue as the step relation \<open>watch_step\<close>.
  \<^item> \<open>GRS_NodeStore\<close>, \<open>GRS_Ring\<close>, \<open>GRS_Batch\<close>: the store table, the lookup by ring position, creation
    and update of nodes, the store invariant; the ring arithmetic of the production configuration;
    what a batch does to a slot (\<open>slot_history\<close>) and to a version (\<open>rv_history\<close>).
  \<^item> \<open>GRS_Persist\<close>, \<open>GRS_Redis\<close>: the storage interface, the fake storage and the wait group with its
    goroutines (\<open>persist_attempt\<close>); the locales \<open>store_provider\<close> and \<open>reliable_store\<close> state what the
    helper needs, interpreted on the fake storage; Redis meets the first of them.
  \<^item> \<open>GRS_Distributor\<close>, \<open>GRS_Interface\<close>: registration, allocation, listing, watching, processing; the
    locale \<open>event_processor\<close> is what the aggregator needs, interpreted on the distributor.
  \<^item> \<open>GRS_Aggregator\<close>, \<open>GRS_ServiceApi\<close>: one goroutine per region manager, interleaved with
    registrations and watches, as the step relation \<open>agg_step\<close>; the HTTP handlers over any distributor.
  \<^item> \<open>GRS_Codec\<close>, \<open>GRS_Typed\<close>: the JSON of the program's types. The locale \<open>object_codec\<close> states what a
    type's encoder and decoder promise each other and is interpreted on each type; decoded values stay
    in the range of their Go types, whatever the text.
  \<^item> \<open>GRS_Sets\<close>, \<open>GRS_SetTypes\<close>, \<open>GRS_ClientCache\<close>: sets of any element type and at the five types of the
    SDK, with their contract \<open>go_set\<close>; the indexed cache, with the locale \<open>thread_safe_store\<close>.
  \<^item> \<open>GRS_NetUtil\<close>, \<open>GRS_Runtime\<close>, \<open>GRS_Rest\<close>, \<open>GRS_RmsClient\<close>: network errors and rate limiters, panics
    and unreturnable errors (\<open>util/runtime\<close>), requests and the retry loop, the client of the service and
    the receiver of a watch stream (\<open>sw_step\<close>).
  \<^item> \<open>GRS_Server\<close>, \<open>GRS_System\<close>: the flags and routes of the process, a request on its way from the
    client's transport through the router to a handler and back (\<open>serve\<close>), and the SDK run against the
    service and its distributor.
  \<^item> \<open>GRS_Run\<close>: \<open>Run\<close> of \<open>app/server.go\<close>, the whole process as the step relation \<open>run_step\<close>: actions of
    the aggregator's goroutines, requests, watches that stop, metrics reports, and the panic that ends it.
    It refines \<open>agg_step\<close>; an invariant of it is that no batch it waits to process can panic.
  \<^item> \<open>GRS_Examples\<close>, \<open>GRS_ClientExamples\<close>, \<open>GRS_SystemExamples\<close>: small concrete worlds for the witnesses.

  The properties below are about: where a node is stored and what a batch leaves behind (C1 to C5),
  what is saved when a batch has been processed and that processing ends (C6 to C8), who is granted
  which stores (C9 to C12), what reaches a client (C13 to C20), inputs for which the ring or the
  location check fails (C21, C22), what a watch does with the queue and what the SDK gets of it over
  HTTP (C23 to C25), the handlers and the SDK (C27 to C29), the whole process (C26, C30),
  locations, percentiles, storage and caches (C31 to C35, C38), the types of decoded values (C36), what
  a client gets that registers and then lists (C37), and requests of the SDK (C39, C40). Several of them
  state behaviour that the code has but does not seem to intend: C16, C21, C22, C25, C29, C38, C40, and
  the refusals in C24, C28 and C37.

  Bounds and fuel. \<open>run_goroutines\<close> runs the persisting goroutines with fuel; \<open>attempts_left\<close> is enough,
  because every step uses up one of at most six attempts (\<open>run_goroutines_total\<close>). The JSON parser's
  fuel is the length of its text, and a text that is parsed needs no more (\<open>parse_next_fuel\<close>).
  \<open>doRequest_loop\<close> ends because the number of attempts left below \<open>maxRetries\<close> = 10 decreases,
  \<open>go_search_loop\<close> because the interval halves. The process never ends in the code: C26 and C30 hold
  in every state that \<open>run_step\<close> reaches. The store table of the production configuration has 9 regions,
  40 partitions and 1000 virtual stores each; \<open>GRS_Ring\<close> proves the arithmetic for all 360000 of them.

  Not modelled: the parsing of the command line, the listener and the pprof handlers, which are library
  code that \<open>cmds\<close> only calls; the region manager simulator and the end-to-end tests, which are test
  programs; logging; the type \<open>CompositeResourceVersion\<close> and the variable \<open>regionToArc\<close>, which nothing uses.
  Parameters stand for what is outside the repository: the region managers' answers, go-redis,
  golang.org/x/time/rate, the HTTP transport, the matching of gorilla/mux, and the texts of times and
  floating-point numbers. The clock is an argument of the operations that read it. Locks are not
  modelled: each operation that holds one runs as a whole, and interleavings are explicit where the
  code starts goroutines.
\<close>

section \<open>Placing and processing nodes\<close>

text \<open>C1: in the distributor's own store table (9 regions, 40 partitions, 1000 virtual stores each), a
  node of a valid location whose FNV-1a hash is neither 0 nor among the last 2^20 values is looked up
  at an index inside the table, and the virtual store found there belongs to the node's location: the
  floating-point ring position and the division by the granularity never leave the location's block.\<close>

theorem node_kept_in_own_location:
  assumes "createNodeStore = Inr ns0" "same_meta ns0 ns" "valid_location (GetLocation e)"
    and "HashStrToUInt64 (GetId e) \<noteq> 0" "uint (HashStrToUInt64 (GetId e)) \<le> 2 ^ 64 - 2 ^ 20"
  shows "\<exists>i. getVirtualNodeStore e ns = Inr (getNodeHash e, i) \<and> i < 360000 \<and>
    vs_location (vNodeStores ns ! i) = GetLocation e"
proof -
  have "store_table ns0" using createNodeStore_table assms(1) by (metis sum.inject(2))
  then show ?thesis using store_of_event [OF store_table_meta [OF _ assms(2)] assms(3-5)] by blast
qed

lemma node_kept_in_own_location_witness:
  "\<exists>ns i. createNodeStore = Inr ns \<and>
    getVirtualNodeStore (demo_event ''n1'' ''7'' Added) ns = Inr (getNodeHash (demo_event ''n1'' ''7'' Added), i) \<and>
    vs_location (vNodeStores ns ! i) = demo_loc"
proof -
  obtain ns where ns: "createNodeStore = Inr ns" using createNodeStore_table by blast
  have "HashStrToUInt64 ''n1'' \<noteq> 0" "uint (HashStrToUInt64 ''n1'') \<le> 2 ^ 64 - 2 ^ 20" by code_simp+
  then show ?thesis
    using node_kept_in_own_location [OF ns same_meta_refl, of "demo_event ''n1'' ''7'' Added"] ns by auto
qed

text \<open>C2: a new node store satisfies the store invariant (every node sits in the slot its hash names,
  the host counter covers the stores, the resource version table covers every stored node, and every
  store points to an existing well-formed queue), and every batch of events keeps it.\<close>

theorem batches_keep_invariant:
  assumes "NewNodeStore v r p = Inr ns" "0 < v" "0 < r" "r \<le> 9" "0 < p" "p \<le> 40"
    and "process_all es (ns, []) = Inr (ns', h')"
  shows "NodeStore_inv ns' h' \<and> length (vNodeStores ns') = v * r * p"
proof -
  obtain ns0 where "NewNodeStore v r p = Inr ns0" "length (vNodeStores ns0) = v * r * p"
    using NewNodeStore_ok [OF assms(2-6)] by metis
  then show ?thesis
    using process_all_length [OF assms(7) NewNodeStore_inv [OF assms(1-6)]] assms(1)
    by (simp add: same_meta_def)
qed

lemma batches_keep_invariant_witness:
  "\<exists>ns' h'. process_all demo_events (demo_ns, []) = Inr (ns', h') \<and> NodeStore_inv ns' h' \<and> length (vNodeStores ns') = 1"
  using batches_keep_invariant [OF demo_ns_new(1) _ _ _ _ _ demo_full_run(1)] demo_full_run(1) by simp

text \<open>C3: the node store is a pure function of the batch: after \<open>processNodeEvent\<close> has run on every
  event, slot (k, i) holds the result of absorbing, in order, exactly the additions and modifications
  that hash to that slot: the first node is stored, a newer version of the same node replaces it, an
  older one is ignored, and an addition with another name overwrites.\<close>

theorem batch_refines_slot_history:
  assumes "process_all es (ns, h) = Inr (ns', h')"
  shows "slot_of ns' k i = fold absorb (slot_history ns k i es) (slot_of ns k i)"
  using process_all_slot [OF assms] .

lemma batch_refines_slot_history_witness:
  "\<exists>n. slot_of demo_full (ring_value (HashStrToUInt64 ''A'')) 0 = Some n \<and>
    Some n = fold absorb (slot_history demo_ns (ring_value (HashStrToUInt64 ''A'')) 0 demo_events)
      (slot_of demo_ns (ring_value (HashStrToUInt64 ''A'')) 0)"
proof -
  have "''A'' \<in> set demo_ids" by code_simp
  then show ?thesis
    using demo_full_slots batch_refines_slot_history [OF demo_full_run(1)] by metis
qed

text \<open>C4: after a batch, the resource versions the store reports (\<open>GetCurrentResourceVersions\<close>) have,
  for each location, the maximum of the version it had and of the versions of all additions and
  modifications of that location in the batch, and no entry where that maximum is 0.\<close>

theorem batch_resource_versions:
  assumes "process_all es (ns, h) = Inr (ns', h')" "NodeStore_inv ns h" "regionNum ns \<le> 9" "partitionMaxNum ns \<le> 40"
  shows "gm_get (GetCurrentResourceVersions ns') l =
    (let loc = \<lparr>loc_region = rv_Region l, loc_partition = rv_Partition l\<rparr>;
         newest = Max (insert (rv_of ns loc) (set (rv_history loc es)))
     in if newest > 0 then Some newest else None)"
proof -
  have "NodeStore_inv ns' h'" "same_meta ns ns'" using process_all_length [OF assms(1,2)] by simp_all
  then have "rvs_shape ns'" "regionNum ns' \<le> 9" "partitionMaxNum ns' \<le> 40"
    using assms(3,4) by (simp_all add: NodeStore_inv_def same_meta_def)
  then show ?thesis
    by (simp add: GetCurrentResourceVersions_get process_all_rv [OF assms(1)] Let_def)
qed

lemma batch_resource_versions_witness:
  "gm_get (GetCurrentResourceVersions demo_full) \<lparr>rv_Region = 0, rv_Partition = 0\<rparr> = Some 7"
proof -
  have e: "rv_of demo_ns demo_loc = 0" "changes e \<and> GetLocation e = demo_loc \<and> GetResourceVersion e = 7"
    if "e \<in> set demo_events" for e
    using that by (auto simp: demo_events_def changes_def rv_of_def rv_index_def demo_ns_new demo_loc_def
        ParseUint_def is_digit_def digit_val_def byte_of_def split: sum.splits)
  have ne: "demo_events \<noteq> []" using demo_ids_length by (auto simp: demo_events_def)
  have "set (rv_history demo_loc demo_events) = {7}"
    using e(2) ne by (auto simp: rv_history_def image_iff) (metis last_in_set)
  moreover have "rv_of demo_ns demo_loc = 0" using e(1) ne last_in_set by blast
  ultimately show ?thesis
    using batch_resource_versions [OF demo_full_run(1) demo_ns_inv, of "\<lparr>rv_Region = 0, rv_Partition = 0\<rparr>"]
    by (simp add: demo_ns_new demo_loc_def [symmetric])
qed

text \<open>C5: read after write: once \<open>processNodeEvent\<close> has accepted an addition, \<open>GetNode\<close> for the
  event's location and node name returns a node with that name, and its resource version is at least
  the event's, whatever the store held before.\<close>

theorem get_node_after_add:
  assumes "processNodeEvent e (ns, h) = Inr (True, ns', h')" "GetEventType e = Added"
  shows "\<exists>n. GetNode (loc_region (GetLocation e)) (loc_partition (GetLocation e)) (GetId e) ns' = Inr n \<and>
    node_Id n = GetId e \<and> GetResourceVersion e \<le> GetResourceVersionInt64 n"
proof -
  obtain k i where v: "getVirtualNodeStore e ns = Inr (k, i)"
    using processNodeEvent_Inr [OF assms(1)] by metis
  have "slot_of ns' k i = absorb e (slot_of ns k i)" "getVirtualNodeStore e ns' = Inr (k, i)"
    using processNodeEvent_slot [OF assms(1)] v assms(2) by (simp_all add: changes_def)
  moreover obtain m where "absorb e (slot_of ns k i) = Some m" "GetId m = GetId e"
    "GetResourceVersion e \<le> GetResourceVersion m"
    using absorb_added [OF assms(2)] by blast
  ultimately show ?thesis
    using GetNode_event [of e ns' k i] by (auto simp: GetId_def GetResourceVersion_node)
qed

lemma get_node_after_add_witness:
  "\<exists>b ns' h' n. processNodeEvent (demo_event ''n1'' ''7'' Added) (demo_ns, []) = Inr (b, ns', h') \<and>
    GetNode 0 0 ''n1'' ns' = Inr n \<and> node_Id n = ''n1''"
proof -
  let ?e = "demo_event ''n1'' ''7'' Added"
  obtain b ns' h' where p: "processNodeEvent ?e (demo_ns, []) = Inr (b, ns', h')"
    using demo_process [OF demo_ns_table, of ?e "[]"] by auto
  moreover have "b" using processNodeEvent_changes [OF p] by (simp add: changes_def)
  ultimately show ?thesis
    using get_node_after_add [of ?e demo_ns "[]" ns' h'] by (auto simp: demo_loc_def)
qed


section \<open>Persisting a batch\<close>



text \<open>C7: the wait of \<open>ProcessEvents\<close> ends: over the fake storage, every interleaving of the persisting
  goroutines makes at most six calls per batch, and a state reached by them is one where
  \<open>WaitForAllNodesSaved\<close> returns exactly when no goroutine can move: the counter of the wait group, set
  to the number of events (nil ones included), reaches zero and never goes below it.\<close>

theorem persist_wait_terminates:
  assumes "ProcessEvents_start fake_store enabled now events dis = Inr (r, d, w)" "dis_inv dis" "fs_ready (dis_store dis)"
    and "(pstep fake_store ^^ n) w w'"
  shows "n \<le> 6 * length (running w) \<and> 0 \<le> waitCount w' \<and>
    (WaitForAllNodesSaved_returns w' \<longleftrightarrow> \<not> (\<exists>w''. pstep fake_store w' w''))"
proof (rule ProcessEvents_start_Inr [OF assms(2,1)])
  fix ns' h' bs
  assume S: "wait_balanced w" "retries_ok w" "batches_nonempty w" "running w = map (\<lambda>b. (b, 0)) bs"
    "pw_store w = snd (si_PersistNodeStoreStatus fake_store (getNodeStoreStatus ns') (dis_store dis))"
  have ready: "fs_ready (pw_store w)" unfolding S(5) by (rule fake.persist_status_inv [OF assms(3)])
  have "wait_balanced w'" using psteps_nonempty [OF assms(4) S(1-3)] by simp
  then show ?thesis
    using fake.wait_terminates [OF assms(4) ready S(1-3)] attempts_of_fresh [OF S(4)] S(4)
    by (simp add: wait_balanced_def)
qed

lemma persist_wait_terminates_witness:
  "\<exists>r d w. ProcessEvents_start fake_store True (\<lambda>i. 5) demo_batch demo_dis = Inr (r, d, w) \<and> 0 \<le> waitCount w"
proof -
  obtain r d w where s: "ProcessEvents_start fake_store True (\<lambda>i. 5) demo_batch demo_dis = Inr (r, d, w)"
    by (rule demo_batch_start)
  then show ?thesis using persist_wait_terminates [OF s demo_dis_ok(2) _ relpowp_0_I] by auto
qed

text \<open>C8: \<open>ProcessNodeEvents\<close> cuts the nodes of a batch into pieces for the persisting goroutines: every
  piece has between 1 and 100 nodes, their concatenation is exactly the nodes of the non-nil events in
  order, the wait group is balanced with them, and the result is the store after the whole batch.\<close>

theorem batches_for_persistence:
  assumes "wait_balanced w" "process_all (non_nil es) st = Inr (ns', h')"
  shows "\<exists>w' bs. ProcessNodeEvents si es st w = Inr ((True, GetCurrentResourceVersions ns'), (ns', h'), w') \<and>
    wait_balanced w' \<and> running w' = running w @ map (\<lambda>b. (b, 0)) bs \<and>
    concat bs = map node_of (non_nil es) \<and> (\<forall>b\<in>set bs. b \<noteq> [] \<and> length b \<le> 100)"
  using ProcessNodeEvents_spec [OF assms, of si] unfolding BatchPersistSize_def by metis

lemma batches_for_persistence_witness:
  "\<exists>w'. ProcessNodeEvents fake_store (None # map Some demo_events) (demo_ns, []) (NewDistributorPersistHelper demo_fake) =
      Inr ((True, GetCurrentResourceVersions demo_full), (demo_full, []), w') \<and>
    concat (map fst (running w')) = map node_of demo_events"
proof -
  have n: "non_nil (None # map Some es) = es" for es :: "'a list" by (simp add: non_nil_def comp_def)
  obtain w' bs where
    "ProcessNodeEvents fake_store (None # map Some demo_events) (demo_ns, []) (NewDistributorPersistHelper demo_fake) =
      Inr ((True, GetCurrentResourceVersions demo_full), (demo_full, []), w')"
    "running w' = map (\<lambda>b. (b, 0)) bs" "concat bs = map node_of demo_events"
    using batches_for_persistence [OF wait_balanced_new [of demo_fake], of "None # map Some demo_events",
        unfolded n, OF demo_full_run(1), of fake_store]
    by (auto simp: NewDistributorPersistHelper_def)
  then show ?thesis by (auto simp: comp_def)
qed


section \<open>Granting nodes to clients\<close>

text \<open>C9: what a client is granted: when \<open>allocateNodesToClient\<close> succeeds, the recorded stores are
  distinct, were unassigned and non-empty, the reported number of hosts is the sum of their hosts, it
  reaches the request, and it would not without the last store taken: no store more than needed.\<close>

theorem granted_stores:
  assumes "allocateNodesToClient si ordS ordN c requested dis = Inr (n, dis')" "range_order ordS"
  shows "\<exists>ss. gm_get (clientToStores dis') c = Some ss \<and> distinct ss \<and> set ss \<subseteq> set (free_stores dis) \<and>
    n = sum_list (map (\<lambda>i. GetHostNum (virtual_store dis i)) ss) \<and> requested \<le> int n \<and>
    int (sum_list (map (\<lambda>i. GetHostNum (virtual_store dis i)) (butlast ss))) < requested"
proof -
  from allocate_Inr [OF assms(1)] obtain selected q s' where s: "50 < requested"
    "select_stores (\<lambda>i. GetHostNum (virtual_store dis i)) requested (ordS (free_stores dis)) [] 0 = (selected, n, True)"
    "dis' = dis\<lparr>dis_queues := dis_queues dis @ [q],
      nodeEventQueueMap := gm_put c (length (dis_queues dis)) (nodeEventQueueMap dis),
      defaultNodeStore := fold (assign_store c (length (dis_queues dis))) selected (defaultNodeStore dis),
      clientToStores := gm_put c selected (clientToStores dis), dis_store := s'\<rparr>"
    by metis
  then show ?thesis using selected_free [OF assms(2) _ s(2)] by (simp add: gomap_simps)
qed

lemma granted_stores_witness:
  "\<exists>n dis' ss. allocateNodesToClient fake_store (\<lambda>xs. xs) (\<lambda>xs. xs) ''Client-1'' 51 demo_dis = Inr (n, dis') \<and>
    gm_get (clientToStores dis') ''Client-1'' = Some ss \<and> set ss \<subseteq> {0} \<and> 51 \<le> n"
proof -
  obtain n dis' where a: "allocateNodesToClient fake_store (\<lambda>xs. xs) (\<lambda>xs. xs) ''Client-1'' 51 demo_dis = Inr (n, dis')"
    by (rule demo_allocate)
  then show ?thesis using granted_stores [OF a range_order_id] by (auto simp: demo_free)
qed

text \<open>C10: a request is granted exactly when it exceeds 50 machines, does not exceed the number of hosts
  ever added, can be met from the unassigned stores, and the client identifier is new.\<close>

theorem grant_condition:
  assumes "range_order ordS" "range_order ordN"
  shows "(\<exists>n dis'. allocateNodesToClient si ordS ordN c requested dis = Inr (n, dis')) \<longleftrightarrow>
    50 < requested \<and> requested \<le> int (totalHostNum (defaultNodeStore dis)) \<and> requested \<le> int (free_hosts dis) \<and>
    gm_get (nodeEventQueueMap dis) c = None \<and> gm_get (clientToStores dis) c = None"
proof
  assume "\<exists>n dis'. allocateNodesToClient si ordS ordN c requested dis = Inr (n, dis')"
  then obtain n dis' where a: "allocateNodesToClient si ordS ordN c requested dis = Inr (n, dis')" by blast
  from allocate_Inr [OF a] obtain selected where s: "50 < requested"
    "requested \<le> int (totalHostNum (defaultNodeStore dis))"
    "gm_get (nodeEventQueueMap dis) c = None" "gm_get (clientToStores dis) c = None"
    "select_stores (\<lambda>i. GetHostNum (virtual_store dis i)) requested (ordS (free_stores dis)) [] 0 = (selected, n, True)"
    by metis
  moreover have "requested \<le> int (free_hosts dis)"
    using select_stores_ok [OF s(5)] s(1) range_order_sum [OF assms(1)] by (simp add: free_hosts_def)
  ultimately show "50 < requested \<and> requested \<le> int (totalHostNum (defaultNodeStore dis)) \<and>
    requested \<le> int (free_hosts dis) \<and>
    gm_get (nodeEventQueueMap dis) c = None \<and> gm_get (clientToStores dis) c = None" by simp
qed (use allocate_succeeds [OF assms] in blast)

lemma grant_condition_witness:
  "\<exists>n dis'. allocateNodesToClient fake_store rev rev ''Client-2'' 51 demo_dis = Inr (n, dis')"
  using grant_condition [OF range_order_rev range_order_rev, of fake_store "''Client-2''" 51 demo_dis]
    demo_full_hosts(2) demo_free(2) by simp

text \<open>C11: registering a client keeps the distributor's invariant (the store invariant, the agreement of
  stores, clients and queues), whatever the storage answers, and no store ever belongs to two clients.\<close>

theorem clients_own_disjoint_stores:
  assumes "dis_inv dis" "range_order ordS" "range_order ordN" "ClientId client \<noteq> ''''"
    and "RegisterClient si ordS ordN client dis = (err, dis')"
  shows "dis_inv dis' \<and> (\<forall>c c' ss ss'. gm_get (clientToStores dis') c = Some ss \<longrightarrow>
    gm_get (clientToStores dis') c' = Some ss' \<longrightarrow> c \<noteq> c' \<longrightarrow> set ss \<inter> set ss' = {})"
proof -
  have inv: "dis_inv dis'" by (rule RegisterClient_keeps_inv [OF assms])
  then have "owner_links dis'" by (simp add: dis_inv_def)
  from this [unfolded owner_links_def, THEN conjunct1]
  have "vs_clientId (virtual_store dis' i) = c"
    if "gm_get (clientToStores dis') c = Some ss" "i \<in> set ss" for c ss i
    using that by blast
  then show ?thesis using inv by blast
qed

lemma clients_own_disjoint_stores_witness:
  "dis_inv demo_reg \<and> gm_get (clientToStores demo_reg) ''Client-1'' = Some [0]"
  using clients_own_disjoint_stores [OF demo_dis_ok(2) range_order_id range_order_id _ demo_register(1)]
    demo_register(2) by (simp add: demo_client_def)


text \<open>C12: a request that cannot be granted is refused with the first error that applies, in the order of
  the code's checks: at most 50 machines, more than all hosts ever counted, more than all stores hold
  (assigned ones included), a known client, and only then the capacity of the unassigned stores.\<close>

theorem grant_errors:
  assumes "range_order ordS" "hosts_counted (defaultNodeStore dis)" "vNodeStores (defaultNodeStore dis) \<noteq> []"
  defines "held \<equiv> sum_list (map GetHostNum (vNodeStores (defaultNodeStore dis)))"
  shows "(requested \<le> 50 \<longrightarrow>
      allocateNodesToClient si ordS ordN c requested dis = Inl Error_HostRequestLessThanMiniaml) \<and>
    (50 < requested \<and> int (totalHostNum (defaultNodeStore dis)) < requested \<longrightarrow>
      allocateNodesToClient si ordS ordN c requested dis = Inl Error_HostRequestExceedLimit) \<and>
    (50 < requested \<and> requested \<le> int (totalHostNum (defaultNodeStore dis)) \<and> int held < requested \<longrightarrow>
      allocateNodesToClient si ordS ordN c requested dis = Inl Error_HostRequestExceedCapacity) \<and>
    (50 < requested \<and> requested \<le> int held \<and> gm_get (nodeEventQueueMap dis) c \<noteq> None \<longrightarrow>
      allocateNodesToClient si ordS ordN c requested dis = Inl Error_ClientIdExisted) \<and>
    (50 < requested \<and> requested \<le> int held \<and> gm_get (nodeEventQueueMap dis) c = None \<and>
      gm_get (clientToStores dis) c = None \<and> int (free_hosts dis) < requested \<longrightarrow>
      (\<exists>msg. allocateNodesToClient si ordS ordN c requested dis = Inl (ErrorText msg)))"
proof -
  have held: "held \<le> totalHostNum (defaultNodeStore dis)" using assms(2) by (simp add: hosts_counted_def held_def)
  have cap: "CheckFreeCapacity requested (defaultNodeStore dis) \<longleftrightarrow> requested \<le> int held"
    using assms(3) by (simp add: CheckFreeCapacity_iff held_def)
  show ?thesis
  proof (intro conjI impI, goal_cases)
    case 1
    then show ?case by (rule allocate_guards(1))
  next
    case 2
    then show ?case by (intro allocate_guards(2)) simp_all
  next
    case 3
    then show ?case by (intro allocate_guards(3)) (simp_all add: cap)
  next
    case 4
    then show ?case using held by (intro allocate_guards(4)) (simp_all add: cap)
  next
    case 5
    then show ?case using held by (intro allocate_no_room [OF assms(1)]) (simp_all add: cap)
  qed
qed

lemma grant_errors_witness:
  "allocateNodesToClient fake_store (\<lambda>xs. xs) (\<lambda>xs. xs) ''Client-2'' 50 demo_dis = Inl Error_HostRequestLessThanMiniaml"
proof -
  have "hosts_counted demo_full" "vNodeStores demo_full \<noteq> []"
    using demo_full_run(3) demo_full_unassigned(2) by (auto simp: NodeStore_inv_def)
  then show ?thesis using grant_errors [OF range_order_id, of demo_dis 50] by simp
qed


section \<open>Events for the clients\<close>

text \<open>C13: an accepted event reaches exactly one client: it is appended (once, or twice when the add path
  falls into the update path or the reverse) to the queue linked to the virtual store the node hashes
  to, under the node's location; every other queue and every other location keep their events.\<close>

theorem event_reaches_owner:
  assumes "NodeStore_inv ns h" "processNodeEvent e (ns, h) = Inr (True, ns', h')"
    and "getVirtualNodeStore e ns = Inr (k, i)" "q < length h"
  shows "queue_events (h' ! q) loc =
    (if vs_eventQueue (vNodeStores ns ! i) = Some q \<and> loc = GetLocation e
     then lastn LengthOfNodeEventQueue (queue_events (h ! q) loc @ replicate (ring_notifications e k i ns) e)
     else queue_events (h ! q) loc) \<and> ring_notifications e k i ns \<in> {1, 2}"
  using processNodeEvent_queues [OF assms]
  by (simp add: ring_notifications_def split: option.splits)

lemma event_reaches_owner_witness:
  "\<exists>ns' h'. processNodeEvent (demo_event ''n1'' ''8'' Added) (defaultNodeStore demo_reg, dis_queues demo_reg) = Inr (True, ns', h') \<and>
    demo_event ''n1'' ''8'' Added \<in> set (queue_events (h' ! 0) demo_loc)"
proof -
  let ?e = "demo_event ''n1'' ''8'' Added" and ?ns = "defaultNodeStore demo_reg" and ?h = "dis_queues demo_reg"
  obtain k i b ns' h' where p: "processNodeEvent ?e (?ns, ?h) = Inr (b, ns', h')"
    "getVirtualNodeStore ?e ?ns = Inr (k, i)" "vs_eventQueue (vNodeStores ?ns ! i) = Some 0"
    by (rule demo_reg_event [of ?e]) (simp_all add: changes_def)
  have b: "b" using processNodeEvent_changes [OF p(1)] by (simp add: changes_def)
  have inv: "NodeStore_inv ?ns ?h" using demo_register(5) by (simp add: dis_inv_def)
  have n: "ring_notifications ?e k i ?ns \<noteq> 0" "0 < length ?h"
    using demo_register(4) by (simp_all add: ring_notifications_def split: option.splits)
  from event_reaches_owner [OF inv p(1) [unfolded b [THEN eqTrueI]] p(2) n(2), of demo_loc]
  have "queue_events (h' ! 0) demo_loc = lastn LengthOfNodeEventQueue
      (queue_events (?h ! 0) demo_loc @ replicate (ring_notifications ?e k i ?ns) ?e)"
    using p(3) by simp
  moreover have "?e \<in> set (lastn LengthOfNodeEventQueue (xs @ replicate m ?e))" if "m \<noteq> 0" for xs m
    using that last_in_lastn [of LengthOfNodeEventQueue "xs @ replicate m ?e"] by simp
  ultimately show ?thesis using p(1) b n(1) by auto
qed

text \<open>C14: the queue of a client is a bounded history per location: after any sequence of events it is
  well formed and holds, for each location, the last 10000 events of that location in arrival order.
  The circular buffer of 10000 slots with its two counters refines this list.\<close>

theorem queue_holds_recent_history:
  "NodeEventQueue_wf (fold EnqueueEvent es (NewNodeEventQueue c)) \<and>
   queue_events (fold EnqueueEvent es (NewNodeEventQueue c)) loc =
     lastn 10000 (filter (\<lambda>e. GetLocation e = loc) es)"
  using queue_events_history [of es c loc] by (simp add: LengthOfNodeEventQueue_def)







text \<open>C18: the binary search over the circular buffer is a filter: in a well-formed queue whose versions
  do not decrease, the index found for a version, read to the end, gives exactly the events newer than
  that version; an empty queue, a version before the oldest event and a version at or after the newest
  one are the three error cases.\<close>

theorem index_search_is_filter:
  assumes "queueByLoc_wf qloc" "rv_sorted (queueByLoc_events qloc)"
  shows "case getEventIndexSinceResourceVersion rv qloc of
      Inr i \<Rightarrow> getEventsFromIndex i qloc = Inr (map GetNodeEvent (events_since rv (queueByLoc_events qloc))) \<and>
        events_since rv (queueByLoc_events qloc) \<noteq> []
    | Inl Error_EndOfEventQueue \<Rightarrow> queueByLoc_events qloc \<noteq> [] \<and> events_since rv (queueByLoc_events qloc) = []
    | Inl err \<Rightarrow> queueByLoc_events qloc = [] \<or> rv < GetResourceVersion (hd (queueByLoc_events qloc))"
proof (cases "queueByLoc_events qloc")
  case Nil
  then show ?thesis using getEventIndex_spec(1) [OF assms] by simp
next
  case (Cons e es)
  show ?thesis
  proof (cases "rv < GetResourceVersion e")
    case True
    then obtain msg where "getEventIndexSinceResourceVersion rv qloc = Inl (ErrorText msg)"
      using getEventIndex_spec(2) [OF assms Cons] by blast
    then show ?thesis using Cons True by simp
  next
    case False
    then have i: "getEventIndexSinceResourceVersion rv qloc =
        (if events_since rv (queueByLoc_events qloc) = [] then Inl Error_EndOfEventQueue
         else Inr (startPos qloc + length (takeWhile (\<lambda>e. GetResourceVersion e \<le> rv) (queueByLoc_events qloc))))"
      using getEventIndex_spec(3) [OF assms Cons] by simp
    show ?thesis
    proof (cases "events_since rv (queueByLoc_events qloc) = []")
      case False
      then show ?thesis using i replay_location [OF assms, of rv] by simp
    qed (use i Cons in simp)
  qed
qed

lemma index_search_is_filter_witness:
  "\<exists>i. getEventIndexSinceResourceVersion 5 (enqueueEvent (demo_event ''a'' ''7'' Added)
      (enqueueEvent (demo_event ''a'' ''5'' Added) newNodeQueueByLoc)) = Inr i \<and>
    getEventsFromIndex i (enqueueEvent (demo_event ''a'' ''7'' Added)
      (enqueueEvent (demo_event ''a'' ''5'' Added) newNodeQueueByLoc)) = Inr [NewNodeEvent (demo_node ''a'' ''7'') Added]"
proof -
  let ?q0 = "newNodeQueueByLoc" and ?e5 = "demo_event ''a'' ''5'' Added" and ?e7 = "demo_event ''a'' ''7'' Added"
  let ?q = "enqueueEvent ?e7 (enqueueEvent ?e5 ?q0)"
  have wf: "queueByLoc_wf ?q" by (intro queueByLoc_wf_enqueue queueByLoc_new)
  have ev: "queueByLoc_events ?q = [?e5, ?e7]"
    using bq.abs_fold_new [of "[?e5, ?e7]"] by (simp add: lastn_def LengthOfNodeEventQueue_def)
  show ?thesis
    using index_search_is_filter [OF wf, of 5] 
    by (auto simp: ev rv_sorted_def events_since_def split: sum.splits GoError.splits)
qed






section \<open>Where the ring arithmetic fails\<close>



text \<open>C22: an event of a region or partition outside the table is not rejected: \<open>NewLocation\<close> accepts it,
  and \<open>processNodeEvent\<close> panics with an index out of range, in any store of at most 9 regions and 40
  partitions.\<close>

theorem invalid_location_panics:
  assumes "NodeStore_inv ns h" "regionNum ns \<le> 9" "partitionMaxNum ns \<le> 40"
    and "changes e" "\<not> valid_location (GetLocation e)"
  shows "processNodeEvent e (ns, h) = Inl (Panicked IndexOutOfRange)"
  using processNodeEvent_invalid_location [OF _ assms(2-5)] assms(1) by (simp add: NodeStore_inv_def)

lemma invalid_location_panics_witness:
  "processNodeEvent (NewManagedNodeEvent (NewNodeEvent (demo_node ''n1'' ''7'') Added) (NewLocation (-1) 0)) (demo_ns, []) =
    Inl (Panicked IndexOutOfRange)"
  by (rule invalid_location_panics [OF demo_ns_inv])
    (simp_all add: demo_ns_new changes_def GetEventType_def NewManagedNodeEvent_def NewNodeEvent_def NewLocation_def
      GetLocation_def valid_location_def)


section \<open>Watching\<close>








section \<open>The service and its process\<close>

text \<open>C26: the process never tells a region manager more than the distributor knows: however the goroutines
  of the region managers, the HTTP requests (registrations and watches among them) and the metrics report
  interleave, there is one goroutine per configured URL; the versions in every pull request and every
  post are positive and at most the distributor's current ones; what a goroutine keeps is empty before its
  first batch and exactly the distributor's versions after its last batch; the distributor's versions never
  go back.\<close>

theorem aggregator_tracks_distributor:
  assumes "sv_di sv = distributor si ordS ordN ordT ordR ordQ (sv_measure sv) now"
    and "range_order ordS" "range_order ordN" "range_order ord"
    and "Run rc cfg s0 = Some p" "run_reach sv ord answers p s"
  defines "a \<equiv> pr_aggregator s"
  shows "dis_ok (ag_dist a) \<and> map pl_client (ag_loops a) = map createClient (ResourceUrls cfg) \<and>
    (\<forall>l. current_rv (pr_dist p) l \<le> current_rv (ag_dist a) l) \<and>
    (\<forall>q\<in>set (ag_sent a). \<forall>l v. gm_get (CRV (hr_body q)) l = Some v \<longrightarrow> 0 < v \<and> v \<le> current_rv (ag_dist a) l) \<and>
    (\<forall>p\<in>set (ag_loops a). case pl_last p of
       None \<Rightarrow> pl_crv p = gm_empty
     | Some d0 \<Rightarrow> (\<forall>l. gm_get (pl_crv p) l = (if current_rv d0 l > 0 then Some (current_rv d0 l) else None) \<and>
         current_rv d0 l \<le> current_rv (ag_dist a) l))"
  unfolding a_def by (intro conjI) (rule aggregator_knows [OF assms(1-6)])+

lemma aggregator_tracks_distributor_witness:
  "\<exists>p s. Run demo_redis demo_main [] = Some p \<and> run_reach redis_service (\<lambda>xs. xs) placeable_answers p s \<and>
     length (ag_sent (pr_aggregator s)) = 1 \<and> dis_ok (pr_dist s)"
proof -
  obtain p s es where r: "Run demo_redis demo_main [] = Some p" "run_reach redis_service (\<lambda>xs. xs) placeable_answers p s"
    "length (ag_sent (pr_aggregator s)) = 1"
    by (rule demo_process_run)
  have "sv_di redis_service = distributor (goredis demo_redis demo_text) (\<lambda>xs. xs) (\<lambda>xs. xs) (\<lambda>xs. xs) (\<lambda>xs. xs) (\<lambda>xs. xs)
      (sv_measure redis_service) (\<lambda>i. 5)" by simp
  from aggregator_tracks_distributor [OF this range_order_id range_order_id range_order_id r(1,2)] r
  show ?thesis by blast
qed

text \<open>C27: a list response carries the whole list: for a connected client, with or without a valid limit,
  the bodies written by \<open>handleList\<close>, concatenated, are exactly the nodes the distributor returned, each
  body carries the same versions and at most 500 nodes or as many as the limit asks for, and the status
  is 200.\<close>

theorem list_response_is_complete:
  assumes "di_ListNodesForClient di c d = Inr (nodes, crv)" "handleList di req c (new_response True True) d = Inr resp'"
    and "rq_Query req ''limit'' = '''' \<or> Atoi (rq_Query req ''limit'') \<noteq> None"
  shows "status_of resp' = Some 200 \<and> concat (map body_nodes (rs_bodies resp')) = nodes \<and>
    (\<forall>b\<in>set (rs_bodies resp'). \<exists>ns. b = ListBody \<lparr>NodeList = ns, lr_ResourceVersions = crv\<rparr> \<and>
      int (length ns) \<le> max 500 (case Atoi (rq_Query req ''limit'') of Some n \<Rightarrow> n | None \<Rightarrow> 0))"
proof -
  let ?r = "Header_Set ''Content-Type'' ''text/plain'' (WriteHeader 200 (new_response True True))"
  have r: "rs_connected ?r" "rs_isFlusher ?r" "rs_bodies ?r = []"
    by (simp_all add: Header_Set_def new_response_def)
  let ?n = "case Atoi (rq_Query req ''limit'') of Some n \<Rightarrow> n | None \<Rightarrow> 0"
  have n: "Atoi '''' = None" by (simp add: Atoi_def)
  have h: "handleResponseTrunked nodes crv ?n ?r = Inr resp'"
    using assms by (auto simp: handleList_def Let_def n split: if_splits option.splits)
  have "status_of resp' = Some 200"
    by (rule handleResponseTrunked_status [OF _ h])
      (simp add: status_of_def new_response_def Header_Set_def WriteHeader_def)
  then show ?thesis using handleResponseTrunked_nodes [OF r h] by fastforce
qed

lemma list_response_is_complete_witness:
  "\<exists>nodes crv resp'. ListNodesForClient (\<lambda>xs. xs) (\<lambda>xs. xs) ''Client-1'' demo_reg = Inr (nodes, crv) \<and>
    handleList (distributor fake_store (\<lambda>xs. xs) (\<lambda>xs. xs) (\<lambda>xs. xs) (\<lambda>xs. xs) (\<lambda>xs. xs) True (\<lambda>i. 5)) demo_request ''Client-1''
      (new_response True True) demo_reg = Inr resp' \<and>
    concat (map body_nodes (rs_bodies resp')) = nodes"
proof -
  let ?di = "distributor fake_store (\<lambda>xs. xs) (\<lambda>xs. xs) (\<lambda>xs. xs) (\<lambda>xs. xs) (\<lambda>xs. xs) True (\<lambda>i. 5)"
  obtain nodes crv where l: "ListNodesForClient (\<lambda>xs. xs) (\<lambda>xs. xs) ''Client-1'' demo_reg = Inr (nodes, crv)"
    by (rule demo_list)
  then have d: "di_ListNodesForClient ?di ''Client-1'' demo_reg = Inr (nodes, crv)" by (simp add: distributor_def)
  have "\<exists>resp'. handleList ?di demo_request ''Client-1'' (new_response True True) demo_reg = Inr resp'"
    by (cases "length nodes \<le> trunk_size 0")
      (simp_all add: handleList_def d demo_request_def handleResponseTrunked_def Let_def Header_Set_def new_response_def)
  then obtain resp' where h: "handleList ?di demo_request ''Client-1'' (new_response True True) demo_reg = Inr resp'" ..
  show ?thesis
    using list_response_is_complete [OF d h] l h by (simp add: demo_request_def)
qed

text \<open>C28: registration over HTTP: a client of the SDK that asks for 1000 to 50000 machines is registered under
  Client- and a fresh uuid if the distributor grants it, and gets this identifier and what it asked for;
  any other request, and one that the distributor refuses, ends with an error from decoding the empty
  answer, and a request out of the bounds leaves the distributor alone.\<close>

theorem registration_over_http:
  assumes "DefaultServerURL parse (ServiceUrl cfg) '''' False = Inr url" "NewRmsClient parse cfg = Some c"
    and "base_segments (url_Path url) = []" "mux_laws (sv_mux sv)" "config_ok cfg" "ascii (sv_uuid sv (length sent))"
  defines "n \<equiv> InitialRequestTotalMachines cfg"
    and "cl \<equiv> \<lparr>ClientId = ''Client-'' @ sv_uuid sv (length sent),
      ClientInfo = \<lparr>ClientName = ClientFriendlyName cfg, ci_Region = ClientRegion cfg\<rparr>,
      Resource = \<lparr>TotalMachines = InitialRequestTotalMachines cfg, RequestInRegions = []\<rparr>\<rparr>"
  shows "\<exists>q. rms_Register (service_env sv) c (d, sent) =
    Some (if n < 1000 \<or> 50000 < n then (Inl JsonErr, (d, sent @ [q]))
      else case di_RegisterClient (sv_di sv) cl d of
          (None, d') \<Rightarrow> (Inr \<lparr>crs_ClientId = ClientId cl, GrantedResource = Resource cl\<rparr>, (d', sent @ [q]))
        | (Some err, d') \<Rightarrow> (Inl JsonErr, (d', sent @ [q])))"
proof -
  have "cl = registered_client cfg (sv_uuid sv (length sent))"
    by (simp add: cl_def registered_client_def registration_request_def Preserve_Client_KeyPrefix_def)
  then show ?thesis
    unfolding n_def by (simp only:) (rule rms_Register_service [OF assms(1-6)])
qed

lemma registration_over_http_witness:
  "\<exists>w. rms_Register (service_env (demo_service [])) thousand_rms (thousand_dis, []) =
     Some (Inr \<lparr>crs_ClientId = ''Client-1'', GrantedResource = \<lparr>TotalMachines = 1000, RequestInRegions = []\<rparr>\<rparr>, w)"
proof -
  obtain d' where r: "RegisterClient fake_store (\<lambda>xs. xs) (\<lambda>xs. xs) (registered_client thousand_config ''1'') thousand_dis = (None, d')"
    by (rule thousand_register)
  have m: "InitialRequestTotalMachines thousand_config = 1000" by (simp add: thousand_config_def)
  have a: "ascii (sv_uuid (demo_service []) (length ([] :: HttpRequest list)))" by (simp add: ascii_def byte_of_def)
  obtain q where "rms_Register (service_env (demo_service [])) thousand_rms (thousand_dis, []) =
      Some (Inr \<lparr>crs_ClientId = ''Client-1'', GrantedResource = \<lparr>TotalMachines = 1000, RequestInRegions = []\<rparr>\<rparr>, (d', [q]))"
    using registration_over_http [where sv = "demo_service []" and d = thousand_dis and sent = "[]",
        OF thousand_client(1,2) demo_base _ thousand_client(3) a] r m
    by (auto simp: distributor_def registered_client_def registration_request_def Preserve_Client_KeyPrefix_def)
  then show ?thesis by blast
qed

text \<open>C29: the status of a node cannot be asked for with a query: the path of the route ends with a question
  mark, so a GET of /nodes with any query is answered 404; and the requests that do match, those with the
  question mark in the path, are answered 200 whatever they ask for, also for an unknown partition or node.\<close>

theorem node_status_requests:
  assumes "mux_laws (sv_mux sv)" "hq_Method q = ''GET''"
  shows "(url_Path (hq_URL q) = ''/nodes'' \<longrightarrow> serve sv uuid q d = (Inr not_found, d)) \<and>
    (url_Path (hq_URL q) = ''/nodes?'' \<and> serve sv uuid q d = (Inr resp, d') \<longrightarrow> hr_StatusCode resp = 200 \<and> d' = d)"
  using serve_nodes [OF assms] by blast

lemma node_status_requests_witness:
  "serve (demo_service []) ''1''
     \<lparr>hq_Method = ''GET'', hq_URL = zero_URL\<lparr>url_Path := ''/nodes'', url_RawQuery := ''nodeId=a''\<rparr>, hq_Header = None,
      hq_Body = None, hq_Context = None\<rparr> demo_dis = (Inr not_found, demo_dis)"
  using node_status_requests [of "demo_service []"
    "\<lparr>hq_Method = ''GET'', hq_URL = zero_URL\<lparr>url_Path := ''/nodes'', url_RawQuery := ''nodeId=a''\<rparr>, hq_Header = None,
      hq_Body = None, hq_Context = None\<rparr>" "''1''" demo_dis] by simp



section \<open>Locations, latencies, storage, caches\<close>

text \<open>C31: the ring is cut without gaps or overlaps: the table built by the \<open>init\<close> function of the
  location package gives the 360 valid locations the unit arcs [n, n+1] in order, with no rounding error
  left, and nothing to any other location.\<close>

theorem ring_arcs:
  "GetArcRangeFromLocation loc =
    (if valid_location loc then (of_int (loc_index loc), of_int (loc_index loc + 1)) else (0, 0)) \<and>
   (valid_location loc \<longrightarrow> 0 \<le> loc_index loc \<and> loc_index loc < 360)"
  using arc_range [of loc] arc_range_invalid [of loc] loc_index_bounds [of loc] by simp

lemma ring_arcs_witness:
  "GetArcRangeFromLocation \<lparr>loc_region = 8, loc_partition = 39\<rparr> = (359, 360)"
  using ring_arcs [of "\<lparr>loc_region = 8, loc_partition = 39\<rparr>"] by (simp add: valid_location_def loc_index_def)

text \<open>C32: the names of regions and partitions are read back: the two region tables are inverse to each
  other, a partition's name parses to the partition, and a name that parses gives one of the 40
  partitions.\<close>

theorem location_names_roundtrip:
  "(gm_get regionToRegionName r = Some s \<longleftrightarrow> gm_get regionNameToRegion s = Some r) \<and>
   (0 \<le> rp \<and> rp < 40 \<longrightarrow> GetPartitionFromPartitionName (GetPartitionName rp) = Some rp) \<and>
   (GetPartitionFromPartitionName t = Some rp' \<longrightarrow> 0 \<le> rp' \<and> rp' < 40)"
  using region_names_inverse partition_name_roundtrip partition_from_name_range by blast

lemma location_names_roundtrip_witness: "GetPartitionFromPartitionName (GetPartitionName 39) = Some 39"
  using location_names_roundtrip [of 0 "''Beijing''" 39 "''RP1''" 0] by simp

text \<open>C33: the percentiles of a latency report are nearest-rank percentiles: the index the code computes
  with floating-point division and rounding up is in range, at least p percent of the latencies are not
  above the reported value and fewer than p percent are below it.\<close>

theorem latency_percentiles:
  assumes "latencies m \<noteq> []" "length (latencies m) \<le> 2 ^ 32"
    and "(p, v) \<in> {(50, P50 (fst (GetSummary m))), (90, P90 (fst (GetSummary m))), (99, P99 (fst (GetSummary m)))}"
  shows "length (latencies m) * p \<le> 100 * length (filter (\<lambda>y. y \<le> v) (latencies m)) \<and>
    100 * length (filter (\<lambda>y. y < v) (latencies m)) < length (latencies m) * p \<and> v \<in> set (latencies m)"
proof -
  have v: "v = nearest_rank (latencies m) p" "0 < p" "p \<le> 100"
    using assms(3) GetSummary_report [OF assms(1,2)] by auto
  have n: "0 < length (latencies m)" using assms(1) by simp
  have "nat ((int (length (latencies m)) * int p + 99) div 100) - 1 < length (sort (latencies m))"
    using percentile_pos_exact [OF n assms(2) v(2,3)] percentile_pos_range [OF n assms(2) v(2,3)] by simp
  then have "v \<in> set (sort (latencies m))" unfolding v(1) nearest_rank_def by (rule nth_mem)
  then show ?thesis using nearest_rank_spec [OF assms(1) v(2,3)] v(1) by simp
qed

lemma latency_percentiles_witness:
  "P90 (fst (GetSummary (AddLatencyMetrics 5 (AddLatencyMetrics 9 (NewLatencyMetrics 0))))) \<in> {5, 9}"
proof -
  let ?m = "AddLatencyMetrics 5 (AddLatencyMetrics 9 (NewLatencyMetrics 0))"
  have "latencies ?m = [9, 5]" by (simp add: AddLatencyMetrics_def NewLatencyMetrics_def)
  then show ?thesis using latency_percentiles [of ?m 90 "P90 (fst (GetSummary ?m))"] by auto
qed

text \<open>C34: what the Redis storage reports as saved is read back from the JSON that was written: a client
  under its id, the node store status and each node of a batch under its own key come back with their
  maps in the order of the text; an assignment comes back without the locations of its virtual nodes,
  because \<open>Location\<close> has no exported field. The server gives back what was set, and the texts of times
  and floats are read back.\<close>

theorem redis_reads_back:
  assumes "redis_laws rc"
  shows "(redis_PersistClient rc i c s = (None, s') \<longrightarrow> Client_ok c \<longrightarrow> redis_GetClient rc i s' = Inr (canon_Client c)) \<and>
    (redis_PersistNodeStoreStatus rc st s = (True, s') \<longrightarrow> NodeStoreStatus_ok st \<longrightarrow>
      redis_GetNodeStoreStatus rc s' = Some (canon_NodeStoreStatus st)) \<and>
    (redis_PersistVirtualNodesAssignments rc tc a s = (True, s') \<longrightarrow> VirtualNodeAssignment_ok tc a \<longrightarrow>
      redis_GetVirtualNodesAssignments rc tc s' =
        Some (a\<lparr>va_VirtualNodes := map (\<lambda>c. c\<lparr>vc_Location := zero_Location\<rparr>) (va_VirtualNodes a)\<rparr>)) \<and>
    (redis_PersistNodes rc tc (Some ns) s = Inr (True, s') \<longrightarrow> distinct (map (\<lambda>n. LogicalNode_GetKey (Some n)) ns) \<longrightarrow>
      (\<forall>n\<in>set ns. node_ok tc n \<longrightarrow>
        (\<exists>t. rc_Get rc (LogicalNode_GetKey (Some n)) s' = Inr t \<and> jd_node tc t None = Inr (Some (canon_node n)))))"
  using redis_client_roundtrip [OF assms] redis_status_roundtrip [OF assms]
    redis_assignment_roundtrip [OF assms, unfolded without_locations_def] redis_nodes_roundtrip [OF assms] by blast

lemma redis_reads_back_witness:
  "(\<exists>s'. redis_PersistClient demo_redis ''Client-1'' demo_client [] = (None, s') \<and>
     redis_GetClient demo_redis ''Client-1'' s' = Inr demo_client) \<and>
   (\<exists>t. rc_Get demo_redis ''MinNode.a.0.0'' demo_saved = Inr t \<and>
     jd_node demo_text t None = Inr (Some (demo_node ''a'' ''5'')))"
proof -
  have ok: "Client_ok demo_client"
    by (simp add: Client_ok_def demo_client_def ClientInfo_ok_def ResourceRequest_ok_def int64_def)
  obtain t where "js_client demo_client = Inr t"
    using client_codec.unmarshal_marshal [OF ok] by (auto simp: js_client_def marshal_result_def)
  then obtain s' where p: "redis_PersistClient demo_redis ''Client-1'' demo_client [] = (None, s')"
    by (simp add: redis_PersistClient_def demo_redis_def)
  have "canon_Client demo_client = demo_client"
    by (simp add: canon_Client_def canon_ResourceRequest_def demo_client_def)
  then have 1: "redis_GetClient demo_redis ''Client-1'' s' = Inr demo_client"
    using redis_reads_back [OF demo_redis_laws, THEN conjunct1, rule_format, OF p ok] by simp
  have "distinct (map (\<lambda>n. LogicalNode_GetKey (Some n)) [demo_node ''a'' ''5'', demo_node ''b'' ''6''])" by simp
  moreover have "canon_node (demo_node ''a'' ''5'') = demo_node ''a'' ''5''"
    by (simp add: canon_node_def canon_resource_def canon_counts_def demo_node_def zero_node_def)
  ultimately show ?thesis
    using redis_reads_back [OF demo_redis_laws, THEN conjunct2, THEN conjunct2, THEN conjunct2,
      rule_format, OF demo_persist, of "demo_node ''a'' ''5''"] p 1 by auto
qed




text \<open>C37: a client that is granted machines lists them, if it asks for enough: after a registration over HTTP,
  the list of the client holds the nodes of its virtual stores, at least as many as it asked for, with
  the newest version of each location, provided its limit (or 500) covers them; with a smaller limit the
  answer comes in several documents and the client gets nothing, and no error.\<close>

theorem registered_client_lists:
  assumes "DefaultServerURL parse (ServiceUrl cfg) '''' False = Inr url" "NewRmsClient parse cfg = Some c"
    and "base_segments (url_Path url) = []" "mux_laws (sv_mux sv)" "config_ok cfg" "int64 (Limit opts)"
    and "sv_di sv = distributor si ordS ordN ordT ordR ordQ enabled now"
    and "range_order ordS" "range_order ordN" "range_order ordT"
    and "nodes_ok (sv_codec sv) d" "uuid_text (sv_uuid sv (length sent))"
    and "rms_Register (service_env sv) c (d, sent) = Some (Inr ret, (d', sent'))"
  shows "\<exists>ss ns crv q. gm_get (clientToStores d') (crs_ClientId ret) = Some ss \<and>
    InitialRequestTotalMachines cfg \<le> int (size (client_nodes d' ss)) \<and>
    rms_List (service_env sv) (sv_codec sv) (c\<lparr>rms_Id := crs_ClientId ret\<rparr>) clientId opts (d', sent') =
      Some (Inr (ns, crv), (d', sent' @ [q])) \<and>
    (if int (size (client_nodes d' ss)) \<le> max 500 (Limit opts)
     then mset ns = image_mset canon_node (client_nodes d' ss) \<and>
       (\<forall>l. gm_get crv l = newest_rv (client_events d' ss) l)
     else ns = [] \<and> crv = [])"
  by (rule registered_lists [OF assms])

lemma registered_client_lists_witness:
  "\<exists>d' sent' w. rms_Register (service_env (demo_service [])) thousand_rms (thousand_dis, []) =
     Some (Inr \<lparr>crs_ClientId = ''Client-1'', GrantedResource = \<lparr>TotalMachines = 1000, RequestInRegions = []\<rparr>\<rparr>, (d', sent')) \<and>
   rms_List (service_env (demo_service [])) demo_text (thousand_rms\<lparr>rms_Id := ''Client-1''\<rparr>) '''' \<lparr>Limit = 999\<rparr> (d', sent') =
     Some (Inr ([], []), w)"
proof -
  let ?sv = "demo_service []" and ?ret = "\<lparr>crs_ClientId = ''Client-1'', GrantedResource = \<lparr>TotalMachines = 1000, RequestInRegions = []\<rparr>\<rparr>"
  obtain d' where r: "RegisterClient fake_store (\<lambda>xs. xs) (\<lambda>xs. xs) (registered_client thousand_config ''1'') thousand_dis = (None, d')"
    by (rule thousand_register)
  have a: "ascii (sv_uuid ?sv (length ([] :: HttpRequest list)))" by (simp add: ascii_def byte_of_def)
  have m: "InitialRequestTotalMachines thousand_config = 1000" by (simp add: thousand_config_def)
  obtain q where reg: "rms_Register (service_env ?sv) thousand_rms (thousand_dis, []) = Some (Inr ?ret, (d', [q]))"
    using rms_Register_service [where sv = ?sv and d = thousand_dis and sent = "[]",
        OF thousand_client(1,2) demo_base _ thousand_client(3) a] r m
    by (auto simp: distributor_def registered_client_def registration_request_def Preserve_Client_KeyPrefix_def)
  have u: "uuid_text (sv_uuid ?sv (length ([] :: HttpRequest list)))" by (simp add: uuid_text_def)
  have "nodes_ok (sv_codec ?sv) thousand_dis" using thousand_nodes by simp
  from registered_client_lists [where sv = ?sv and opts = "\<lparr>Limit = 999\<rparr>" and clientId = "''''",
      OF thousand_client(1,2) demo_base _ thousand_client(3) _ demo_service_simps(3) range_order_id range_order_id range_order_id this u reg]
  show ?thesis using reg m by (auto simp: int64_def split: if_splits)
qed



section \<open>The SDK\<close>

text \<open>C39: the REST client sends a request at least once and at most ten times, always the same method, URL,
  headers and whole body; it gives out a response that still asks for a retry only after the tenth
  attempt, it fails only with a transport error, and a GET does not fail with a reset connection.\<close>

theorem request_attempts:
  assumes "logs_requests env sent" "rr_rateLimiter r = None" "he_NewRequest env (rr_verb r) (Request_URL r) = None"
    and "at_start r" "rewindable r"
  shows "\<exists>res r' w' qs. doRequest env r w = Some (res, r', w') \<and> sent w' = sent w @ qs \<and>
    1 \<le> length qs \<and> length qs \<le> 10 \<and> (\<forall>q\<in>set qs. same_request r q) \<and>
    (case res of Inl err \<Rightarrow> \<exists>e. err = TransportError e \<and> (rr_verb r = ''GET'' \<longrightarrow> \<not> IsConnectionReset e)
     | Inr resp \<Rightarrow> snd (checkWait resp) \<longrightarrow> length qs = 10)"
proof -
  have "loop_run env sent 0 r w"
    by (rule doRequest_loop_run [OF assms]) (simp add: maxRetries_def)
  then obtain res r' w' qs where l: "doRequest_loop env 0 r w = Some (res, r', w')" "sent w' = sent w @ qs"
    "qs \<noteq> []" "0 + length qs \<le> maxRetries" "\<forall>q\<in>set qs. same_request r q"
    "case res of Inl err \<Rightarrow> \<exists>e. err = TransportError e \<and> (rr_verb r = ''GET'' \<longrightarrow> \<not> IsConnectionReset e)
     | Inr resp \<Rightarrow> snd (checkWait resp) \<longrightarrow> 0 + length qs = maxRetries"
    unfolding loop_run_def by blast
  moreover have "1 \<le> length qs" using l(3) by (cases qs) simp_all
  ultimately show ?thesis unfolding doRequest_def maxRetries_def add_0 by blast
qed

lemma request_attempts_witness:
  "\<exists>res r' w' qs. doRequest demo_env (rest_Get (rms_restClient demo_rms)) ([], replicate 20 (Inr demo_busy)) =
      Some (res, r', w') \<and> fst w' = qs \<and> 1 \<le> length qs \<and> length qs \<le> 10"
proof -
  let ?r = "rest_Get (rms_restClient demo_rms)"
  have "he_NewRequest demo_env (rr_verb ?r) (Request_URL ?r) = None" by (simp add: demo_env_def)
  from request_attempts [OF demo_env_logs demo_get(1) this demo_get(2,3), of "([], replicate 20 (Inr demo_busy))"]
  show ?thesis by auto
qed

text \<open>C40: \<open>List\<close> asks for the resource of the client's own id, not of the id it is given, and with an id that
  is not a usable path segment (the empty one of a new client) it still sends the request, to the
  collection and without the limit: the error that building the request has recorded is never reported.\<close>

theorem list_requests:
  assumes "DefaultServerURL parse (ServiceUrl cfg) '''' False = Inr url" "NewRmsClient parse cfg = Some c"
    and "logs_requests env sent" "\<forall>verb u. he_NewRequest env verb u = None"
  shows "\<exists>res w' qs. rms_List env tc (c\<lparr>rms_Id := ident\<rparr>) clientId opts w = Some (res, w') \<and>
    sent w' = sent w @ qs \<and> qs \<noteq> [] \<and>
    (\<forall>q\<in>set qs. hq_Method q = ''GET'' \<and>
      url_Path (hq_URL q) = rooted_path (base_segments (url_Path url) @ ''resource'' # (if usable_id ident then [ident] else [])) \<and>
      url_RawQuery (hq_URL q) = values_Encode (list_query ident (RequestTimeout cfg) opts)) \<and>
    (\<forall>e. res = Inl (RestErr e) \<longrightarrow> (\<exists>n. e = TransportError n \<or> e = ResponseReadError n))"
  using rms_List_run [OF assms] by blast

lemma list_requests_witness:
  "\<exists>res w' q. rms_List demo_env demo_text (demo_rms\<lparr>rms_Id := ''''\<rparr>) ''Client-1'' \<lparr>Limit = 500\<rparr> ([], [Inr demo_ok]) = Some (res, w') \<and>
    q \<in> set (fst w') \<and> url_Path (hq_URL q) = ''/resource'' \<and> url_RawQuery (hq_URL q) = ''''"
proof -
  have p: "rooted_path (base_segments (url_Path demo_url) @ [''resource'']) = ''/resource''"
      "values_Encode (list_query '''' (RequestTimeout demo_config) \<lparr>Limit = 500\<rparr>) = ''''"
    by code_simp+
  obtain res w' qs where l: "rms_List demo_env demo_text (demo_rms\<lparr>rms_Id := ''''\<rparr>) ''Client-1'' \<lparr>Limit = 500\<rparr> ([], [Inr demo_ok]) =
      Some (res, w')" "fst w' = qs" "qs \<noteq> []"
      "\<forall>q\<in>set qs. url_Path (hq_URL q) = ''/resource'' \<and> url_RawQuery (hq_URL q) = ''''"
    using list_requests [OF demo_DefaultServerURL demo_NewRmsClient demo_env_logs, of demo_text "''''" "''Client-1''" "\<lparr>Limit = 500\<rparr>"
        "([], [Inr demo_ok])"] p by (auto simp: demo_env_def usable_id_def)
  then show ?thesis by (cases qs) auto
qed

end
